(* ===== verification/Prelude.thy ===== *)
theory Prelude
  imports Main "HOL-Library.Word" "HOL-Library.Monad_Syntax"
begin

text \<open>
  Shared vocabulary of the development: the C integer types as machine words, undefined
  behaviour as the value None, byte buffers of fixed size and the string.h functions the
  sources call on them, and little-endian encoding of integers into bytes.

  A C object of array type is a list whose length is the declared size. An access outside the
  object, or reading a string that has no terminator inside it, is undefined behaviour in C:
  every operation below returns None there, and Some of the new contents otherwise. A C
  function that can run into undefined behaviour therefore has an option type, and a theorem
  that its result is Some says that it stays inside its objects.
\<close>

unbundle bit_operations_syntax

type_synonym u8 = "8 word"
type_synonym u16 = "16 word"
type_synonym u32 = "32 word"
type_synonym u64 = "64 word"
type_synonym bytes = "u8 list"

named_theorems buf_simps \<open>rules about fixed-size buffers and C strings\<close>
named_theorems le_simps \<open>rules about little-endian encoding\<close>

section \<open>The option monad\<close>

lemma bind_SomeE:
  assumes "Option.bind m f = Some y"
  obtains x where "m = Some x" "f x = Some y"
  using assms by (cases m) auto

definition guard :: "bool \<Rightarrow> unit option" where
  "guard b = (if b then Some () else None)"

lemma guard_bind [simp]: "Option.bind (guard b) f = (if b then f () else None)"
  by (simp add: guard_def)

lemma guard_simps [simp]: "guard True = Some ()" "guard False = None"
  by (simp_all add: guard_def)

section \<open>C strings in byte buffers\<close>

text \<open>A string literal of the source as bytes, without the terminating zero.\<close>

definition cs :: "string \<Rightarrow> bytes" where
  "cs s = map of_char s"

text \<open>The string a buffer holds: the bytes before the first zero byte.\<close>

definition cstr :: "bytes \<Rightarrow> bytes" where
  "cstr b = takeWhile (\<lambda>c. c \<noteq> 0) b"

text \<open>A buffer holds a string when a zero byte lies inside it.\<close>

definition terminated :: "bytes \<Rightarrow> bool" where
  "terminated b \<longleftrightarrow> 0 \<in> set b"

definition strlen :: "bytes \<Rightarrow> nat option" where
  "strlen b = (if terminated b then Some (length (cstr b)) else None)"

definition bzero :: "nat \<Rightarrow> bytes" where
  "bzero n = replicate n 0"

text \<open>Writing a run of bytes at an index of a buffer (memcpy into an array).\<close>

definition mem_put :: "bytes \<Rightarrow> nat \<Rightarrow> bytes \<Rightarrow> bytes option" where
  "mem_put dst i src =
     (if i + length src \<le> length dst
      then Some (take i dst @ src @ drop (i + length src) dst) else None)"

text \<open>Reading a run of bytes from an index of a buffer (memcpy out of an array).\<close>

definition mem_get :: "bytes \<Rightarrow> nat \<Rightarrow> nat \<Rightarrow> bytes option" where
  "mem_get src i n = (if i + n \<le> length src then Some (take n (drop i src)) else None)"

text \<open>strcpy and strcat; the source string is given by its bytes, without the zero.\<close>

definition strcpy :: "bytes \<Rightarrow> bytes \<Rightarrow> bytes option" where
  "strcpy dst s = mem_put dst 0 (s @ [0])"

definition strcat :: "bytes \<Rightarrow> bytes \<Rightarrow> bytes option" where
  "strcat dst s = do { n \<leftarrow> strlen dst; mem_put dst n (s @ [0]) }"

lemma length_bzero [simp]: "length (bzero n) = n"
  by (simp add: bzero_def)

lemma cstr_bzero [simp]: "cstr (bzero n) = []"
  by (cases n) (simp_all add: bzero_def cstr_def)

lemma terminated_bzero [simp]: "terminated (bzero n) \<longleftrightarrow> 0 < n"
  by (auto simp: terminated_def bzero_def)

lemma cstr_no_zero [simp]: "0 \<notin> set (cstr b)"
  by (auto simp: cstr_def dest: set_takeWhileD)

lemma cstr_id: "0 \<notin> set b \<Longrightarrow> cstr b = b"
  by (auto simp: cstr_def takeWhile_eq_all_conv)

lemma cstr_append_zero: "0 \<notin> set s \<Longrightarrow> cstr (s @ 0 # t) = s"
  unfolding cstr_def by (subst takeWhile_append2) auto

lemma terminatedE:
  assumes "terminated b"
  obtains t where "b = cstr b @ 0 # t"
proof -
  from assms obtain ys zs where b: "b = ys @ 0 # zs" "0 \<notin> set ys"
    unfolding terminated_def by (meson split_list_first)
  then have "cstr b = ys" by (simp add: cstr_append_zero)
  with b(1) show thesis by (intro that) simp
qed

lemma cstr_length_less:
  assumes "terminated b"
  shows "length (cstr b) < length b"
proof -
  from assms obtain t where "b = cstr b @ 0 # t" by (rule terminatedE)
  then have "length b = length (cstr b) + Suc (length t)"
    by (metis length_append length_Cons)
  then show ?thesis by simp
qed

lemma take_cstr: "take (length (cstr b)) b = cstr b"
  unfolding cstr_def by (rule takeWhile_eq_take [symmetric])

lemma mem_put_length [buf_simps]: "mem_put d i s = Some d' \<Longrightarrow> length d' = length d"
  by (auto simp: mem_put_def split: if_splits)

lemma mem_put_Some_iff: "(\<exists>d'. mem_put d i s = Some d') \<longleftrightarrow> i + length s \<le> length d"
  by (simp add: mem_put_def)

lemma strcpy_length [buf_simps]: "strcpy d s = Some d' \<Longrightarrow> length d' = length d"
  by (auto simp: strcpy_def intro: mem_put_length)

lemma strcat_length [buf_simps]: "strcat d s = Some d' \<Longrightarrow> length d' = length d"
  by (auto simp: strcat_def elim!: bind_SomeE intro: mem_put_length)

lemma strcpy_eq:
  "strcpy d s = (if length s < length d then Some (s @ 0 # drop (Suc (length s)) d) else None)"
  by (auto simp: strcpy_def mem_put_def)

lemma strcat_eq:
  "strcat d s =
     (if terminated d \<and> length (cstr d) + length s < length d
      then Some (cstr d @ s @ 0 # drop (Suc (length (cstr d) + length s)) d) else None)"
  by (auto simp: strcat_def strlen_def mem_put_def take_cstr)

lemma strcpy_SomeD:
  assumes "strcpy d s = Some d'" "0 \<notin> set s"
  shows "cstr d' = s \<and> terminated d' \<and> length d' = length d"
  using assms by (auto simp: strcpy_eq cstr_append_zero terminated_def split: if_splits)

lemma strcat_SomeD:
  assumes "strcat d s = Some d'" "0 \<notin> set s"
  shows "cstr d' = cstr d @ s \<and> terminated d' \<and> length d' = length d"
proof -
  from assms have d': "d' = (cstr d @ s) @ 0 # drop (Suc (length (cstr d) + length s)) d"
    and l: "length (cstr d) + length s < length d"
    by (auto simp: strcat_eq split: if_splits)
  have "cstr d' = cstr d @ s"
    unfolding d' by (rule cstr_append_zero) (use assms(2) in simp)
  then show ?thesis using d' l by (auto simp: terminated_def)
qed

lemma strcat_Some:
  assumes "terminated d" "length (cstr d) + length s < length d" "0 \<notin> set s"
  obtains d' where "strcat d s = Some d'" "cstr d' = cstr d @ s" "terminated d'"
    "length d' = length d"
  using assms strcat_SomeD by (metis (no_types, lifting) strcat_eq)

lemma strcat_None_iff:
  "strcat d s = None \<longleftrightarrow> \<not> terminated d \<or> length d \<le> length (cstr d) + length s"
  by (auto simp: strcat_eq)

section \<open>Little-endian integers\<close>

definition le16 :: "u16 \<Rightarrow> bytes" where
  "le16 w = [ucast w, ucast (drop_bit 8 w)]"

definition le32 :: "u32 \<Rightarrow> bytes" where
  "le32 w = [ucast w, ucast (drop_bit 8 w), ucast (drop_bit 16 w), ucast (drop_bit 24 w)]"

definition le64 :: "u64 \<Rightarrow> bytes" where
  "le64 w = le32 (ucast w) @ le32 (ucast (drop_bit 32 w))"

fun of_le16 :: "bytes \<Rightarrow> u16 option" where
  "of_le16 [a, b] = Some (ucast a OR push_bit 8 (ucast b))"
| "of_le16 _ = None"

fun of_le32 :: "bytes \<Rightarrow> u32 option" where
  "of_le32 [a, b, c, d] =
     Some (ucast a OR push_bit 8 (ucast b) OR push_bit 16 (ucast c) OR push_bit 24 (ucast d))"
| "of_le32 _ = None"

definition of_le64 :: "bytes \<Rightarrow> u64 option" where
  "of_le64 b = do { lo \<leftarrow> of_le32 (take 4 b); hi \<leftarrow> of_le32 (drop 4 b);
     Some (ucast lo OR push_bit 32 (ucast hi)) }"

lemma length_le [simp]: "length (le16 v) = 2" "length (le32 w) = 4" "length (le64 x) = 8"
  by (simp_all add: le16_def le32_def le64_def)

lemma of_le16_le16 [simp, le_simps]: "of_le16 (le16 w) = Some w"
proof -
  have "ucast (ucast w :: u8) OR push_bit 8 (ucast (ucast (drop_bit 8 w) :: u8)) = w"
  proof (rule bit_word_eqI)
    fix n assume "n < LENGTH(16)"
    then consider "n < 8" | "8 \<le> n \<and> n < 16" by force
    then show "bit (ucast (ucast w :: u8) OR push_bit 8 (ucast (ucast (drop_bit 8 w) :: u8)) :: u16) n
        = bit w n"
      by cases (auto simp: bit_simps)
  qed
  then show ?thesis by (simp add: le16_def)
qed

lemma word32_bytes:
  "ucast (ucast w :: u8) OR push_bit 8 (ucast (ucast (drop_bit 8 w) :: u8)) OR
   push_bit 16 (ucast (ucast (drop_bit 16 w) :: u8)) OR
   push_bit 24 (ucast (ucast (drop_bit 24 w) :: u8)) = (w :: u32)"
  (is "?l = w")
proof (rule bit_word_eqI)
  fix n assume "n < LENGTH(32)"
  then consider "n < 8" | "8 \<le> n \<and> n < 16" | "16 \<le> n \<and> n < 24" | "24 \<le> n \<and> n < 32" by force
  then show "bit ?l n = bit w n"
    by cases (auto simp: bit_simps)
qed

lemma of_le32_le32 [simp, le_simps]: "of_le32 (le32 w) = Some w"
  by (simp add: le32_def word32_bytes)

lemma byte_of_u32:
  fixes a b c d :: u8
  defines "w \<equiv> (ucast a OR push_bit 8 (ucast b) OR push_bit 16 (ucast c) OR push_bit 24 (ucast d)) :: u32"
  shows "ucast w = a" "ucast (drop_bit 8 w) = b" "ucast (drop_bit 16 w) = c" "ucast (drop_bit 24 w) = d"
proof -
  have *: "bit x n \<Longrightarrow> n < 8" for x :: u8 and n
    using bit_imp_le_length by force
  show "ucast w = a"
    by (rule bit_word_eqI) (auto simp: w_def bit_simps)
  show "ucast (drop_bit 8 w) = b"
    by (rule bit_word_eqI) (auto simp: w_def bit_simps dest: *)
  show "ucast (drop_bit 16 w) = c"
    by (rule bit_word_eqI) (auto simp: w_def bit_simps dest: *)
  show "ucast (drop_bit 24 w) = d"
    by (rule bit_word_eqI) (auto simp: w_def bit_simps dest: *)
qed

lemma le32_of_le32: "of_le32 b = Some w \<Longrightarrow> le32 w = b"
  by (cases b rule: of_le32.cases) (auto simp: le32_def byte_of_u32 simp del: drop_bit_or)

lemma of_le64_le64 [simp, le_simps]: "of_le64 (le64 w) = Some w"
proof -
  have "ucast (ucast w :: u32) OR push_bit 32 (ucast (ucast (drop_bit 32 w) :: u32)) = w"
    (is "?l = w")
  proof (rule bit_word_eqI)
    fix n assume "n < LENGTH(64)"
    then consider "n < 32" | "32 \<le> n \<and> n < 64" by force
    then show "bit ?l n = bit w n"
      by cases (auto simp: bit_simps)
  qed
  then show ?thesis by (simp add: of_le64_def le64_def)
qed

section \<open>Calls that may wait\<close>

text \<open>The outcome of a piece of code that can wait for the environment for ever.\<close>

datatype 'a outcome = Done 'a | Blocked

end
