(* ===== verification/Crc.thy ===== *)
theory Crc
  imports Prelude
begin

text \<open>
  crc/crc_ccitt.c: the table-driven CRC-16/CCITT of a byte buffer. The model keeps the table of
  the source entry by entry and the loop over the buffer; reading past the buffer is None. The
  reference is the bit-serial division by the polynomial 0x1021, one shift per message bit, and
  the lemmas show that the table routine computes it, that the routine detects every error
  confined to two adjacent bytes, and that a message followed by its own checksum always gives
  the same residue.
\<close>

section \<open>The code\<close>

definition CRC16_INIT_VALUE :: u16 where
  "CRC16_INIT_VALUE = 0xFFFF"

definition ccitt_table :: "u16 list" where
  "ccitt_table = [
   0x0000, 0x1021, 0x2042, 0x3063, 0x4084, 0x50A5, 0x60C6, 0x70E7,
   0x8108, 0x9129, 0xA14A, 0xB16B, 0xC18C, 0xD1AD, 0xE1CE, 0xF1EF,
   0x1231, 0x0210, 0x3273, 0x2252, 0x52B5, 0x4294, 0x72F7, 0x62D6,
   0x9339, 0x8318, 0xB37B, 0xA35A, 0xD3BD, 0xC39C, 0xF3FF, 0xE3DE,
   0x2462, 0x3443, 0x0420, 0x1401, 0x64E6, 0x74C7, 0x44A4, 0x5485,
   0xA56A, 0xB54B, 0x8528, 0x9509, 0xE5EE, 0xF5CF, 0xC5AC, 0xD58D,
   0x3653, 0x2672, 0x1611, 0x0630, 0x76D7, 0x66F6, 0x5695, 0x46B4,
   0xB75B, 0xA77A, 0x9719, 0x8738, 0xF7DF, 0xE7FE, 0xD79D, 0xC7BC,
   0x48C4, 0x58E5, 0x6886, 0x78A7, 0x0840, 0x1861, 0x2802, 0x3823,
   0xC9CC, 0xD9ED, 0xE98E, 0xF9AF, 0x8948, 0x9969, 0xA90A, 0xB92B,
   0x5AF5, 0x4AD4, 0x7AB7, 0x6A96, 0x1A71, 0x0A50, 0x3A33, 0x2A12,
   0xDBFD, 0xCBDC, 0xFBBF, 0xEB9E, 0x9B79, 0x8B58, 0xBB3B, 0xAB1A,
   0x6CA6, 0x7C87, 0x4CE4, 0x5CC5, 0x2C22, 0x3C03, 0x0C60, 0x1C41,
   0xEDAE, 0xFD8F, 0xCDEC, 0xDDCD, 0xAD2A, 0xBD0B, 0x8D68, 0x9D49,
   0x7E97, 0x6EB6, 0x5ED5, 0x4EF4, 0x3E13, 0x2E32, 0x1E51, 0x0E70,
   0xFF9F, 0xEFBE, 0xDFDD, 0xCFFC, 0xBF1B, 0xAF3A, 0x9F59, 0x8F78,
   0x9188, 0x81A9, 0xB1CA, 0xA1EB, 0xD10C, 0xC12D, 0xF14E, 0xE16F,
   0x1080, 0x00A1, 0x30C2, 0x20E3, 0x5004, 0x4025, 0x7046, 0x6067,
   0x83B9, 0x9398, 0xA3FB, 0xB3DA, 0xC33D, 0xD31C, 0xE37F, 0xF35E,
   0x02B1, 0x1290, 0x22F3, 0x32D2, 0x4235, 0x5214, 0x6277, 0x7256,
   0xB5EA, 0xA5CB, 0x95A8, 0x8589, 0xF56E, 0xE54F, 0xD52C, 0xC50D,
   0x34E2, 0x24C3, 0x14A0, 0x0481, 0x7466, 0x6447, 0x5424, 0x4405,
   0xA7DB, 0xB7FA, 0x8799, 0x97B8, 0xE75F, 0xF77E, 0xC71D, 0xD73C,
   0x26D3, 0x36F2, 0x0691, 0x16B0, 0x6657, 0x7676, 0x4615, 0x5634,
   0xD94C, 0xC96D, 0xF90E, 0xE92F, 0x99C8, 0x89E9, 0xB98A, 0xA9AB,
   0x5844, 0x4865, 0x7806, 0x6827, 0x18C0, 0x08E1, 0x3882, 0x28A3,
   0xCB7D, 0xDB5C, 0xEB3F, 0xFB1E, 0x8BF9, 0x9BD8, 0xABBB, 0xBB9A,
   0x4A75, 0x5A54, 0x6A37, 0x7A16, 0x0AF1, 0x1AD0, 0x2AB3, 0x3A92,
   0xFD2E, 0xED0F, 0xDD6C, 0xCD4D, 0xBDAA, 0xAD8B, 0x9DE8, 0x8DC9,
   0x7C26, 0x6C07, 0x5C64, 0x4C45, 0x3CA2, 0x2C83, 0x1CE0, 0x0CC1,
   0xEF1F, 0xFF3E, 0xCF5D, 0xDF7C, 0xAF9B, 0xBFBA, 0x8FD9, 0x9FF8,
   0x6E17, 0x7E36, 0x4E55, 0x5E74, 0x2E93, 0x3EB2, 0x0ED1, 0x1EF0]"

text \<open>One round of the loop body: crc = ccitt_table[(crc >> 8 ^ *input) & 0xff] ^ (crc << 8).\<close>

definition crc_step :: "u16 \<Rightarrow> u8 \<Rightarrow> u16" where
  "crc_step crc b =
     ccitt_table ! unat ((drop_bit 8 crc XOR ucast b) AND 0xff) XOR push_bit 8 crc"

fun crc_loop :: "bytes \<Rightarrow> nat \<Rightarrow> u16 \<Rightarrow> u16 option" where
  "crc_loop input 0 crc = Some crc"
| "crc_loop [] (Suc len) crc = None"
| "crc_loop (b # input) (Suc len) crc = crc_loop input len (crc_step crc b)"

text \<open>The length is a signed int, and \<open>while (len-- > 0)\<close> runs no round for a negative one.\<close>

definition crc_ccitt :: "bytes \<Rightarrow> int \<Rightarrow> u16 option" where
  "crc_ccitt input len = map_option (\<lambda>crc. NOT crc) (crc_loop input (nat len) CRC16_INIT_VALUE)"

section \<open>The reference: one bit at a time\<close>

definition crc_bit :: "u16 \<Rightarrow> u16" where
  "crc_bit c = (if bit c 15 then push_bit 1 c XOR 0x1021 else push_bit 1 c)"

definition crc_byte :: "u16 \<Rightarrow> u8 \<Rightarrow> u16" where
  "crc_byte c b = (crc_bit ^^ 8) (c XOR push_bit 8 (ucast b))"

definition crc_ref :: "bytes \<Rightarrow> u16" where
  "crc_ref msg = NOT (foldl crc_byte 0xFFFF msg)"

lemma crc_bit_linear: "crc_bit (x XOR y) = crc_bit x XOR crc_bit y"
  by (auto simp: crc_bit_def bit_xor_iff push_bit_xor ac_simps intro!: bit_word_eqI)

lemma crc_bits_linear: "(crc_bit ^^ n) (x XOR y) = (crc_bit ^^ n) x XOR (crc_bit ^^ n) y"
  by (induction n) (simp_all add: crc_bit_linear)

lemma crc_bit_eq_0: "crc_bit c = 0 \<longleftrightarrow> c = 0"
proof
  assume z: "crc_bit c = 0"
  show "c = 0"
  proof (cases "bit c 15")
    case True
    have "bit (push_bit 1 c XOR 0x1021) 0"
      unfolding bit_xor_iff bit_push_bit_iff by simp
    with True have "bit (crc_bit c) 0" by (simp only: crc_bit_def if_True)
    with z show ?thesis by simp
  next
    case False
    show ?thesis
    proof (rule bit_word_eqI)
      fix n assume n: "n < LENGTH(16)"
      show "bit c n = bit (0 :: u16) n"
      proof (cases "n = 15")
        case True
        with False show ?thesis by simp
      next
        case n15: False
        with n have "bit (push_bit 1 c) (Suc n) = bit c n"
          by (simp only: bit_push_bit_iff) auto
        moreover have "push_bit 1 c = 0"
          using z False by (simp only: crc_bit_def if_False)
        ultimately show ?thesis by simp
      qed
    qed
  qed
qed (simp add: crc_bit_def)

lemma crc_bits_eq_0: "(crc_bit ^^ n) c = 0 \<longleftrightarrow> c = 0"
  by (induction n) (simp_all add: crc_bit_eq_0)

lemma xor_eq_0_word: "x XOR y = 0 \<longleftrightarrow> x = (y :: 'a :: len word)"
  by (metis xor.left_neutral xor.right_neutral xor_self_eq xor.assoc)

lemma xor_right_cancel: "x XOR z = y XOR z \<longleftrightarrow> x = (y :: 'a :: len word)"
  by (metis xor.assoc xor.right_neutral xor_self_eq)

lemma xor_left_cancel: "z XOR x = z XOR y \<longleftrightarrow> x = (y :: 'a :: len word)"
  using xor_right_cancel [of x z y] by (simp add: xor.commute)

lemma crc_bits_inj: "(crc_bit ^^ n) x = (crc_bit ^^ n) y \<longleftrightarrow> x = y"
  by (metis crc_bits_eq_0 crc_bits_linear xor_eq_0_word)

text \<open>A word with no bit among the top n shifts out nothing in n rounds.\<close>

lemma crc_bits_low:
  assumes "\<And>k. bit c k \<Longrightarrow> k + n < 16"
  shows "(crc_bit ^^ n) c = push_bit n c"
  using assms
proof (induction n)
  case (Suc n)
  then have IH: "(crc_bit ^^ n) c = push_bit n c" by fastforce
  have "\<not> bit (push_bit n c) 15"
    using Suc.prems[of "15 - n"] by (auto simp: bit_push_bit_iff)
  then have "crc_bit (push_bit n c) = push_bit (Suc n) c"
    by (simp add: crc_bit_def)
  then show ?case by (simp add: IH)
qed simp

lemma crc_bits_low_byte: "(crc_bit ^^ 8) (ucast (b :: u8)) = push_bit 8 (ucast b)"
proof (rule crc_bits_low)
  fix k assume "bit (ucast b :: u16) k"
  then have "k < 8" by (auto simp: bit_simps dest: bit_imp_le_length)
  then show "k + 8 < 16" by simp
qed

lemma crc_bits_16: "(crc_bit ^^ 16) x = (crc_bit ^^ 8) ((crc_bit ^^ 8) x)"
  using funpow_add[of 8 8 crc_bit] by simp

lemma crc_byte_byte:
  "crc_byte (crc_byte c a) b = (crc_bit ^^ 16) (c XOR push_bit 8 (ucast a) XOR ucast b)"
  by (simp add: crc_bits_16 crc_byte_def crc_bits_linear crc_bits_low_byte xor.assoc)

section \<open>The table routine computes the reference\<close>

lemma crc_bits_8:
  "(crc_bit ^^ 8) c = crc_bit (crc_bit (crc_bit (crc_bit (crc_bit (crc_bit (crc_bit (crc_bit c)))))))"
  by (simp add: eval_nat_numeral)

lemma crc_bit_numeral:
  "crc_bit (numeral n) = (if bit (numeral n :: u16) 15 then push_bit 1 (numeral n) XOR 0x1021
     else push_bit 1 (numeral n))"
  "crc_bit 1 = 2" "crc_bit 0 = 0"
  by (simp_all add: crc_bit_def)

lemma ccitt_table_eq:
  "ccitt_table = map (\<lambda>i. (crc_bit ^^ 8) (push_bit 8 (of_nat i))) [0..<256]"
  by (simp add: upt_rec ccitt_table_def crc_bits_8 crc_bit_numeral)

lemma ccitt_table_nth:
  "i < 256 \<Longrightarrow> ccitt_table ! i = (crc_bit ^^ 8) (push_bit 8 (of_nat i))"
  by (simp add: ccitt_table_eq)

lemma u16_and_ff: "(c :: u16) AND 0xff = take_bit 8 c"
  by (simp add: take_bit_eq_mask mask_eq_exp_minus_1)

lemma u16_split: "(c :: u16) = push_bit 8 (drop_bit 8 c) XOR (c AND 0xff)"
proof (rule bit_word_eqI)
  fix n assume "n < LENGTH(16)"
  then consider "n < 8" | "8 \<le> n \<and> n < 16" by force
  then show "bit c n = bit (push_bit 8 (drop_bit 8 c) XOR (c AND 0xff)) n"
    by cases (auto simp: u16_and_ff bit_simps)
qed

lemma crc_step_eq_byte: "crc_step crc b = crc_byte crc b"
proof -
  let ?hi = "drop_bit 8 crc :: u16" and ?lo = "crc AND 0xff"
  let ?i = "(?hi XOR ucast b) AND 0xff"
  have i: "?i = ?hi XOR ucast b"
    by (rule bit_word_eqI) (auto simp: u16_and_ff bit_simps dest: bit_imp_le_length)
  have "unat ?i < 256"
  proof -
    have "?i \<le> 0xff" by (rule word_and_le1)
    then show ?thesis by (simp add: word_le_nat_alt)
  qed
  then have tab: "ccitt_table ! unat ?i = (crc_bit ^^ 8) (push_bit 8 (?hi XOR ucast b))"
    by (simp add: ccitt_table_nth i)
  have lo: "(crc_bit ^^ 8) ?lo = push_bit 8 ?lo"
    by (rule crc_bits_low) (auto simp: u16_and_ff bit_simps)
  have sh: "push_bit 8 crc = push_bit 8 ?lo"
    by (rule bit_word_eqI) (auto simp: u16_and_ff bit_simps)
  have "crc XOR push_bit 8 (ucast b) = push_bit 8 (?hi XOR ucast b) XOR ?lo"
  proof -
    have "crc XOR push_bit 8 (ucast b) = (push_bit 8 ?hi XOR ?lo) XOR push_bit 8 (ucast b)"
      using u16_split [of crc] by (rule arg_cong [where f = "\<lambda>x. x XOR push_bit 8 (ucast b)"])
    then show ?thesis by (simp only: push_bit_xor xor.assoc xor.commute xor.left_commute)
  qed
  then have "crc_byte crc b = (crc_bit ^^ 8) (push_bit 8 (?hi XOR ucast b)) XOR push_bit 8 crc"
    by (simp only: crc_byte_def crc_bits_linear lo sh)
  then show ?thesis by (simp add: crc_step_def tab)
qed

lemma crc_loop_eq:
  "crc_loop input len crc =
     (if len \<le> length input then Some (foldl crc_byte crc (take len input)) else None)"
  by (induction input len crc rule: crc_loop.induct) (auto simp: crc_step_eq_byte)

text \<open>
  C12. For a buffer of at least len bytes the table-driven routine returns the bit-serial
  CRC-16/CCITT (polynomial 0x1021, initial value and final complement 0xFFFF) of its first len
  bytes; with a longer length it reads outside the buffer.
\<close>

theorem crc_ccitt_refines_bitwise:
  "crc_ccitt input len =
     (if nat len \<le> length input then Some (crc_ref (take (nat len) input)) else None)"
  by (simp add: crc_ccitt_def crc_loop_eq crc_ref_def CRC16_INIT_VALUE_def)

lemma crc_byte_inj: "crc_byte c b = crc_byte c' b \<longleftrightarrow> c = c'"
  by (simp add: crc_byte_def crc_bits_inj xor_right_cancel)

lemma crc_foldl_inj: "foldl crc_byte c ys = foldl crc_byte c' ys \<longleftrightarrow> c = c'"
  by (induction ys arbitrary: c c') (simp_all add: crc_byte_inj)

lemma two_bytes_inj:
  fixes a b a' b' :: u8
  assumes "push_bit 8 (ucast a) XOR ucast b = (push_bit 8 (ucast a') XOR ucast b' :: u16)"
  shows "a = a' \<and> b = b'"
proof -
  have *: "bit (push_bit 8 (ucast x) XOR ucast y :: u16) n =
      (if n < 8 then bit y n else n < 16 \<and> bit x (n - 8))" for x y :: u8 and n
    by (auto simp: bit_simps dest: bit_imp_le_length)
  have "bit b n = bit b' n" if "n < 8" for n
    using arg_cong[OF assms, of "\<lambda>w. bit w n"] that unfolding * by simp
  moreover have "bit a n = bit a' n" if "n < 8" for n
    using arg_cong[OF assms, of "\<lambda>w. bit w (n + 8)"] that unfolding * by simp
  ultimately show ?thesis by (auto intro!: bit_word_eqI)
qed

lemma crc_two_bytes_inj:
  "crc_byte (crc_byte c a) b = crc_byte (crc_byte c a') b' \<longleftrightarrow> a = a' \<and> b = b'"
  (is "?l \<longleftrightarrow> ?r")
proof
  assume ?l
  then have "c XOR push_bit 8 (ucast a) XOR ucast b = c XOR push_bit 8 (ucast a') XOR ucast b'"
    by (simp add: crc_byte_byte crc_bits_inj)
  then have "push_bit 8 (ucast a) XOR ucast b = (push_bit 8 (ucast a') XOR ucast b' :: u16)"
    by (simp only: xor.assoc xor_left_cancel)
  then show ?r by (rule two_bytes_inj)
qed simp

text \<open>
  C33. Any corruption confined to two adjacent bytes changes the checksum: two messages that
  agree outside one pair of adjacent bytes have the same checksum only if they are equal. Every
  single-bit error and every burst error inside 16 aligned bits is of this kind.
\<close>

theorem crc_ccitt_detects_two_adjacent_bytes:
  "crc_ccitt (pre @ [a, b] @ post) (int (length pre + 2 + length post)) =
   crc_ccitt (pre @ [a', b'] @ post) (int (length pre + 2 + length post)) \<longleftrightarrow>
     a = a' \<and> b = b'"
proof -
  have n: "nat (int (length pre + 2 + length post)) = length pre + 2 + length post"
    by (rule nat_int)
  show ?thesis
    unfolding crc_ccitt_def n
    by (simp add: crc_loop_eq crc_foldl_inj crc_two_bytes_inj)
qed

text \<open>
  Receiver check: the checksum of a message followed by its own checksum, high byte first,
  is the constant 0xE2F0 whatever the message is.
\<close>

theorem crc_ccitt_residue:
  "crc_ccitt msg (int (length msg)) = Some crc \<Longrightarrow>
   crc_ccitt (msg @ [ucast (drop_bit 8 crc), ucast crc]) (int (length msg) + 2) = Some 0xE2F0"
proof -
  assume "crc_ccitt msg (int (length msg)) = Some crc"
  then have c: "foldl crc_byte CRC16_INIT_VALUE msg = NOT crc"
    by (auto simp: crc_ccitt_def crc_loop_eq)
  have n: "nat (int (length msg) + 2) = length msg + 2" by simp
  have w: "push_bit 8 (ucast (ucast (drop_bit 8 crc) :: u8)) XOR ucast (ucast crc :: u8) = (crc :: u16)"
  proof (rule bit_word_eqI)
    fix k assume "k < LENGTH(16)"
    then consider "k < 8" | "8 \<le> k \<and> k < 16" by force
    then show "bit (push_bit 8 (ucast (ucast (drop_bit 8 crc) :: u8)) XOR
        ucast (ucast crc :: u8) :: u16) k = bit crc k"
      by cases (auto simp: bit_simps)
  qed
  have all: "NOT crc XOR crc = 0xFFFF"
  proof -
    have "NOT crc XOR crc = - 1" by (rule bit_word_eqI) (simp add: bit_xor_iff bit_not_iff)
    then show ?thesis by simp
  qed
  have "(crc_bit ^^ 16) 0xFFFF = 0x1D0F" by (simp add: crc_bits_16 crc_bits_8 crc_bit_numeral)
  then have "crc_byte (crc_byte (NOT crc) (ucast (drop_bit 8 crc))) (ucast crc) = 0x1D0F"
    by (simp only: crc_byte_byte xor.assoc w all)
  then show ?thesis by (simp add: crc_ccitt_def crc_loop_eq n c)
qed

text \<open>The buffer of the source's main routine, and its checksum.\<close>

theorem crc_ccitt_residue_witness:
  "crc_ccitt [0x7a, 0x5a, 0xa5, 0x10] 4 = Some 0x3854 \<and>
   crc_ccitt [0x7a, 0x5a, 0xa5, 0x10, 0x38, 0x54] 6 = Some 0xE2F0"
proof -
  have h: "crc_ccitt [0x7a, 0x5a, 0xa5, 0x10] (int (length [0x7a, 0x5a, 0xa5, 0x10 :: u8])) =
      Some 0x3854"
    by code_simp
  have lo: "ucast (0x3854 :: u16) = (0x54 :: u8)" by code_simp
  have hi: "ucast (drop_bit 8 (0x3854 :: u16)) = (0x38 :: u8)" by code_simp
  show ?thesis using h crc_ccitt_residue [OF h, unfolded lo hi] by simp
qed

end
