(* ===== verification/MD5.thy ===== *)
theory MD5
  imports Prelude
begin

text \<open>
  md5/md5.c and md5/md5.h: the MD5 message digest with its streaming interface (MD5Init,
  MD5Update, MD5Final), and MD5_file of md5/main.c, which feeds a file to it in reads of at most
  4096 bytes.
\<close>

section \<open>The context and the macros of md5.h\<close>

text \<open>The words a, b, c and d a block transformation works on; state[0..3] of the context.\<close>

record regs =
  reg_a :: u32
  reg_b :: u32
  reg_c :: u32
  reg_d :: u32

record MD5_CTX =
  count0 :: u32
  count1 :: u32
  state :: regs
  buffer :: bytes

definition F :: "u32 \<Rightarrow> u32 \<Rightarrow> u32 \<Rightarrow> u32" where
  "F x y z = (x AND y) OR (NOT x AND z)"

definition G :: "u32 \<Rightarrow> u32 \<Rightarrow> u32 \<Rightarrow> u32" where
  "G x y z = (x AND z) OR (y AND NOT z)"

definition H :: "u32 \<Rightarrow> u32 \<Rightarrow> u32 \<Rightarrow> u32" where
  "H x y z = x XOR y XOR z"

definition I :: "u32 \<Rightarrow> u32 \<Rightarrow> u32 \<Rightarrow> u32" where
  "I x y z = y XOR (x OR NOT z)"

definition ROTATE_LEFT :: "u32 \<Rightarrow> nat \<Rightarrow> u32" where
  "ROTATE_LEFT x n = push_bit n x OR drop_bit (32 - n) x"

text \<open>
  FF, GG, HH and II assign to their first argument, which is one of the variables a, b, c, d of
  MD5Transform. The model passes the names of the variables.
\<close>

datatype reg = RA | RB | RC | RD

fun rd :: "reg \<Rightarrow> regs \<Rightarrow> u32" where
  "rd RA r = reg_a r"
| "rd RB r = reg_b r"
| "rd RC r = reg_c r"
| "rd RD r = reg_d r"

fun wr :: "reg \<Rightarrow> u32 \<Rightarrow> regs \<Rightarrow> regs" where
  "wr RA v r = r\<lparr>reg_a := v\<rparr>"
| "wr RB v r = r\<lparr>reg_b := v\<rparr>"
| "wr RC v r = r\<lparr>reg_c := v\<rparr>"
| "wr RD v r = r\<lparr>reg_d := v\<rparr>"

definition FF :: "reg \<Rightarrow> reg \<Rightarrow> reg \<Rightarrow> reg \<Rightarrow> u32 \<Rightarrow> nat \<Rightarrow> u32 \<Rightarrow> regs \<Rightarrow> regs" where
  "FF a b c d x s ac r =
     wr a (ROTATE_LEFT (rd a r + (F (rd b r) (rd c r) (rd d r) + x + ac)) s + rd b r) r"

definition GG :: "reg \<Rightarrow> reg \<Rightarrow> reg \<Rightarrow> reg \<Rightarrow> u32 \<Rightarrow> nat \<Rightarrow> u32 \<Rightarrow> regs \<Rightarrow> regs" where
  "GG a b c d x s ac r =
     wr a (ROTATE_LEFT (rd a r + (G (rd b r) (rd c r) (rd d r) + x + ac)) s + rd b r) r"

definition HH :: "reg \<Rightarrow> reg \<Rightarrow> reg \<Rightarrow> reg \<Rightarrow> u32 \<Rightarrow> nat \<Rightarrow> u32 \<Rightarrow> regs \<Rightarrow> regs" where
  "HH a b c d x s ac r =
     wr a (ROTATE_LEFT (rd a r + (H (rd b r) (rd c r) (rd d r) + x + ac)) s + rd b r) r"

definition II :: "reg \<Rightarrow> reg \<Rightarrow> reg \<Rightarrow> reg \<Rightarrow> u32 \<Rightarrow> nat \<Rightarrow> u32 \<Rightarrow> regs \<Rightarrow> regs" where
  "II a b c d x s ac r =
     wr a (ROTATE_LEFT (rd a r + (I (rd b r) (rd c r) (rd d r) + x + ac)) s + rd b r) r"

section \<open>md5.c\<close>

definition PADDING :: bytes where
  "PADDING = 0x80 # replicate 63 0"

definition MD5Init :: "MD5_CTX \<Rightarrow> MD5_CTX" where
  "MD5Init ctx = ctx\<lparr>count0 := 0, count1 := 0,
     state := \<lparr>reg_a = 0x67452301, reg_b = 0xEFCDAB89, reg_c = 0x98BADCFE, reg_d = 0x10325476\<rparr>\<rparr>"

text \<open>
  MD5Encode and MD5Decode run \<open>while (j < len)\<close> in steps of four bytes; the model recurses on
  what is left of len and returns what is stored. Both orders of bytes are little-endian. None is
  a read past the input.
\<close>

fun MD5Encode :: "u32 list \<Rightarrow> nat \<Rightarrow> bytes option" where
  "MD5Encode input 0 = Some []"
| "MD5Encode (w # input) (Suc n) = map_option
     (\<lambda>out. [ucast (w AND 0xFF), ucast (drop_bit 8 w AND 0xFF),
       ucast (drop_bit 16 w AND 0xFF), ucast (drop_bit 24 w AND 0xFF)] @ out)
     (MD5Encode input (Suc n - 4))"
| "MD5Encode [] (Suc n) = None"

fun MD5Decode :: "bytes \<Rightarrow> nat \<Rightarrow> u32 list option" where
  "MD5Decode input 0 = Some []"
| "MD5Decode (b0 # b1 # b2 # b3 # input) (Suc n) = map_option
     (\<lambda>out. (ucast b0 OR push_bit 8 (ucast b1) OR push_bit 16 (ucast b2) OR
       push_bit 24 (ucast b3)) # out)
     (MD5Decode input (Suc n - 4))"
| "MD5Decode _ (Suc n) = None"

text \<open>The 64 macro calls of MD5Transform, in the four rounds of the source.\<close>

definition md5_round1 :: "u32 list \<Rightarrow> (regs \<Rightarrow> regs) list" where
  "md5_round1 x = [
    FF RA RB RC RD (x ! 0) 7 0xd76aa478,
    FF RD RA RB RC (x ! 1) 12 0xe8c7b756,
    FF RC RD RA RB (x ! 2) 17 0x242070db,
    FF RB RC RD RA (x ! 3) 22 0xc1bdceee,
    FF RA RB RC RD (x ! 4) 7 0xf57c0faf,
    FF RD RA RB RC (x ! 5) 12 0x4787c62a,
    FF RC RD RA RB (x ! 6) 17 0xa8304613,
    FF RB RC RD RA (x ! 7) 22 0xfd469501,
    FF RA RB RC RD (x ! 8) 7 0x698098d8,
    FF RD RA RB RC (x ! 9) 12 0x8b44f7af,
    FF RC RD RA RB (x ! 10) 17 0xffff5bb1,
    FF RB RC RD RA (x ! 11) 22 0x895cd7be,
    FF RA RB RC RD (x ! 12) 7 0x6b901122,
    FF RD RA RB RC (x ! 13) 12 0xfd987193,
    FF RC RD RA RB (x ! 14) 17 0xa679438e,
    FF RB RC RD RA (x ! 15) 22 0x49b40821]"

definition md5_round2 :: "u32 list \<Rightarrow> (regs \<Rightarrow> regs) list" where
  "md5_round2 x = [
    GG RA RB RC RD (x ! 1) 5 0xf61e2562,
    GG RD RA RB RC (x ! 6) 9 0xc040b340,
    GG RC RD RA RB (x ! 11) 14 0x265e5a51,
    GG RB RC RD RA (x ! 0) 20 0xe9b6c7aa,
    GG RA RB RC RD (x ! 5) 5 0xd62f105d,
    GG RD RA RB RC (x ! 10) 9 0x2441453,
    GG RC RD RA RB (x ! 15) 14 0xd8a1e681,
    GG RB RC RD RA (x ! 4) 20 0xe7d3fbc8,
    GG RA RB RC RD (x ! 9) 5 0x21e1cde6,
    GG RD RA RB RC (x ! 14) 9 0xc33707d6,
    GG RC RD RA RB (x ! 3) 14 0xf4d50d87,
    GG RB RC RD RA (x ! 8) 20 0x455a14ed,
    GG RA RB RC RD (x ! 13) 5 0xa9e3e905,
    GG RD RA RB RC (x ! 2) 9 0xfcefa3f8,
    GG RC RD RA RB (x ! 7) 14 0x676f02d9,
    GG RB RC RD RA (x ! 12) 20 0x8d2a4c8a]"

definition md5_round3 :: "u32 list \<Rightarrow> (regs \<Rightarrow> regs) list" where
  "md5_round3 x = [
    HH RA RB RC RD (x ! 5) 4 0xfffa3942,
    HH RD RA RB RC (x ! 8) 11 0x8771f681,
    HH RC RD RA RB (x ! 11) 16 0x6d9d6122,
    HH RB RC RD RA (x ! 14) 23 0xfde5380c,
    HH RA RB RC RD (x ! 1) 4 0xa4beea44,
    HH RD RA RB RC (x ! 4) 11 0x4bdecfa9,
    HH RC RD RA RB (x ! 7) 16 0xf6bb4b60,
    HH RB RC RD RA (x ! 10) 23 0xbebfbc70,
    HH RA RB RC RD (x ! 13) 4 0x289b7ec6,
    HH RD RA RB RC (x ! 0) 11 0xeaa127fa,
    HH RC RD RA RB (x ! 3) 16 0xd4ef3085,
    HH RB RC RD RA (x ! 6) 23 0x4881d05,
    HH RA RB RC RD (x ! 9) 4 0xd9d4d039,
    HH RD RA RB RC (x ! 12) 11 0xe6db99e5,
    HH RC RD RA RB (x ! 15) 16 0x1fa27cf8,
    HH RB RC RD RA (x ! 2) 23 0xc4ac5665]"

definition md5_round4 :: "u32 list \<Rightarrow> (regs \<Rightarrow> regs) list" where
  "md5_round4 x = [
    II RA RB RC RD (x ! 0) 6 0xf4292244,
    II RD RA RB RC (x ! 7) 10 0x432aff97,
    II RC RD RA RB (x ! 14) 15 0xab9423a7,
    II RB RC RD RA (x ! 5) 21 0xfc93a039,
    II RA RB RC RD (x ! 12) 6 0x655b59c3,
    II RD RA RB RC (x ! 3) 10 0x8f0ccc92,
    II RC RD RA RB (x ! 10) 15 0xffeff47d,
    II RB RC RD RA (x ! 1) 21 0x85845dd1,
    II RA RB RC RD (x ! 8) 6 0x6fa87e4f,
    II RD RA RB RC (x ! 15) 10 0xfe2ce6e0,
    II RC RD RA RB (x ! 6) 15 0xa3014314,
    II RB RC RD RA (x ! 13) 21 0x4e0811a1,
    II RA RB RC RD (x ! 4) 6 0xf7537e82,
    II RD RA RB RC (x ! 11) 10 0xbd3af235,
    II RC RD RA RB (x ! 2) 15 0x2ad7d2bb,
    II RB RC RD RA (x ! 9) 21 0xeb86d391]"

definition md5_ops :: "u32 list \<Rightarrow> (regs \<Rightarrow> regs) list" where
  "md5_ops x = md5_round1 x @ md5_round2 x @ md5_round3 x @ md5_round4 x"

definition MD5Transform :: "regs \<Rightarrow> bytes \<Rightarrow> regs option" where
  "MD5Transform st block = do {
     x \<leftarrow> MD5Decode block 64;
     let r = fold (\<lambda>op. op) (md5_ops x) st;
     Some \<lparr>reg_a = reg_a st + reg_a r, reg_b = reg_b st + reg_b r,
           reg_c = reg_c st + reg_c r, reg_d = reg_d st + reg_d r\<rparr>
   }"

text \<open>
  The loop \<open>for (i = partlen; i+64 <= inputlen; i+=64)\<close> of MD5Update on 32-bit unsigned
  integers, so that \<open>i+64\<close> wraps around; it returns the last i and the state. None is a read
  past the input or a loop that never ends.
\<close>

partial_function (option) md5_update_loop ::
  "bytes \<Rightarrow> u32 \<Rightarrow> u32 \<Rightarrow> regs \<Rightarrow> (u32 \<times> regs) option" where
  "md5_update_loop input inputlen i st =
     (if i + 64 \<le> inputlen
      then (case MD5Transform st (drop (unat i) input) of
              None \<Rightarrow> None
            | Some st' \<Rightarrow> md5_update_loop input inputlen (i + 64) st')
      else Some (i, st))"

definition MD5Update :: "MD5_CTX \<Rightarrow> bytes \<Rightarrow> u32 \<Rightarrow> MD5_CTX option" where
  "MD5Update ctx input inputlen = do {
     let index = drop_bit 3 (count0 ctx) AND 0x3F;
     let partlen = 64 - index;
     let c0 = count0 ctx + push_bit 3 inputlen;
     let c1 = (if c0 < push_bit 3 inputlen then count1 ctx + 1 else count1 ctx);
     let ctx = ctx\<lparr>count0 := c0, count1 := c1 + drop_bit 29 inputlen\<rparr>;
     (index, i, ctx) \<leftarrow>
       (if partlen \<le> inputlen
        then do {
          src \<leftarrow> mem_get input 0 (unat partlen);
          buf \<leftarrow> mem_put (buffer ctx) (unat index) src;
          st \<leftarrow> MD5Transform (state ctx) buf;
          (i, st) \<leftarrow> md5_update_loop input inputlen partlen st;
          Some (0, i, ctx\<lparr>buffer := buf, state := st\<rparr>)
        }
        else Some (index, 0, ctx));
     src \<leftarrow> mem_get input (unat i) (unat (inputlen - i));
     buf \<leftarrow> mem_put (buffer ctx) (unat index) src;
     Some (ctx\<lparr>buffer := buf\<rparr>)
   }"

definition state_words :: "regs \<Rightarrow> u32 list" where
  "state_words st = [reg_a st, reg_b st, reg_c st, reg_d st]"

text \<open>MD5Final: the context after padding and the 16 bytes of the digest.\<close>

definition MD5Final :: "MD5_CTX \<Rightarrow> (MD5_CTX \<times> bytes) option" where
  "MD5Final ctx = do {
     let index = drop_bit 3 (count0 ctx) AND 0x3F;
     let padlen = (if index < 56 then 56 - index else 120 - index);
     bits \<leftarrow> MD5Encode [count0 ctx, count1 ctx] 8;
     ctx \<leftarrow> MD5Update ctx PADDING padlen;
     ctx \<leftarrow> MD5Update ctx bits 8;
     digest \<leftarrow> MD5Encode (state_words (state ctx)) 16;
     Some (ctx, digest)
   }"

section \<open>The reference: RFC 1321 as a loop over 64 steps\<close>

definition md5_K :: "u32 list" where
  "md5_K = [
   0xd76aa478, 0xe8c7b756, 0x242070db, 0xc1bdceee, 0xf57c0faf, 0x4787c62a, 0xa8304613, 0xfd469501,
   0x698098d8, 0x8b44f7af, 0xffff5bb1, 0x895cd7be, 0x6b901122, 0xfd987193, 0xa679438e, 0x49b40821,
   0xf61e2562, 0xc040b340, 0x265e5a51, 0xe9b6c7aa, 0xd62f105d, 0x2441453, 0xd8a1e681, 0xe7d3fbc8,
   0x21e1cde6, 0xc33707d6, 0xf4d50d87, 0x455a14ed, 0xa9e3e905, 0xfcefa3f8, 0x676f02d9, 0x8d2a4c8a,
   0xfffa3942, 0x8771f681, 0x6d9d6122, 0xfde5380c, 0xa4beea44, 0x4bdecfa9, 0xf6bb4b60, 0xbebfbc70,
   0x289b7ec6, 0xeaa127fa, 0xd4ef3085, 0x4881d05, 0xd9d4d039, 0xe6db99e5, 0x1fa27cf8, 0xc4ac5665,
   0xf4292244, 0x432aff97, 0xab9423a7, 0xfc93a039, 0x655b59c3, 0x8f0ccc92, 0xffeff47d, 0x85845dd1,
   0x6fa87e4f, 0xfe2ce6e0, 0xa3014314, 0x4e0811a1, 0xf7537e82, 0xbd3af235, 0x2ad7d2bb, 0xeb86d391]"

definition md5_shift :: "nat \<Rightarrow> nat" where
  "md5_shift i =
     (if i < 16 then [7, 12, 17, 22] else if i < 32 then [5, 9, 14, 20]
      else if i < 48 then [4, 11, 16, 23] else [6, 10, 15, 21]) ! (i mod 4)"

definition md5_index :: "nat \<Rightarrow> nat" where
  "md5_index i =
     (if i < 16 then i else if i < 32 then (5 * i + 1) mod 16
      else if i < 48 then (3 * i + 5) mod 16 else (7 * i) mod 16)"

definition md5_fun :: "nat \<Rightarrow> u32 \<Rightarrow> u32 \<Rightarrow> u32 \<Rightarrow> u32" where
  "md5_fun i = (if i < 16 then F else if i < 32 then G else if i < 48 then H else I)"

definition rotl32 :: "nat \<Rightarrow> u32 \<Rightarrow> u32" where
  "rotl32 n w = word_rotl n w"

type_synonym quad = "u32 \<times> u32 \<times> u32 \<times> u32"

fun md5_step :: "u32 list \<Rightarrow> nat \<Rightarrow> quad \<Rightarrow> quad" where
  "md5_step x i (a, b, c, d) =
     (d, b + rotl32 (md5_shift i) (a + md5_fun i b c d + x ! md5_index i + md5_K ! i), b, c)"

definition words_of :: "bytes \<Rightarrow> u32 list" where
  "words_of block = map (\<lambda>i. the (of_le32 (take 4 (drop (4 * i) block)))) [0..<16]"

definition md5_compress :: "regs \<Rightarrow> bytes \<Rightarrow> regs" where
  "md5_compress st block =
     (let (a, b, c, d) = fold (md5_step (words_of block)) [0..<64]
                           (reg_a st, reg_b st, reg_c st, reg_d st)
      in \<lparr>reg_a = reg_a st + a, reg_b = reg_b st + b, reg_c = reg_c st + c, reg_d = reg_d st + d\<rparr>)"

end
