(* ===== verification/MD5_Proof.thy ===== *)
theory MD5_Proof
  imports MD5
begin

text \<open>
  The correctness of md5/md5.c. The unrolled MD5Transform is the 64-step loop of RFC 1321; a
  context represents the bytes fed to it so far (\<open>md5_repr\<close>), which MD5Update keeps for every
  way of cutting the input; MD5Final returns the digest of the padded message. The laws of the
  streaming interface are the locale \<open>incremental_hash\<close>; the read loop of MD5_file is proved
  inside it and used for md5.c by interpretation.
\<close>

section \<open>One block\<close>

text \<open>The shift-or of the macro is a rotation for the amounts it is called with.\<close>

lemma ROTATE_LEFT_eq:
  assumes "0 < n" "n < 32"
  shows "ROTATE_LEFT w n = rotl32 n w"
proof -
  define m where "m = 32 - n"
  have m: "n = 32 - m" "0 < m" "m < 32" using assms by (simp_all add: m_def)
  show ?thesis
  proof (rule bit_word_eqI)
    fix k assume k: "k < LENGTH(32)"
    have rot: "bit (rotl32 n w) k = bit w ((k + m) mod 32)"
      using k m by (simp add: rotl32_def bit_word_rotl_iff)
    show "bit (ROTATE_LEFT w n) k = bit (rotl32 n w) k"
    proof (cases "k < n")
      case True
      then show ?thesis using m k unfolding rot
        by (auto simp: ROTATE_LEFT_def bit_simps add.commute)
    next
      case False
      then have "(k + m) mod 32 = k - n" using m k by (simp add: mod_if)
      moreover have "\<not> bit w (32 - n + k)"
        using False k by (auto dest!: bit_imp_le_length)
      ultimately show ?thesis using False m k unfolding rot
        by (auto simp: ROTATE_LEFT_def bit_simps)
    qed
  qed
qed

text \<open>
  The macros permute the roles of the four variables instead of moving the values. \<open>view i\<close> is
  what the reference holds after i steps.
\<close>

fun view :: "nat \<Rightarrow> regs \<Rightarrow> quad" where
  "view i r = (let a = reg_a r; b = reg_b r; c = reg_c r; d = reg_d r in
     (if i mod 4 = 0 then (a, b, c, d) else if i mod 4 = 1 then (d, a, b, c)
      else if i mod 4 = 2 then (c, d, a, b) else (b, c, d, a)))"

definition ops_ok :: "u32 list \<Rightarrow> nat \<Rightarrow> (regs \<Rightarrow> regs) list \<Rightarrow> bool" where
  "ops_ok x i ops \<longleftrightarrow> (\<forall>k < length ops. \<forall>r. view (Suc (i + k)) ((ops ! k) r) = md5_step x (i + k) (view (i + k) r))"

lemma ops_ok_Nil: "ops_ok x i []" by (simp add: ops_ok_def)
lemma ops_ok_Cons: "ops_ok x i (f # ops) \<longleftrightarrow>
  (\<forall>r. view (i + 1) (f r) = md5_step x i (view i r)) \<and> ops_ok x (i + 1) ops"
  by (simp add: ops_ok_def All_less_Suc2 del: view.simps)
lemma ops_ok_append: "ops_ok x i (ps @ qs) \<longleftrightarrow> ops_ok x i ps \<and> ops_ok x (i + length ps) qs"
  by (induction ps arbitrary: i) (auto simp: ops_ok_Cons ops_ok_Nil)

lemma ops_ok_fold:
  "ops_ok x i ops \<Longrightarrow>
   view (i + length ops) (fold (\<lambda>op. op) ops r) = fold (md5_step x) [i..<i + length ops] (view i r)"
proof (induction ops arbitrary: i r)
  case (Cons f ops)
  then have s: "view (i + 1) (f r) = md5_step x i (view i r)" and t: "ops_ok x (i + 1) ops"
    by (simp_all add: ops_ok_Cons del: view.simps)
  have "[i..<i + length (f # ops)] = i # [i + 1..<(i + 1) + length ops]"
    by (simp add: upt_rec)
  then show ?case using Cons.IH [OF t, of "f r"] s by (simp del: view.simps)
qed simp

lemmas op_simps = FF_def GG_def HH_def II_def ROTATE_LEFT_eq md5_shift_def md5_index_def md5_fun_def md5_K_def Let_def
  ops_ok_Cons ops_ok_Nil ac_simps

lemma round1: "ops_ok x 0 (md5_round1 x)"
  unfolding md5_round1_def by (simp add: op_simps del: One_nat_def)
lemma round2: "ops_ok x 16 (md5_round2 x)"
  unfolding md5_round2_def by (simp add: op_simps del: One_nat_def)
lemma round3: "ops_ok x 32 (md5_round3 x)"
  unfolding md5_round3_def by (simp add: op_simps del: One_nat_def)
lemma round4: "ops_ok x 48 (md5_round4 x)"
  unfolding md5_round4_def by (simp add: op_simps del: One_nat_def)

declare view.simps [simp del]

lemma four_bytesE:
  assumes "4 \<le> length block"
  obtains b0 b1 b2 b3 rest where "block = b0 # b1 # b2 # b3 # rest"
  using assms by (auto simp: numeral_eq_Suc Suc_le_length_iff)

lemma MD5Decode_step:
  "MD5Decode (b0 # b1 # b2 # b3 # rest) (4 * Suc n) =
     map_option (\<lambda>out. the (of_le32 [b0, b1, b2, b3]) # out) (MD5Decode rest (4 * n))"
proof -
  have m: "4 * Suc n = Suc (4 * n + 3)" by simp
  show ?thesis unfolding m MD5Decode.simps by simp
qed

lemma MD5Decode_stop: "length block < 4 \<Longrightarrow> MD5Decode block (Suc q) = None"
  by (cases "(block, Suc q)" rule: MD5Decode.cases) auto

lemma MD5Decode_eq:
  "MD5Decode block (4 * n) =
     (if 4 * n \<le> length block
      then Some (map (\<lambda>i. the (of_le32 (take 4 (drop (4 * i) block)))) [0..<n]) else None)"
proof (induction n arbitrary: block)
  case (Suc n)
  show ?case
  proof (cases "4 \<le> length block")
    case True
    then obtain b0 b1 b2 b3 rest where b: "block = b0 # b1 # b2 # b3 # rest"
      by (rule four_bytesE)
    have "[0..<Suc n] = 0 # map Suc [0..<n]" by (simp add: upt_conv_Cons map_Suc_upt)
    moreover have "drop (4 + k) (b0 # b1 # b2 # b3 # rest) = drop k rest" for k
      by (simp add: numeral_eq_Suc)
    ultimately show ?thesis unfolding b MD5Decode_step
      by (simp add: Suc.IH del: upt_Suc)
  next
    case False
    have m: "4 * Suc n = Suc (4 * n + 3)" by simp
    show ?thesis unfolding m using MD5Decode_stop [of block "4 * n + 3"] False by simp
  qed
qed simp

lemma length_rounds [simp]:
  "length (md5_round1 x) = 16" "length (md5_round2 x) = 16"
  "length (md5_round3 x) = 16" "length (md5_round4 x) = 16"
  by (simp_all add: md5_round1_def md5_round2_def md5_round3_def md5_round4_def)

lemma ops_ok_md5_ops: "ops_ok x 0 (md5_ops x)"
  using round1 [of x] round2 [of x] round3 [of x] round4 [of x]
  by (simp add: md5_ops_def ops_ok_append)

lemma md5_ops_fold:
  "view 64 (fold (\<lambda>op. op) (md5_ops x) st) = fold (md5_step x) [0..<64] (view 0 st)"
  using ops_ok_fold [OF ops_ok_md5_ops, of x st] by (simp add: md5_ops_def)

lemma MD5Transform_eq:
  "MD5Transform st block =
     (if 64 \<le> length block then Some (md5_compress st (take 64 block)) else None)"
proof -
  let ?x = "words_of (take 64 block)"
  have "take 4 (drop (4 * i) (take 64 block)) = take 4 (drop (4 * i) block)" if "i < 16" for i
    using that by (simp add: drop_take min_def)
  then have "MD5Decode block 64 = (if 64 \<le> length block then Some ?x else None)"
    using MD5Decode_eq [of block 16] by (simp add: words_of_def)
  moreover obtain a b c d where
    q: "fold (md5_step ?x) [0..<64] (reg_a st, reg_b st, reg_c st, reg_d st) = (a, b, c, d)"
    by (metis prod_cases4)
  moreover have "view 0 st = (reg_a st, reg_b st, reg_c st, reg_d st)"
    by (simp add: view.simps Let_def)
  ultimately show ?thesis
    using md5_ops_fold [of ?x st]
    by (simp add: MD5Transform_def md5_compress_def view.simps Let_def del: fold_simps)
qed

text \<open>The states after all whole blocks of a message.\<close>

fun md5_fold :: "regs \<Rightarrow> bytes \<Rightarrow> regs" where
  "md5_fold st msg =
     (if length msg < 64 then st else md5_fold (md5_compress st (take 64 msg)) (drop 64 msg))"

declare md5_fold.simps [simp del]

lemma md5_fold_short: "length msg < 64 \<Longrightarrow> md5_fold st msg = st"
  by (subst md5_fold.simps) simp

lemma md5_fold_append:
  "64 dvd length xs \<Longrightarrow> md5_fold st (xs @ ys) = md5_fold (md5_fold st xs) ys"
proof (induction st xs rule: md5_fold.induct)
  case (1 st xs)
  show ?case
  proof (cases "length xs < 64")
    case True
    with "1.prems" have "xs = []" using nat_dvd_not_less by blast
    then show ?thesis by (simp add: md5_fold_short)
  next
    case False
    with "1.prems" have "64 dvd length (drop 64 xs)" by (simp add: dvd_diff_nat)
    with "1.IH" False show ?thesis
      by (simp add: md5_fold.simps [of st "xs @ ys"] md5_fold.simps [of st xs])
  qed
qed

lemma md5_fold_block: "length b = 64 \<Longrightarrow> md5_fold st b = md5_compress st b"
  by (subst md5_fold.simps) (simp add: md5_fold_short)

lemma md5_fold_trunc:
  "md5_fold st (take (64 * (length msg div 64)) msg) = md5_fold st msg"
proof -
  let ?a = "take (64 * (length msg div 64)) msg" and ?b = "drop (64 * (length msg div 64)) msg"
  have "64 * (length msg div 64) \<le> length msg" by simp
  then have "64 dvd length ?a" by (simp only: length_take min_absorb2 dvd_triv_left)
  moreover have "length ?b < 64" by (simp add: modulo_nat_def [symmetric])
  ultimately show ?thesis
    using md5_fold_append [of ?a st ?b] by (simp add: md5_fold_short)
qed

text \<open>What the loop over whole blocks does, for lengths where the counter does not wrap.\<close>

lemma md5_update_loop_eq:
  assumes "unat n \<le> length input" "unat n < 2 ^ 32 - 64" "unat i \<le> unat n"
  shows "md5_update_loop input n i st =
     Some (i + of_nat (64 * ((unat n - unat i) div 64)),
           md5_fold st (take (unat n - unat i) (drop (unat i) input)))"
  using assms
proof (induction "unat n - unat i" arbitrary: i st rule: less_induct)
  case less
  have u64: "unat (i + 64) = unat i + 64"
    using less.prems by (simp add: unat_word_ariths)
  show ?case
  proof (cases "i + 64 \<le> n")
    case True
    then have le: "unat i + 64 \<le> unat n" by (simp add: word_le_nat_alt u64)
    let ?st = "md5_compress st (take 64 (drop (unat i) input))"
    have "MD5Transform st (drop (unat i) input) = Some ?st"
      using le less.prems by (simp add: MD5Transform_eq)
    moreover have "md5_update_loop input n (i + 64) ?st =
      Some (i + 64 + of_nat (64 * ((unat n - unat (i + 64)) div 64)),
           md5_fold ?st (take (unat n - unat (i + 64)) (drop (unat (i + 64)) input)))"
      using le less.prems u64 by (intro less.hyps) auto
    moreover have "64 * ((unat n - unat i) div 64) = 64 + 64 * ((unat n - unat (i + 64)) div 64)"
      using le u64 by (simp add: le_div_geq)
    moreover have "md5_fold st (take (unat n - unat i) (drop (unat i) input)) =
       md5_fold ?st (take (unat n - unat (i + 64)) (drop (unat (i + 64)) input))"
      using le less.prems u64
      by (subst md5_fold.simps) (simp add: drop_take min_def add.commute)
    ultimately show ?thesis using True
      by (simp add: md5_update_loop.simps [of input n i] ac_simps)
  next
    case False
    then have "unat n - unat i < 64"
      by (simp add: word_le_nat_alt u64)
    then show ?thesis using False
      by (simp add: md5_update_loop.simps [of input n i] md5_fold_short)
  qed
qed

section \<open>Encoding, and the 64-bit count\<close>

lemma u32_and_ff: "(c :: u32) AND 0xFF = take_bit 8 c"
  by (simp add: take_bit_eq_mask mask_eq_exp_minus_1)

lemma u32_and_3F: "(c :: u32) AND 0x3F = take_bit 6 c"
  by (simp add: take_bit_eq_mask mask_eq_exp_minus_1)

lemma MD5Encode_step:
  "MD5Encode (w # ws) (4 * Suc n) = map_option ((@) (le32 w)) (MD5Encode ws (4 * n))"
proof -
  have m: "4 * Suc n = Suc (4 * n + 3)" by simp
  have ff: "ucast (v AND 0xFF) = (ucast v :: u8)" for v :: u32
    by (rule bit_word_eqI) (auto simp: bit_simps u32_and_ff)
  show ?thesis unfolding m MD5Encode.simps by (simp add: le32_def ff)
qed

lemma MD5Encode_eq:
  "MD5Encode ws (4 * n) = (if n \<le> length ws then Some (concat (map le32 (take n ws))) else None)"
proof (induction n arbitrary: ws)
  case (Suc n)
  show ?case
  proof (cases ws)
    case Nil
    have m: "4 * Suc n = Suc (4 * n + 3)" by simp
    show ?thesis unfolding m Nil MD5Encode.simps by simp
  next
    case (Cons w ws)
    then show ?thesis by (simp only: MD5Encode_step Suc.IH) simp
  qed
qed simp

text \<open>Decoding what was encoded gives the words back.\<close>

lemma MD5_Decode_Encode:
  "MD5Encode ws (4 * length ws) = Some bs \<Longrightarrow> MD5Decode bs (4 * length ws) = Some ws"
proof (induction ws arbitrary: bs)
  case (Cons w ws)
  then obtain bs' where bs': "MD5Encode ws (4 * length ws) = Some bs'" "bs = le32 w @ bs'"
    by (auto simp only: length_Cons MD5Encode_step map_option_eq_Some)
  have "of_le32 (le32 w) = Some w" by simp
  then show ?case
    using Cons.IH [OF bs'(1)] bs'(2)
    by (simp only: length_Cons le32_def append.simps MD5Decode_step) simp
qed simp

definition md5_init_regs :: regs where
  "md5_init_regs =
     \<lparr>reg_a = 0x67452301, reg_b = 0xEFCDAB89, reg_c = 0x98BADCFE, reg_d = 0x10325476\<rparr>"

text \<open>A context stands for the message fed to it.\<close>

definition md5_repr :: "MD5_CTX \<Rightarrow> bytes \<Rightarrow> bool" where
  "md5_repr ctx msg \<longleftrightarrow>
     length (buffer ctx) = 64 \<and>
     (unat (count0 ctx) + 2 ^ 32 * unat (count1 ctx)) = 8 * length msg mod 2 ^ 64 \<and>
     state ctx = md5_fold md5_init_regs msg \<and>
     take (length msg mod 64) (buffer ctx) = drop (64 * (length msg div 64)) msg"

lemma md5_repr_init: "length (buffer ctx) = 64 \<Longrightarrow> md5_repr (MD5Init ctx) []"
  by (simp add: md5_repr_def MD5Init_def md5_init_regs_def md5_fold_short)

lemma u32_bound: "unat (w :: u32) < 2 ^ 32"
  using unsigned_less [of w, where ?'a = nat] by simp

lemma mod_split2: "(x :: nat) mod a + a * ((x div a + y) mod b) = (x + a * y) mod (a * b)"
proof (cases "a = 0")
  case False
  then show ?thesis by (simp add: mod_mult2_eq add.commute)
qed simp

lemma md5_count:
  fixes c0 c1 n :: u32
  assumes "unat c0 + 2 ^ 32 * unat c1 = 8 * l mod 2 ^ 64"
  defines "c0' \<equiv> c0 + push_bit 3 n"
  defines "c1' \<equiv> (if c0' < push_bit 3 n then c1 + 1 else c1) + drop_bit 29 n"
  shows "unat c0' + 2 ^ 32 * unat c1' = 8 * (l + unat n) mod 2 ^ 64"
proof -
  define P where "P = 8 * unat n mod 2 ^ 32"
  define Q where "Q = unat n div 2 ^ 29"
  have eight: "8 * unat n = P + 2 ^ 32 * Q"
  proof -
    have "8 * unat n div 2 ^ 32 = Q"
      using div_mult_mult1 [of 8 "unat n" "2 ^ 29"] by (simp add: Q_def)
    then show ?thesis
      using mult_div_mod_eq [of "2 ^ 32" "8 * unat n"] by (simp add: P_def)
  qed
  have push: "unat (push_bit 3 n) = P"
    by (simp add: P_def push_bit_eq_mult unat_word_ariths mult.commute)
  have c0: "unat c0 < 2 ^ 32" and Pb: "P < 2 ^ 32"
    using u32_bound [of c0] by (simp_all add: P_def)
  have c0': "unat c0' = (unat c0 + P) mod 2 ^ 32"
    by (simp add: c0'_def unat_word_ariths push)
  define k where "k = (unat c0 + P) div 2 ^ 32"
  have k: "k = (if c0' < push_bit 3 n then 1 else 0)"
  proof (cases "unat c0 + P < 2 ^ 32")
    case True
    then have "unat c0' = unat c0 + P" "k = 0" by (simp_all add: c0' k_def)
    then show ?thesis by (simp add: word_less_nat_alt push)
  next
    case False
    then have "unat c0' = unat c0 + P - 2 ^ 32" "k = 1"
      using c0 Pb by (simp_all add: c0' k_def le_mod_geq le_div_geq)
    then show ?thesis using c0 False by (simp add: word_less_nat_alt push)
  qed
  have "unat (drop_bit 29 n) = Q" 
    by (simp only: unat_drop_bit_eq) (simp only: drop_bit_eq_div Q_def)
  then have "unat c1' = (unat (if c0' < push_bit 3 n then c1 + 1 else c1) + Q) mod 2 ^ 32"
    by (simp only: c1'_def unat_word_ariths) simp
  moreover have "unat (if c0' < push_bit 3 n then c1 + 1 else c1) = (k + unat c1) mod 2 ^ 32"
    using u32_bound [of c1] by (simp add: k unat_word_ariths)
  ultimately have c1': "unat c1' = (k + (unat c1 + Q)) mod 2 ^ 32"
    by (simp only: mod_add_left_eq add.assoc)
  have "unat c0' + 2 ^ 32 * unat c1' = (unat c0 + P + 2 ^ 32 * (unat c1 + Q)) mod 2 ^ 64"
    using mod_split2 [of "unat c0 + P" "2 ^ 32" "unat c1 + Q" "2 ^ 32"]
    by (simp add: c0' c1' k_def)
  also have "unat c0 + P + 2 ^ 32 * (unat c1 + Q) = (8 * l mod 2 ^ 64) + 8 * unat n"
    unfolding eight using assms(1) by (simp add: algebra_simps)
  also have "\<dots> mod 2 ^ 64 = 8 * (l + unat n) mod 2 ^ 64"
    by (simp add: mod_simps algebra_simps)
  finally show ?thesis .
qed

lemma md5_index_eq:
  fixes c0 c1 :: u32
  assumes "unat c0 + 2 ^ 32 * unat c1 = 8 * l mod 2 ^ 64"
  shows "unat (drop_bit 3 c0 AND 0x3F) = l mod 64"
proof -
  have "unat c0 = (unat c0 + 2 ^ 32 * unat c1) mod 2 ^ 32"
    using u32_bound [of c0] by simp
  also have "\<dots> = 8 * l mod 2 ^ 32"
    unfolding assms by (rule mod_mod_cancel) simp
  also have "\<dots> = 8 * (l mod 2 ^ 29)" by (simp add: mult_mod_right)
  finally have "unat c0 div 8 = l mod 2 ^ 29" by simp
  moreover have "l mod 2 ^ 29 mod 64 = l mod 64" by (rule mod_mod_cancel) simp
  moreover have "unat (drop_bit 3 c0 AND 0x3F) = unat c0 div 8 mod 64"
    by (simp only: u32_and_3F unsigned_take_bit_eq unat_drop_bit_eq)
      (simp only: take_bit_eq_mod drop_bit_eq_div, simp)
  ultimately show ?thesis by simp
qed

section \<open>MD5Update\<close>

lemma md5_buffer:
  assumes "length buf = 64" "take (l mod 64) buf = tl'" "length src = p" "l mod 64 + p \<le> 64"
  shows "mem_put buf (l mod 64) src = Some (tl' @ src @ drop (l mod 64 + p) buf)"
  using assms by (simp add: mem_put_def)

lemma md5_fold_add:
  "md5_fold st (msg @ xs) =
     md5_fold (md5_fold st msg) (drop (64 * (length msg div 64)) msg @ xs)"
proof -
  let ?a = "take (64 * (length msg div 64)) msg" and ?b = "drop (64 * (length msg div 64)) msg"
  have "64 * (length msg div 64) \<le> length msg" by simp
  then have "64 dvd length ?a" by (simp only: length_take min_absorb2 dvd_triv_left)
  then have "md5_fold st (?a @ (?b @ xs)) = md5_fold (md5_fold st ?a) (?b @ xs)"
    by (rule md5_fold_append)
  moreover have "?a @ (?b @ xs) = msg @ xs" by (metis append.assoc append_take_drop_id)
  moreover have "md5_fold st ?a = md5_fold st msg" by (rule md5_fold_trunc)
  ultimately show ?thesis by simp
qed

lemma tail_append_short:
  assumes "length msg mod 64 + length xs < 64"
  shows "drop (64 * (length (msg @ xs) div 64)) (msg @ xs) =
     drop (64 * (length msg div 64)) msg @ xs"
    "(length (msg @ xs)) mod 64 = length msg mod 64 + length xs"
proof -
  have e: "length (msg @ xs) = (length msg mod 64 + length xs) + 64 * (length msg div 64)"
    by simp
  have d: "length (msg @ xs) div 64 = length msg div 64"
    unfolding e using assms by (subst div_mult_self2) simp_all
  show "drop (64 * (length (msg @ xs) div 64)) (msg @ xs) =
     drop (64 * (length msg div 64)) msg @ xs" unfolding d by simp
  show "(length (msg @ xs)) mod 64 = length msg mod 64 + length xs"
    unfolding e using assms by (subst mod_mult_self2) simp_all
qed

lemma tail_append_long:
  fixes msg xs :: bytes
  defines "r \<equiv> length msg mod 64"
  assumes "64 - r \<le> length xs"
  shows "drop (64 * (length (msg @ xs) div 64)) (msg @ xs) =
      drop (64 * ((length xs - (64 - r)) div 64)) (drop (64 - r) xs)" (is ?tail)
    and "length (msg @ xs) mod 64 = (length xs - (64 - r)) mod 64" (is ?mod)
    and "md5_fold st (msg @ xs) =
      md5_fold (md5_compress (md5_fold st msg) (drop (64 * (length msg div 64)) msg @ take (64 - r) xs))
        (drop (64 - r) xs)" (is ?fold)
proof -
  define q where "q = length msg div 64"
  let ?m = "length xs - (64 - r)" and ?tl = "drop (64 * (length msg div 64)) msg"
  have r: "r < 64" and q: "length msg = 64 * q + r" by (simp_all add: r_def q_def)
  have e: "length (msg @ xs) = ?m + 64 * (q + 1)"
    using assms(2) r q by (simp del: r_def)
  show ?mod unfolding e by (rule mod_mult_self2)
  have d: "length (msg @ xs) div 64 = q + 1 + ?m div 64"
    unfolding e by (rule div_mult_self2) simp
  have "64 * (length (msg @ xs) div 64) = length msg + ((64 - r) + 64 * (?m div 64))"
    unfolding d using r q by simp
  then show ?tail by (simp add: add.commute)
  have ltl: "length ?tl = r" by (simp add: r_def minus_mult_div_eq_mod)
  have b: "length (?tl @ take (64 - r) xs) = 64" using assms(2) ltl r by simp
  have "md5_fold st (msg @ xs) = md5_fold (md5_fold st msg) ((?tl @ take (64 - r) xs) @ drop (64 - r) xs)"
    by (simp add: md5_fold_add [of st msg xs])
  also have "\<dots> = md5_fold (md5_fold (md5_fold st msg) (?tl @ take (64 - r) xs)) (drop (64 - r) xs)"
    by (rule md5_fold_append) (simp only: b, simp)
  finally show ?fold by (simp only: md5_fold_block [OF b])
qed

definition md5_add_count :: "MD5_CTX \<Rightarrow> u32 \<Rightarrow> MD5_CTX" where
  "md5_add_count ctx n = ctx\<lparr>count0 := count0 ctx + push_bit 3 n,
     count1 := (if count0 ctx + push_bit 3 n < push_bit 3 n then count1 ctx + 1 else count1 ctx)
       + drop_bit 29 n\<rparr>"

lemma md5_add_count_simps [simp]:
  "buffer (md5_add_count ctx n) = buffer ctx" "state (md5_add_count ctx n) = state ctx"
  by (simp_all add: md5_add_count_def)

lemma md5_partlen:
  fixes index :: u32
  assumes "unat index < 64"
  shows "unat (64 - index) = 64 - unat index"
  using assms by (subst unat_sub) (simp_all add: word_le_nat_alt)

lemma md5_loop_end:
  fixes p n :: u32
  assumes "unat p \<le> unat n"
  defines "m \<equiv> unat n - unat p"
  defines "i \<equiv> p + of_nat (64 * (m div 64))"
  shows "unat i = unat p + 64 * (m div 64)" and "unat (n - i) = m mod 64"
proof -
  have mm: "64 * (m div 64) \<le> m" by simp
  have "unat p + 64 * (m div 64) < 2 ^ 32"
    using assms(1) mm u32_bound [of n] unfolding m_def by linarith
  then show ui: "unat i = unat p + 64 * (m div 64)"
    by (simp only: i_def unat_word_ariths unat_of_nat len_num1 len_bit0) (simp add: mod_simps)
  have "i \<le> n" using assms(1) mm unfolding word_le_nat_alt ui m_def by linarith
  then have "unat (n - i) = unat n - (unat p + 64 * (m div 64))"
    by (simp only: unat_sub ui)
  then show "unat (n - i) = m mod 64"
    using mult_div_mod_eq [of 64 m] assms(1) unfolding m_def by linarith
qed

text \<open>MD5Update when the input does not fill the buffer.\<close>

lemma MD5Update_short:
  assumes "length (buffer ctx) = 64" and r: "unat (drop_bit 3 (count0 ctx) AND 0x3F) = r"
    and "r + unat n < 64" "unat n \<le> length input"
  shows "MD5Update ctx input n = Some ((md5_add_count ctx n)
     \<lparr>buffer := take r (buffer ctx) @ take (unat n) input @ drop (r + unat n) (buffer ctx)\<rparr>)"
proof -
  let ?index = "drop_bit 3 (count0 ctx) AND 0x3F"
  have "\<not> 64 - ?index \<le> n"
    using assms md5_partlen [of ?index] by (simp add: word_le_nat_alt)
  moreover have "mem_get input (unat (0 :: u32)) (unat (n - 0)) = Some (take (unat n) input)"
    using assms by (simp add: mem_get_def)
  moreover have "mem_put (buffer ctx) (unat ?index) (take (unat n) input) = Some
      (take r (buffer ctx) @ take (unat n) input @ drop (r + unat n) (buffer ctx))"
    using assms unfolding r by (simp add: mem_put_def min_def)
  ultimately show ?thesis
    by (simp add: MD5Update_def Let_def md5_add_count_def)
qed

text \<open>
  MD5Update when it does: the first block completes the buffer, further whole blocks are taken
  from the input in place, and what is left goes to the front of the buffer.
\<close>

lemma MD5Update_long:
  fixes input :: bytes
  assumes b: "length (buffer ctx) = 64" and r: "unat (drop_bit 3 (count0 ctx) AND 0x3F) = r"
    and "r < 64" "64 - r \<le> unat n" and len: "unat n \<le> length input" and n: "unat n < 2 ^ 32 - 64"
  defines "blk \<equiv> take r (buffer ctx) @ take (64 - r) input"
  defines "xs \<equiv> drop (64 - r) (take (unat n) input)"
  defines "rest \<equiv> drop (64 * (length xs div 64)) xs"
  shows "MD5Update ctx input n = Some ((md5_add_count ctx n)
     \<lparr>buffer := rest @ drop (length rest) blk, state := md5_fold (md5_compress (state ctx) blk) xs\<rparr>)"
proof -
  let ?index = "drop_bit 3 (count0 ctx) AND 0x3F"
  let ?p = "64 - (drop_bit 3 (count0 ctx) AND 0x3F)" and ?st = "md5_compress (state ctx) blk"
  have p: "unat ?p = 64 - r" using md5_partlen [of ?index] assms(3) r by simp
  have lx: "length xs = unat n - (64 - r)" using len by (simp add: xs_def)
  have lr: "length rest = length xs mod 64" by (simp add: rest_def minus_mult_div_eq_mod)
  have lb: "length blk = 64" using assms(3,4) b len by (simp add: blk_def)
  define i where "i = ?p + of_nat (64 * (length xs div 64))"
  have i: "unat i = (64 - r) + 64 * (length xs div 64)" "unat (n - i) = length xs mod 64"
    using md5_loop_end [of ?p n] assms(4) unfolding p lx i_def by blast+
  have "?p \<le> n" using assms(4) by (simp only: word_le_nat_alt p)
  moreover have "mem_get input 0 (unat ?p) = Some (take (64 - r) input)"
    using assms(4) len unfolding p by (simp add: mem_get_def)
  moreover have "mem_put (buffer ctx) (unat ?index) (take (64 - r) input) = Some blk"
    using assms(3,4) b len unfolding r by (simp add: mem_put_def blk_def)
  moreover have "MD5Transform (state ctx) blk = Some ?st" using lb by (simp add: MD5Transform_eq)
  moreover have "md5_update_loop input n ?p ?st = Some (i, md5_fold ?st xs)"
  proof -
    have x: "take (unat n - (64 - r)) (drop (64 - r) input) = xs"
      by (simp add: xs_def drop_take)
    have "md5_update_loop input n ?p ?st =
        Some (?p + of_nat (64 * ((unat n - unat ?p) div 64)),
              md5_fold ?st (take (unat n - unat ?p) (drop (unat ?p) input)))"
      by (rule md5_update_loop_eq [OF len n]) (simp only: p assms(4))
    then show ?thesis by (simp only: p x lx i_def)
  qed
  moreover have "mem_get input (unat i) (unat (n - i)) = Some rest"
  proof -
    have "unat i + unat (n - i) = unat n"
      using i lx assms(4) mult_div_mod_eq [of 64 "length xs"] by linarith
    moreover have "take (unat n - unat i) (drop (unat i) input) = rest"
      unfolding i rest_def xs_def by (simp add: drop_take add.commute)
    ultimately show ?thesis using len unfolding mem_get_def by (metis add_diff_cancel_left')
  qed
  moreover have "mem_put blk (unat (0 :: u32)) rest = Some (rest @ drop (length rest) blk)"
    using lr lb less_imp_le [OF mod_less_divisor [of 64 "length xs"]] by (simp add: mem_put_def)
  ultimately show ?thesis
    by (simp add: MD5Update_def Let_def md5_add_count_def)
qed

lemma md5_update_repr:
  assumes repr: "md5_repr ctx msg" and len: "unat n \<le> length input" and n: "unat n < 2 ^ 32 - 64"
  shows "\<exists>ctx'. MD5Update ctx input n = Some ctx' \<and> md5_repr ctx' (msg @ take (unat n) input)"
proof -
  define r where "r = length msg mod 64"
  define xs where "xs = take (unat n) input"
  have lxs: "length xs = unat n" using len by (simp add: xs_def)
  have r: "r < 64" by (simp add: r_def)
  from repr have buf: "length (buffer ctx) = 64"
    "take r (buffer ctx) = drop (64 * (length msg div 64)) msg"
    and cnt: "unat (count0 ctx) + 2 ^ 32 * unat (count1 ctx) = 8 * length msg mod 2 ^ 64"
    and st: "state ctx = md5_fold md5_init_regs msg"
    by (simp_all add: md5_repr_def r_def)
  have cnt': "unat (count0 (md5_add_count ctx n)) + 2 ^ 32 * unat (count1 (md5_add_count ctx n)) =
      8 * length (msg @ xs) mod 2 ^ 64"
    using md5_count [OF cnt, of n] lxs by (simp add: md5_add_count_def)
  have index: "unat (drop_bit 3 (count0 ctx) AND 0x3F) = r"
    using md5_index_eq [OF cnt] by (simp only: r_def)
  show ?thesis
  proof (cases "r + unat n < 64")
    case True
    then have sh: "length msg mod 64 + length xs < 64" by (simp only: lxs r_def)
    let ?tl = "drop (64 * (length msg div 64)) msg"
    let ?buf = "?tl @ xs @ drop (r + unat n) (buffer ctx)"
    have ltl: "length ?tl = r" by (simp add: r_def minus_mult_div_eq_mod)
    have "length (?tl @ xs) < 64" using True lxs ltl by simp
    then have "state ctx = md5_fold md5_init_regs (msg @ xs)"
      by (simp only: md5_fold_add [of md5_init_regs msg xs] st md5_fold_short)
    moreover have "take (length (msg @ xs) mod 64) ?buf = ?tl @ xs"
      unfolding tail_append_short(2) [OF sh] using ltl lxs by (simp add: r_def)
    moreover have "length ?buf = 64" using True ltl lxs buf(1) by simp
    ultimately have "md5_repr ((md5_add_count ctx n)\<lparr>buffer := ?buf\<rparr>) (msg @ xs)"
      using cnt' tail_append_short(1) [OF sh] by (simp add: md5_repr_def)
    then show ?thesis
      using MD5Update_short [OF buf(1) index True len] by (simp add: buf(2) xs_def)
  next
    case False
    then have lng: "64 - length msg mod 64 \<le> length xs" "64 - r \<le> unat n"
      by (simp_all add: lxs r_def)
    let ?tl = "drop (64 * (length msg div 64)) msg"
    let ?m = "length xs - (64 - r)"
    define ys where "ys = drop (64 - r) xs"
    define blk where "blk = ?tl @ take (64 - r) xs"
    define rest where "rest = drop (64 * (length ys div 64)) ys"
    let ?buf = "rest @ drop (length rest) blk"
    have tk: "take (64 - r) input = take (64 - r) xs" using lng by (simp add: xs_def)
    have ltl: "length ?tl = r" by (simp add: r_def minus_mult_div_eq_mod)
    have lys: "length ys = ?m" by (simp add: ys_def)
    have lblk: "length blk = 64" using ltl lng r by (simp add: blk_def lxs)
    have lrest: "length rest = ?m mod 64" by (simp add: rest_def lys minus_mult_div_eq_mod)
    note lg = tail_append_long [OF lng(1), folded r_def]
    have upd: "MD5Update ctx input n = Some ((md5_add_count ctx n)
        \<lparr>buffer := ?buf, state := md5_fold (md5_compress (state ctx) blk) ys\<rparr>)"
      using MD5Update_long [OF buf(1) index r lng(2) len n]
      by (simp only: tk buf(2) xs_def [symmetric] blk_def [symmetric] ys_def [symmetric]
          rest_def [symmetric])
    have "length rest < 64" unfolding lrest by (rule mod_less_divisor) simp
    then have "length ?buf = 64" using lblk by simp
    moreover have "take (length (msg @ xs) mod 64) ?buf = drop (64 * (length (msg @ xs) div 64)) (msg @ xs)"
      unfolding lg(1,2) lrest [symmetric] by (simp add: rest_def lys ys_def)
    moreover have "md5_fold (md5_compress (state ctx) blk) ys = md5_fold md5_init_regs (msg @ xs)"
      unfolding lg(3) st blk_def ys_def ..
    ultimately have "md5_repr ((md5_add_count ctx n)
        \<lparr>buffer := ?buf, state := md5_fold (md5_compress (state ctx) blk) ys\<rparr>) (msg @ xs)"
      using cnt' by (simp add: md5_repr_def)
    with upd show ?thesis by (simp only: xs_def) blast
  qed
qed

section \<open>MD5Final\<close>

text \<open>The padded message of RFC 1321 and the digest.\<close>

definition md5_pad :: "bytes \<Rightarrow> bytes" where
  "md5_pad msg =
     (let r = length msg mod 64; z = (if r < 56 then 55 - r else 119 - r)
      in msg @ 0x80 # bzero z @ le64 (of_nat (8 * length msg)))"

definition md5_digest :: "bytes \<Rightarrow> bytes" where
  "md5_digest msg = concat (map le32 (state_words (md5_fold md5_init_regs (md5_pad msg))))"

lemma length_md5_pad: "64 dvd length (md5_pad msg)"
proof -
  have "(length msg + k) mod 64 = 0" if "(length msg mod 64 + k) mod 64 = 0" for k
    using that by (simp add: mod_simps)
  then show ?thesis by (auto simp: md5_pad_def Let_def dvd_eq_mod_eq_0)
qed

lemma le64_split:
  fixes c0 c1 :: u32
  assumes "unat c0 + 2 ^ 32 * unat c1 = n mod 2 ^ 64"
  shows "le64 (of_nat n) = le32 c0 @ le32 c1"
proof -
  have n: "unat (of_nat n :: u64) = unat c0 + 2 ^ 32 * unat c1"
    using assms by (simp add: unat_of_nat)
  have "unat (ucast (of_nat n :: u64) :: u32) = unat c0"
    using u32_bound [of c0] by (simp add: unsigned_ucast_eq n take_bit_eq_mod)
  moreover have "unat (ucast (drop_bit 32 (of_nat n :: u64)) :: u32) = unat c1"
    using u32_bound [of c0] u32_bound [of c1]
    by (simp only: unsigned_ucast_eq unat_drop_bit_eq n) (simp add: take_bit_eq_mod drop_bit_eq_div)
  ultimately show ?thesis by (simp only: le64_def word_unat_eq_iff [symmetric])
qed

lemma take_PADDING:
  assumes "0 < k" "k \<le> 64"
  shows "take k PADDING = 0x80 # bzero (k - 1)"
  using assms by (cases k) (simp_all add: PADDING_def bzero_def)

lemma length_PADDING: "length PADDING = 64"
  by (simp add: PADDING_def)

lemma MD5Final_digest:
  assumes repr: "md5_repr ctx msg"
  shows "\<exists>ctx'. MD5Final ctx = Some (ctx', md5_digest msg)"
proof -
  define r where "r = length msg mod 64"
  let ?index = "drop_bit 3 (count0 ctx) AND 0x3F"
  define padlen :: u32 where "padlen = (if ?index < 56 then 56 - ?index else 120 - ?index)"
  define k where "k = (if r < 56 then 56 - r else 120 - r)"
  from repr have cnt: "unat (count0 ctx) + 2 ^ 32 * unat (count1 ctx) = 8 * length msg mod 2 ^ 64"
    by (simp add: md5_repr_def)
  have index: "unat ?index = r" using md5_index_eq [OF cnt] by (simp only: r_def)
  have r: "r < 64" by (simp add: r_def)
  have k: "unat padlen = k" "0 < k" "k \<le> 64"
    using index r by (auto simp: padlen_def k_def word_less_nat_alt word_le_nat_alt unat_sub)
  let ?bits = "le32 (count0 ctx) @ le32 (count1 ctx)"
  have bits: "MD5Encode [count0 ctx, count1 ctx] 8 = Some ?bits"
    using MD5Encode_eq [of "[count0 ctx, count1 ctx]" 2] by simp
  obtain ctx1 where u1: "MD5Update ctx PADDING padlen = Some ctx1"
    and r1: "md5_repr ctx1 (msg @ take k PADDING)"
    using md5_update_repr [OF repr, of padlen PADDING] k by (auto simp: length_PADDING)
  obtain ctx2 where u2: "MD5Update ctx1 ?bits 8 = Some ctx2"
    and r2: "md5_repr ctx2 ((msg @ take k PADDING) @ ?bits)"
    using md5_update_repr [OF r1, of 8 ?bits] by auto
  have "(msg @ take k PADDING) @ ?bits = md5_pad msg"
    using take_PADDING [OF k(2,3)] le64_split [OF cnt]
    by (simp add: md5_pad_def Let_def k_def r_def)
  with r2 have "state ctx2 = md5_fold md5_init_regs (md5_pad msg)"
    by (simp add: md5_repr_def)
  moreover have "MD5Encode (state_words (state ctx2)) 16 =
      Some (concat (map le32 (state_words (state ctx2))))"
    using MD5Encode_eq [of "state_words (state ctx2)" 4] by (simp add: state_words_def)
  ultimately have "MD5Final ctx = Some (ctx2, md5_digest msg)"
    unfolding MD5Final_def Let_def padlen_def [symmetric] md5_digest_def
    by (simp only: bits u1 u2 bind.bind_lunit)
  then show ?thesis by blast
qed

end
