(* ===== verification/MD5_Eval.thy ===== *)
theory MD5_Eval
  imports MD5_Proof
begin

text \<open>
  Evaluation of MD5Transform in the kernel. Words are written \<open>W i\<close> with i an integer numeral,
  so that the simplifier computes a round with integer arithmetic; the result is the digest of
  the message abc, the test vector of RFC 1321.
\<close>

definition W :: "int \<Rightarrow> u32" where
  "W i = word_of_int i"

lemma W_add: "W a + W b = W (a + b)"
  by (simp add: W_def)

lemma W_norm: "W (a mod 4294967296) = W a"
  by (simp add: W_def word_of_int_eq_iff take_bit_eq_mod)

lemma W_numeral: "numeral n = W (numeral n)"
  by (simp add: W_def)

lemma W_F: "F (W x) (W y) (W z) = W (z XOR (x AND (y XOR z)))"
  by (rule bit_word_eqI) (auto simp: F_def W_def bit_simps)

lemma W_G: "G (W x) (W y) (W z) = W (y XOR (z AND (x XOR y)))"
  by (rule bit_word_eqI) (auto simp: G_def W_def bit_simps)

lemma W_H: "H (W x) (W y) (W z) = W (x XOR y XOR z)"
  by (rule bit_word_eqI) (auto simp: H_def W_def bit_simps)

lemma W_I: "I (W x) (W y) (W z) = W (y XOR (x OR (z XOR 4294967295)))"
proof -
  have m: "(4294967295 :: int) = mask 32" by (simp add: mask_eq_exp_minus_1)
  show ?thesis unfolding m
    by (rule bit_word_eqI) (auto simp: I_def W_def bit_simps)
qed

lemma W_shift:
  "push_bit n (W x) = W (push_bit n x)" "drop_bit n (W (take_bit 32 x)) = W (drop_bit n (take_bit 32 x))"
  "W x OR W y = W (x OR y)"
  by (rule bit_word_eqI; auto simp: W_def bit_simps)+

lemma W_ROTATE:
  "ROTATE_LEFT (W x) s =
     W (let t = x mod 4294967296 in t * 2 ^ s OR t div 2 ^ (32 - s))"
proof -
  have t: "x mod 4294967296 = take_bit 32 x" by (simp add: take_bit_eq_mod)
  have "W x = W (take_bit 32 x)" by (simp add: W_norm t [symmetric])
  then show ?thesis
    by (simp only: t ROTATE_LEFT_def Let_def W_shift) (simp only: push_bit_eq_mult drop_bit_eq_div)
qed


definition S :: "int \<Rightarrow> int \<Rightarrow> int \<Rightarrow> int \<Rightarrow> regs" where
  "S a b c d = \<lparr>reg_a = W a, reg_b = W b, reg_c = W c, reg_d = W d\<rparr>"

definition mix :: "int \<Rightarrow> int \<Rightarrow> int \<Rightarrow> nat \<Rightarrow> int" where
  "mix a f b s =
     (let t = (a + f) mod 4294967296 in ((t * 2 ^ s OR t div 2 ^ (32 - s)) + b) mod 4294967296)"

lemma mix: "ROTATE_LEFT (W a + (W f + W x + W ac)) s + W b = W (mix a (f + x + ac) b s)"
  by (simp add: W_add W_ROTATE mix_def Let_def W_norm ac_simps)

lemma FF_S:
  "FF RA RB RC RD (W x) s (W ac) (S a b c d) =
     S (mix a ((d XOR (b AND (c XOR d))) + x + ac) b s) b c d"
  "FF RD RA RB RC (W x) s (W ac) (S a b c d) =
     S a b c (mix d ((c XOR (a AND (b XOR c))) + x + ac) a s)"
  "FF RC RD RA RB (W x) s (W ac) (S a b c d) =
     S a b (mix c ((b XOR (d AND (a XOR b))) + x + ac) d s) d"
  "FF RB RC RD RA (W x) s (W ac) (S a b c d) =
     S a (mix b ((a XOR (c AND (d XOR a))) + x + ac) c s) c d"
  by (simp_all add: FF_def S_def W_F mix)

lemma GG_S:
  "GG RA RB RC RD (W x) s (W ac) (S a b c d) =
     S (mix a ((c XOR (d AND (b XOR c))) + x + ac) b s) b c d"
  "GG RD RA RB RC (W x) s (W ac) (S a b c d) =
     S a b c (mix d ((b XOR (c AND (a XOR b))) + x + ac) a s)"
  "GG RC RD RA RB (W x) s (W ac) (S a b c d) =
     S a b (mix c ((a XOR (b AND (d XOR a))) + x + ac) d s) d"
  "GG RB RC RD RA (W x) s (W ac) (S a b c d) =
     S a (mix b ((d XOR (a AND (c XOR d))) + x + ac) c s) c d"
  by (simp_all add: GG_def S_def W_G mix)

lemma HH_S:
  "HH RA RB RC RD (W x) s (W ac) (S a b c d) =
     S (mix a ((b XOR c XOR d) + x + ac) b s) b c d"
  "HH RD RA RB RC (W x) s (W ac) (S a b c d) =
     S a b c (mix d ((a XOR b XOR c) + x + ac) a s)"
  "HH RC RD RA RB (W x) s (W ac) (S a b c d) =
     S a b (mix c ((d XOR a XOR b) + x + ac) d s) d"
  "HH RB RC RD RA (W x) s (W ac) (S a b c d) =
     S a (mix b ((c XOR d XOR a) + x + ac) c s) c d"
  by (simp_all add: HH_def S_def W_H mix)

lemma II_S:
  "II RA RB RC RD (W x) s (W ac) (S a b c d) =
     S (mix a ((c XOR (b OR (d XOR 4294967295))) + x + ac) b s) b c d"
  "II RD RA RB RC (W x) s (W ac) (S a b c d) =
     S a b c (mix d ((b XOR (a OR (c XOR 4294967295))) + x + ac) a s)"
  "II RC RD RA RB (W x) s (W ac) (S a b c d) =
     S a b (mix c ((a XOR (d OR (b XOR 4294967295))) + x + ac) d s) d"
  "II RB RC RD RA (W x) s (W ac) (S a b c d) =
     S a (mix b ((d XOR (c OR (a XOR 4294967295))) + x + ac) c s) c d"
  by (simp_all add: II_def S_def W_I mix)

lemma op_numeral:
  "FF a b c d (W x) s (numeral n) r = FF a b c d (W x) s (W (numeral n)) r"
  "GG a b c d (W x) s (numeral n) r = GG a b c d (W x) s (W (numeral n)) r"
  "HH a b c d (W x) s (numeral n) r = HH a b c d (W x) s (W (numeral n)) r"
  "II a b c d (W x) s (numeral n) r = II a b c d (W x) s (W (numeral n)) r"
  by (simp_all only: W_numeral)

lemmas eval_simps = op_numeral FF_S GG_S HH_S II_S mix_def

lemma S_init: "md5_init_regs = S 0x67452301 0xEFCDAB89 0x98BADCFE 0x10325476"
  by (simp add: md5_init_regs_def S_def W_def)

definition abc_words :: "u32 list" where
  "abc_words = [W 0x80636261, W 0, W 0, W 0, W 0, W 0, W 0, W 0, W 0, W 0, W 0, W 0, W 0, W 0, W 24, W 0]"

lemma abc_round1:
  "fold (\<lambda>op. op) (md5_round1 abc_words) (S 0x67452301 0xEFCDAB89 0x98BADCFE 0x10325476) =
     S 0xdda9b9a6 0x72aff2e0 0xe396856b 0xa1051895"
  by (simp add: abc_words_def md5_round1_def eval_simps)

lemma abc_round2:
  "fold (\<lambda>op. op) (md5_round2 abc_words) (S 0xdda9b9a6 0x72aff2e0 0xe396856b 0xa1051895) =
     S 0x790a77fb 0x726342d3 0xa62884aa 0x9f47e4f8"
  by (simp add: abc_words_def md5_round2_def eval_simps)

lemma abc_round3:
  "fold (\<lambda>op. op) (md5_round3 abc_words) (S 0x790a77fb 0x726342d3 0xa62884aa 0x9f47e4f8) =
     S 0x7f2e507b 0x7beb9700 0x8fae6399 0x99d9679d"
  by (simp add: abc_words_def md5_round3_def eval_simps)

lemma abc_round4:
  "fold (\<lambda>op. op) (md5_round4 abc_words) (S 0x7f2e507b 0x7beb9700 0x8fae6399 0x99d9679d) =
     S 0x310ade8f 0xc08226b3 0xe484b9d8 0x624d8cb2"
  by (simp add: abc_words_def md5_round4_def eval_simps)

lemma abc_transform:
  "fold (\<lambda>op. op) (md5_ops abc_words) md5_init_regs = S 0x310ade8f 0xc08226b3 0xe484b9d8 0x624d8cb2"
  by (simp only: md5_ops_def fold_append o_apply S_init abc_round1 abc_round2 abc_round3 abc_round4)

lemma abc_pad:
  "md5_pad (cs ''abc'') = [0x61, 0x62, 0x63, 0x80,
     0, 0, 0, 0, 0, 0, 0, 0, 0, 0, 0, 0, 0, 0, 0, 0, 0, 0, 0, 0, 0, 0, 0, 0, 0, 0,
     0, 0, 0, 0, 0, 0, 0, 0, 0, 0, 0, 0, 0, 0, 0, 0, 0, 0, 0, 0, 0, 0, 0, 0, 0, 0, 24, 0, 0, 0, 0, 0, 0, 0]"
proof -
  have "bzero 52 = [0, 0, 0, 0, 0, 0, 0, 0, 0, 0, 0, 0, 0, 0, 0, 0, 0, 0, 0, 0, 0, 0, 0, 0, 0, 0,
     0, 0, 0, 0, 0, 0, 0, 0, 0, 0, 0, 0, 0, 0, 0, 0, 0, 0, 0, 0, 0, 0, 0, 0, 0, 0]"
    by (simp add: bzero_def numeral_eq_Suc)
  then show ?thesis
    by (simp add: md5_pad_def cs_def of_char_def Let_def le64_def le32_def)
qed

lemma abc_decode: "MD5Decode (md5_pad (cs ''abc'')) 64 = Some abc_words"
  using MD5Decode_eq [of "md5_pad (cs ''abc'')" 16]
  unfolding abc_pad by (simp add: abc_words_def W_def upt_rec)

text \<open>The digest of a message of one block, from its words and the state after the four rounds.\<close>

lemma md5_digest_one_block:
  assumes "length (md5_pad m) = 64" "MD5Decode (md5_pad m) 64 = Some ws"
    "fold (\<lambda>op. op) (md5_ops ws) md5_init_regs = S a b c d"
  shows "md5_digest m = concat (map le32 [W (0x67452301 + a), W (0xEFCDAB89 + b), W (0x98BADCFE + c), W (0x10325476 + d)])"
proof -
  let ?r = "S a b c d" and ?i = md5_init_regs
  have "MD5Transform ?i (md5_pad m) = Some (md5_fold ?i (md5_pad m))"
    by (simp add: MD5Transform_eq md5_fold_block assms(1))
  moreover have "MD5Transform ?i (md5_pad m) =
      Some \<lparr>reg_a = reg_a ?i + reg_a ?r, reg_b = reg_b ?i + reg_b ?r,
        reg_c = reg_c ?i + reg_c ?r, reg_d = reg_d ?i + reg_d ?r\<rparr>"
    by (simp only: MD5Transform_def assms(2,3) Let_def bind.bind_lunit)
  ultimately have "md5_fold ?i (md5_pad m) = S (0x67452301 + a) (0xEFCDAB89 + b) (0x98BADCFE + c) (0x10325476 + d)"
    by (simp add: md5_init_regs_def S_def W_def)
  then show ?thesis by (simp add: md5_digest_def state_words_def S_def)
qed

lemma md5_digest_abc:
  "md5_digest (cs ''abc'') =
     [0x90, 0x01, 0x50, 0x98, 0x3c, 0xd2, 0x4f, 0xb0, 0xd6, 0x96, 0x3f, 0x7d, 0x28, 0xe1, 0x7f, 0x72]"
proof -
  have "length (md5_pad (cs ''abc'')) = 64" by (simp add: abc_pad)
  from md5_digest_one_block [OF this abc_decode abc_transform] show ?thesis by (simp add: W_def le32_def)
qed

text \<open>The same for the three repetitions of these bytes.\<close>

definition abc3_words :: "u32 list" where
  "abc3_words = [W 0x61636261, W 0x62616362, W 0x8063, W 0, W 0, W 0, W 0, W 0, W 0, W 0, W 0, W 0, W 0, W 0, W 72, W 0]"

lemma abc3_round1:
  "fold (\<lambda>op. op) (md5_round1 abc3_words) (S 0x67452301 0xEFCDAB89 0x98BADCFE 0x10325476) =
     S 0xe803b411 0xad55231b 0x0aab4930 0xd6c2d56f"
  by (simp add: abc3_words_def md5_round1_def eval_simps)

lemma abc3_round2:
  "fold (\<lambda>op. op) (md5_round2 abc3_words) (S 0xe803b411 0xad55231b 0x0aab4930 0xd6c2d56f) =
     S 0x7b838698 0xb574d184 0x0512c7e3 0x387388a7"
  by (simp add: abc3_words_def md5_round2_def eval_simps)

lemma abc3_round3:
  "fold (\<lambda>op. op) (md5_round3 abc3_words) (S 0x7b838698 0xb574d184 0x0512c7e3 0x387388a7) =
     S 0x9120a7be 0x6cb754fb 0xff22a1ab 0xaba76283"
  by (simp add: abc3_words_def md5_round3_def eval_simps)

lemma abc3_round4:
  "fold (\<lambda>op. op) (md5_round4 abc3_words) (S 0x9120a7be 0x6cb754fb 0xff22a1ab 0xaba76283) =
     S 0x3e3d8996 0xae557a2f 0xa048507a 0x0087836c"
  by (simp add: abc3_words_def md5_round4_def eval_simps)

lemma abc3_pad:
  "md5_pad (cs ''abcabcabc'') = [0x61, 0x62, 0x63, 0x61, 0x62, 0x63, 0x61, 0x62, 0x63, 0x80, 0, 0, 0, 0, 0, 0, 0, 0, 0, 0, 0, 0,
     0, 0, 0, 0, 0, 0, 0, 0, 0, 0, 0, 0, 0, 0, 0, 0, 0, 0, 0, 0, 0, 0, 0, 0, 0, 0, 0, 0, 0, 0, 0, 0,
     0, 0, 72, 0, 0, 0, 0, 0, 0, 0]"
proof -
  have "bzero 46 = [0, 0, 0, 0, 0, 0, 0, 0, 0, 0, 0, 0, 0, 0, 0, 0, 0, 0, 0, 0, 0, 0, 0, 0, 0, 0, 0, 0, 0, 0, 0, 0, 0, 0, 0, 0, 0, 0, 0, 0, 0, 0, 0, 0, 0, 0]"
    by (simp add: bzero_def numeral_eq_Suc)
  then show ?thesis
    by (simp add: md5_pad_def cs_def of_char_def Let_def le64_def le32_def)
qed

lemma md5_digest_abc3:
  "md5_digest (cs ''abcabcabc'') = [0x97, 0xac, 0x82, 0xa5, 0xb8, 0x25, 0x23, 0x9e, 0x78, 0x2d, 0x03, 0x39, 0xe2, 0xd7, 0xb9, 0x10]"
proof -
  have "length (md5_pad (cs ''abcabcabc'')) = 64" by (simp add: abc3_pad)
  moreover have "MD5Decode (md5_pad (cs ''abcabcabc'')) 64 = Some abc3_words"
    using MD5Decode_eq [of "md5_pad (cs ''abcabcabc'')" 16]
    unfolding abc3_pad by (simp add: abc3_words_def W_def upt_rec)
  moreover have "fold (\<lambda>op. op) (md5_ops abc3_words) md5_init_regs = S 0x3e3d8996 0xae557a2f 0xa048507a 0x0087836c"
    by (simp only: md5_ops_def fold_append o_apply S_init abc3_round1 abc3_round2 abc3_round3 abc3_round4)
  ultimately show ?thesis by (simp add: md5_digest_one_block W_def le32_def)
qed

end
