(* ===== verification/MD5_File.thy ===== *)
theory MD5_File
  imports MD5_Eval
begin

text \<open>
  MD5_file of md5/main.c on top of md5.c: the read loop, the locale of incremental hash
  functions in which it is proved, the interpretation on MD5Init, MD5Update and MD5Final, and
  the properties of the digest. The same loop, with OpenSSL's functions in place of md5.c, is
  the MD5_file of the udp file transfer.
\<close>

section \<open>The model\<close>

text \<open>
  What successive calls of read(2) on the open file return: an error (a negative value) or the
  bytes it stored, none at the end of the file. After the last element every read returns 0.
\<close>

datatype read_result = Read_error | Read bytes

text \<open>The bytes delivered before the first error or end of file.\<close>

fun delivered :: "read_result list \<Rightarrow> bytes" where
  "delivered (Read bs # rs) = (if bs = [] then [] else bs @ delivered rs)"
| "delivered _ = []"

fun reads_fit :: "nat \<Rightarrow> read_result list \<Rightarrow> bool" where
  "reads_fit n [] \<longleftrightarrow> True"
| "reads_fit n (Read_error # rs) \<longleftrightarrow> reads_fit n rs"
| "reads_fit n (Read bs # rs) \<longleftrightarrow> length bs \<le> n \<and> reads_fit n rs"

text \<open>
  \<open>while(1) { rval = read(fd, buf, sizeof(buf)); if (rval <= 0) break; update(&ctx, buf, rval); }\<close>
\<close>

fun hash_loop :: "('c \<Rightarrow> bytes \<Rightarrow> u32 \<Rightarrow> 'c option) \<Rightarrow> bytes \<Rightarrow> read_result list \<Rightarrow> 'c \<Rightarrow> 'c option"
where
  "hash_loop upd buf [] ctx = Some ctx"
| "hash_loop upd buf (Read_error # rs) ctx = Some ctx"
| "hash_loop upd buf (Read bs # rs) ctx =
     (if bs = [] then Some ctx
      else do {
        buf \<leftarrow> mem_put buf 0 bs;
        ctx \<leftarrow> upd ctx buf (of_nat (length bs));
        hash_loop upd buf rs ctx
      })"

text \<open>
  MD5_file: fd is what open returned, ctx and buf are the uninitialised locals, output the
  caller's buffer. The result is the return value and the contents of output.
\<close>

definition MD5_file ::
  "MD5_CTX \<Rightarrow> bytes \<Rightarrow> int \<Rightarrow> read_result list \<Rightarrow> bytes \<Rightarrow> (int \<times> bytes) option" where
  "MD5_file ctx buf fd reads output =
     (if fd < 0 then Some (- 1, output)
      else do {
        ctx \<leftarrow> hash_loop MD5Update buf reads (MD5Init ctx);
        (ctx, digest) \<leftarrow> MD5Final ctx;
        output \<leftarrow> mem_put output 0 digest;
        Some (0, output)
      })"

text \<open>The conversion \<open>%2x\<close> of printf for a byte: two columns, padded with a space.\<close>

definition hex_digit :: "nat \<Rightarrow> u8" where
  "hex_digit d = of_nat (if d < 10 then 48 + d else 87 + d)"

definition printf_2x :: "u8 \<Rightarrow> bytes" where
  "printf_2x b = (if b < 16 then [0x20, hex_digit (unat b)]
     else [hex_digit (unat b div 16), hex_digit (unat b mod 16)])"

text \<open>main of md5/main.c: md5output starts as 16 zero bytes and is printed whatever MD5_file returns.\<close>

definition md5_main :: "MD5_CTX \<Rightarrow> bytes \<Rightarrow> int \<Rightarrow> read_result list \<Rightarrow> bytes option" where
  "md5_main ctx buf fd reads = do {
     (_, md5output) \<leftarrow> MD5_file ctx buf fd reads (bzero 16);
     Some (concat (map printf_2x md5output) @ [0x0D, 0x0A])
   }"

section \<open>Incremental hash functions\<close>

locale incremental_hash =
  fixes init :: "'c \<Rightarrow> 'c"
    and upd :: "'c \<Rightarrow> bytes \<Rightarrow> u32 \<Rightarrow> 'c option"
    and fin :: "'c \<Rightarrow> ('c \<times> bytes) option"
    and fresh :: "'c \<Rightarrow> bool"
    and repr :: "'c \<Rightarrow> bytes \<Rightarrow> bool"
    and digest :: "bytes \<Rightarrow> bytes"
    and limit :: nat
  assumes init_repr: "fresh c \<Longrightarrow> repr (init c) []"
    and upd_repr: "repr c msg \<Longrightarrow> unat n \<le> length input \<Longrightarrow> unat n < limit \<Longrightarrow>
      \<exists>c'. upd c input n = Some c' \<and> repr c' (msg @ take (unat n) input)"
    and fin_digest: "repr c msg \<Longrightarrow> \<exists>c'. fin c = Some (c', digest msg)"
begin

lemma hash_loop_repr:
  assumes "repr c msg" "reads_fit (length buf) reads" "length buf < limit" "length buf < 2 ^ 32"
  shows "\<exists>c'. hash_loop upd buf reads c = Some c' \<and> repr c' (msg @ delivered reads)"
  using assms
proof (induction reads arbitrary: buf c msg)
  case (Cons rd rs)
  show ?case
  proof (cases "rd = Read_error \<or> rd = Read []")
    case True
    with Cons.prems show ?thesis by auto
  next
    case False
    then obtain bs where bs: "rd = Read bs" "bs \<noteq> []" by (cases rd) auto
    let ?buf = "bs @ drop (length bs) buf"
    from bs Cons.prems have l: "length bs \<le> length buf" by simp
    then have put: "mem_put buf 0 bs = Some ?buf" by (simp add: mem_put_def)
    have n: "unat (of_nat (length bs) :: u32) = length bs"
      using l Cons.prems by (simp add: unat_of_nat)
    obtain c1 where c1: "upd c ?buf (of_nat (length bs)) = Some c1" "repr c1 (msg @ bs)"
      using upd_repr [OF Cons.prems(1), of "of_nat (length bs)" ?buf] l Cons.prems(3)
      by (auto simp: n)
    have "length ?buf = length buf" using l by simp
    with Cons.IH [OF c1(2), of ?buf] Cons.prems bs put c1(1) show ?thesis
      by simp
  qed
qed simp

text \<open>Any way of cutting a message into reads gives the digest of the whole message.\<close>

lemma hash_stream:
  assumes "fresh c" "reads_fit (length buf) reads" "length buf < limit" "length buf < 2 ^ 32"
  shows "\<exists>c1 c2. hash_loop upd buf reads (init c) = Some c1 \<and> fin c1 = Some (c2, digest (delivered reads))"
  using hash_loop_repr [OF init_repr [OF assms(1)] assms(2-4)] fin_digest by force

end

interpretation md5c: incremental_hash MD5Init MD5Update MD5Final
  "\<lambda>c. length (buffer c) = 64" md5_repr md5_digest "2 ^ 32 - 64"
  by unfold_locales (use md5_repr_init md5_update_repr MD5Final_digest in blast)+

section \<open>Properties\<close>

lemma delivered_map_Read:
  "[] \<notin> set bss \<Longrightarrow> delivered (map Read bss) = concat bss"
  by (induction bss) auto

lemma length_md5_digest [simp]: "length (md5_digest msg) = 16"
  by (simp add: md5_digest_def state_words_def)

text \<open>C7. MD5Transform, with its 64 unrolled macro calls on four rotating variables, computes the
  compression function of RFC 1321 written as a loop over 64 steps with tables of constants,
  shifts and word indices; it fails only when fewer than 64 bytes can be read.\<close>

theorem MD5Transform_refines_RFC1321:
  "MD5Transform st block =
     (if 64 \<le> length block then Some (md5_compress st (take 64 block)) else None)"
  by (rule MD5Transform_eq)

text \<open>C5. MD5_file returns 0 and stores the digest of exactly the bytes delivered by read, however
  the file is cut into reads of at most the size of the buffer; nothing outside a buffer is
  accessed.\<close>

theorem MD5_file_digest:
  assumes "0 \<le> fd" "length (buffer ctx) = 64" "length buf = 4096" "reads_fit 4096 reads"
    and "16 \<le> length output"
  shows "MD5_file ctx buf fd reads output =
     Some (0, md5_digest (delivered reads) @ drop 16 output)"
proof -
  from md5c.hash_stream [OF assms(2), of buf reads] assms obtain c1 c2 where
    "hash_loop MD5Update buf reads (MD5Init ctx) = Some c1"
    "MD5Final c1 = Some (c2, md5_digest (delivered reads))"
    by auto
  with assms show ?thesis by (simp add: MD5_file_def mem_put_def)
qed

text \<open>The test vector of RFC 1321 for the message abc, in two reads.\<close>

theorem MD5_file_digest_witness:
  "MD5_file (MD5Init \<lparr>count0 = 0, count1 = 0, state = md5_init_regs, buffer = bzero 64\<rparr>) (bzero 4096) 3
     [Read (cs ''a''), Read (cs ''bc''), Read []] (bzero 16) =
   Some (0, [0x90, 0x01, 0x50, 0x98, 0x3c, 0xd2, 0x4f, 0xb0, 0xd6, 0x96, 0x3f, 0x7d, 0x28, 0xe1, 0x7f, 0x72])"
proof -
  have "cs ''a'' @ cs ''bc'' = cs ''abc''" "cs ''a'' \<noteq> []" "cs ''bc'' \<noteq> []"
    "length (cs ''a'') \<le> 4096" "length (cs ''bc'') \<le> 4096"
    by (simp_all add: cs_def)
  then show ?thesis
    by (subst MD5_file_digest) (simp_all add: MD5Init_def md5_digest_abc)
qed

text \<open>A read error in the middle of the file is not reported: MD5_file returns 0 with the digest
  of the part read before, the same result as for a file that ends there.\<close>

theorem MD5_file_ignores_read_error:
  "MD5_file ctx buf fd (map Read bss @ Read_error # rest) output =
   MD5_file ctx buf fd (map Read bss @ [Read []]) output"
proof -
  have "hash_loop MD5Update b (map Read bss @ Read_error # rest) c =
        hash_loop MD5Update b (map Read bss @ [Read []]) c" for b c
    by (induction bss arbitrary: b c) (auto split: bind_splits)
  then show ?thesis by (simp only: MD5_file_def)
qed

text \<open>Encoding words to bytes and decoding them gives the words back.\<close>

theorem MD5Decode_MD5Encode:
  "\<exists>bs. MD5Encode ws (4 * length ws) = Some bs \<and> MD5Decode bs (4 * length ws) = Some ws"
proof -
  have "MD5Encode ws (4 * length ws) = Some (concat (map le32 ws))"
    by (simp add: MD5Encode_eq)
  then show ?thesis using MD5_Decode_Encode by blast
qed

lemma md5_update_loop_wraps:
  assumes "64 dvd unat i" "length input < 2 ^ 32" "2 ^ 32 - 64 \<le> unat n"
  shows "md5_update_loop input n i st = None"
  using assms
proof (induction "2 ^ 32 - unat i" arbitrary: i st rule: less_induct)
  case less
  have i: "unat i \<le> 2 ^ 32 - 64" using less.prems(1) u32_bound [of i] by (auto elim!: dvdE)
  show ?case
  proof (cases "unat i = 2 ^ 32 - 64")
    case True
    then have "unat (i + 64) = 0" by (simp add: unat_word_ariths)
    then have "i + 64 \<le> n" by (simp add: word_le_nat_alt)
    moreover have "MD5Transform st (drop (unat i) input) = None"
      using True less.prems(2) by (simp add: MD5Transform_eq)
    ultimately show ?thesis by (simp add: md5_update_loop.simps [of input n i])
  next
    case False
    with i have u: "unat (i + 64) = unat i + 64" and l: "unat i + 64 \<le> 2 ^ 32 - 64"
      using less.prems(1) by (auto simp: unat_word_ariths elim!: dvdE)
    then have "i + 64 \<le> n" using less.prems(3) by (simp add: word_le_nat_alt)
    moreover have "md5_update_loop input n (i + 64) st' = None" for st'
      by (rule less.hyps) (use less.prems u l i in auto)
    ultimately show ?thesis
      by (simp add: md5_update_loop.simps [of input n i] split: option.split)
  qed
qed

text \<open>For an input of 4294967232 bytes or more the 32-bit counter of MD5Update wraps around, the
  loop does not stop at the end of the input and reads past it.\<close>

theorem MD5Update_length_wraps:
  assumes "md5_repr ctx msg" "64 dvd length msg" "2 ^ 32 - 64 \<le> unat n" "length input = unat n"
  shows "MD5Update ctx input n = None"
proof -
  have "unat (drop_bit 3 (count0 ctx) AND 0x3F) = 0"
    using md5_index_eq [of "count0 ctx" "count1 ctx" "length msg"] assms(1,2)
    by (simp only: md5_repr_def) (simp only: dvd_eq_mod_eq_0)
  then have "drop_bit 3 (count0 ctx) AND 0x3F = 0" by (simp only: unsigned_eq_0_iff)
  moreover have "md5_update_loop input n 64 st = None" for st
    using md5_update_loop_wraps [of 64 input n] assms(3,4) u32_bound [of n] by simp
  moreover have "64 \<le> n" using assms(3) by (simp add: word_le_nat_alt)
  ultimately show ?thesis
    by (simp add: MD5Update_def Let_def split: bind_splits)
qed

theorem MD5Update_length_wraps_witness:
  "MD5Update (MD5Init \<lparr>count0 = 0, count1 = 0, state = md5_init_regs, buffer = bzero 64\<rparr>)
     (bzero 4294967232) 4294967232 = None"
  by (rule MD5Update_length_wraps [OF md5_repr_init]) simp_all

end
