(* ===== verification/Strtok.thy ===== *)
theory Strtok
  imports Prelude
begin

text \<open>
  strtok/strtok.c and strtok/strtok_c.c: splitting a string in place into an array of pointers.
  strtok and strtok_r of the C library are modelled on the buffer, with pointers as indices;
  \<open>tokens\<close> is the list of tokens they are meant to deliver.
\<close>

section \<open>The C library\<close>

text \<open>
  strtok_r scans on from the index p: it skips delimiters, cuts the token off by writing a zero
  over the delimiter behind it and returns the new buffer, the token and the index to go on
  from. The value None is a buffer without a terminator.
\<close>

definition strtok_r :: "bytes \<Rightarrow> bytes \<Rightarrow> nat \<Rightarrow> (bytes \<times> nat option \<times> nat) option" where
  "strtok_r delim buf p =
     (if terminated (drop p buf)
      then (let s = cstr (drop p buf);
                t = dropWhile (\<lambda>c. c \<in> set delim) s;
                i = p + (length s - length t);
                e = i + length (takeWhile (\<lambda>c. c \<notin> set delim) t)
            in if t = [] then Some (buf, None, i)
               else if buf ! e = 0 then Some (buf, Some i, e)
               else Some (buf[e := 0], Some i, Suc e))
      else None)"

function tokens :: "bytes \<Rightarrow> bytes \<Rightarrow> bytes list" where
  "tokens d s =
     (let t = dropWhile (\<lambda>c. c \<in> set d) s; w = takeWhile (\<lambda>c. c \<notin> set d) t
      in if t = [] then [] else w # tokens d (drop (Suc (length w)) t))"
  by pat_completeness auto
termination
proof (relation "measure (\<lambda>(d, s). length s)")
  fix d s t w :: bytes
  assume "t = dropWhile (\<lambda>c. c \<in> set d) s" "t \<noteq> []"
  then have "0 < length t" "length t \<le> length s" by (simp_all add: length_dropWhile_le)
  then show "((d, drop (Suc (length w)) t), d, s) \<in> measure (\<lambda>(d, s). length s)"
    by (cases t) auto
qed simp

declare tokens.simps [simp del]

section \<open>strtok.c and strtok_c.c\<close>

text \<open>
  The loop of stringtoarray: \<open>*(saveptr+num) = pch; num++; pch = strtok(NULL, delim)\<close>. A store
  behind the end of saveptr is undefined.
\<close>

function strtok_loop ::
  "bytes \<Rightarrow> bytes \<Rightarrow> nat option \<Rightarrow> nat \<Rightarrow> nat \<Rightarrow> nat list \<Rightarrow> (nat \<times> bytes \<times> nat list) option"
where
  "strtok_loop delim buf None p num saveptr = Some (num, buf, saveptr)"
| "strtok_loop delim buf (Some pch) p num saveptr =
     (if num < length saveptr
      then (case strtok_r delim buf p of
              None \<Rightarrow> None
            | Some (buf', pch', p') \<Rightarrow>
                strtok_loop delim buf' pch' p' (Suc num) (saveptr[num := pch]))
      else None)"
  by pat_completeness auto
termination
  by (relation "measure (\<lambda>(d, buf, pch, p, num, sp). length sp - num)") auto

definition stringtoarray :: "bytes \<Rightarrow> bytes \<Rightarrow> nat list \<Rightarrow> (nat \<times> bytes \<times> nat list) option" where
  "stringtoarray str delim saveptr = do {
     (buf, pch, p) \<leftarrow> strtok_r delim str 0;
     strtok_loop (cs '' ,.-'') buf pch p 0 saveptr
   }"

definition stringtoarray_r :: "bytes \<Rightarrow> bytes \<Rightarrow> nat list \<Rightarrow> (nat \<times> bytes \<times> nat list) option" where
  "stringtoarray_r str delim out = do {
     (buf, token, saveptr1) \<leftarrow> strtok_r delim str 0;
     strtok_loop delim buf token saveptr1 0 out
   }"

section \<open>The tokens delivered\<close>

text \<open>The tokens when the first call uses the delimiters d1 and the later ones d2.\<close>

definition first_tokens :: "bytes \<Rightarrow> bytes \<Rightarrow> bytes \<Rightarrow> bytes list" where
  "first_tokens d1 d2 s =
     (let t = dropWhile (\<lambda>c. c \<in> set d1) s; w = takeWhile (\<lambda>c. c \<notin> set d1) t
      in if t = [] then [] else w # tokens d2 (drop (Suc (length w)) t))"

lemma first_tokens_same [simp]: "first_tokens d d s = tokens d s"
  by (simp add: first_tokens_def tokens.simps [of d s])

lemma tokens_Nil [simp]: "tokens d [] = []"
  by (simp add: tokens.simps)

lemma strtok_r_nil: "strtok_r d (A @ 0 # R) (length A) = Some (A @ 0 # R, None, length A)"
  by (simp add: strtok_r_def terminated_def cstr_def)

text \<open>One call on a buffer that holds the string S from the index on.\<close>

lemma strtok_r_cases:
  assumes "0 \<notin> set S"
  obtains (none) "first_tokens d d2 S = []"
      "strtok_r d (A @ S @ 0 # R) (length A) = Some (A @ S @ 0 # R, None, length A + length S)"
  | (last) X w where "S = X @ w" "first_tokens d d2 S = [w]" "0 \<notin> set w"
      "strtok_r d (A @ S @ 0 # R) (length A) =
         Some (A @ S @ 0 # R, Some (length (A @ X)), length (A @ X @ w))"
  | (cut) X w c T where "S = X @ w @ c # T" "first_tokens d d2 S = w # tokens d2 T" "0 \<notin> set w"
      "strtok_r d (A @ S @ 0 # R) (length A) =
         Some (A @ X @ w @ 0 # T @ 0 # R, Some (length (A @ X)), length (A @ X @ w @ [0 :: u8]))"
proof -
  define X where "X = takeWhile (\<lambda>c. c \<in> set d) S"
  define t where "t = dropWhile (\<lambda>c. c \<in> set d) S"
  define w where "w = takeWhile (\<lambda>c. c \<notin> set d) t"
  define t' where "t' = dropWhile (\<lambda>c. c \<notin> set d) t"
  have S: "S = X @ t" and t: "t = w @ t'" by (simp_all add: X_def t_def w_def t'_def)
  have lX: "length S - length t = length X" by (simp add: S)
  have c: "cstr (drop (length A) (A @ S @ 0 # R)) = S"
    using assms by (simp add: cstr_append_zero)
  have dt: "drop (Suc (length w)) t = drop 1 t'" by (simp add: t)
  have w0: "0 \<notin> set w" using assms S t by auto
  have unf: "strtok_r d (A @ S @ 0 # R) (length A) =
      (let i = length A + length X; e = i + length w; buf = A @ S @ 0 # R in
       if t = [] then Some (buf, None, i) else if buf ! e = 0 then Some (buf, Some i, e)
       else Some (buf[e := 0], Some i, Suc e))"
    unfolding strtok_r_def c Let_def t_def [symmetric] w_def [symmetric] lX
    by (simp add: terminated_def)
  have ft: "first_tokens d d2 S = (if t = [] then [] else w # tokens d2 (drop 1 t'))"
    unfolding first_tokens_def Let_def t_def [symmetric] w_def [symmetric] dt ..
  show thesis
  proof (cases "t = []")
    case True
    then have "length X = length S" by (simp only: S append_Nil2)
    with True unf have "strtok_r d (A @ S @ 0 # R) (length A) =
        Some (A @ S @ 0 # R, None, length A + length S)" by simp
    moreover have "first_tokens d d2 S = []" using ft True by simp
    ultimately show thesis by (rule none [rotated])
  next
    case False
    show thesis
    proof (cases t')
      case Nil
      then have "(A @ S @ 0 # R) ! (length A + length X + length w) = 0"
        by (simp add: S t nth_append)
      with unf False have "strtok_r d (A @ S @ 0 # R) (length A) =
          Some (A @ S @ 0 # R, Some (length (A @ X)), length (A @ X @ w))"
        by (simp add: S t Nil Let_def)
      moreover have "first_tokens d d2 S = [w]" using ft False Nil by simp
      moreover have "S = X @ w" by (simp add: S t Nil)
      ultimately show thesis using w0 by (intro last [of X w])
    next
      case (Cons c T)
      have "c \<noteq> 0" using assms by (auto simp: S t Cons)
      moreover have "(A @ S @ 0 # R) ! (length A + length X + length w) = c"
        "(A @ S @ 0 # R)[length A + length X + length w := 0] = A @ X @ w @ 0 # T @ 0 # R"
        by (simp_all add: S t Cons nth_append list_update_append)
      ultimately have "strtok_r d (A @ S @ 0 # R) (length A) =
          Some (A @ X @ w @ 0 # T @ 0 # R, Some (length (A @ X)), length (A @ X @ w @ [0 :: u8]))"
        using unf False by (simp add: S t Cons Let_def)
      moreover have "first_tokens d d2 S = w # tokens d2 T" using ft False Cons by simp
      moreover have "S = X @ w @ c # T" by (simp add: S t Cons)
      ultimately show thesis using w0 by (intro cut [of X w c T])
    qed
  qed
qed

lemma strtok_loop_Some:
  "strtok_loop d b (Some i) p n sp =
     (if n < length sp
      then Option.bind (strtok_r d b p) (\<lambda>(b, t, q). strtok_loop d b t q (Suc n) (sp[n := i]))
      else None)"
  by (auto split: option.splits bind_splits)

lemma take_Suc_update:
  assumes "n < length xs" "take (Suc n) ys = take (Suc n) (xs[n := x])" "length ys = length xs"
  shows "take n ys = take n xs" "drop n ys = x # drop (Suc n) ys"
proof -
  have "take n ys = take n (take (Suc n) ys)" by (simp add: min_def)
  also have "\<dots> = take n xs" unfolding assms(2) by (simp add: min_def)
  finally show "take n ys = take n xs" .
  have "ys ! n = (take (Suc n) ys) ! n" by simp
  also have "\<dots> = x" unfolding assms(2) using assms(1) by simp
  finally show "drop n ys = x # drop (Suc n) ys"
    using assms(1,3) Cons_nth_drop_Suc [of n ys] by simp
qed

lemma strtok_loop_tokens:
  assumes "0 \<notin> set S" "n + length (first_tokens d1 d S) \<le> length sp"
  shows "\<exists>S' sp'. do { (b, t, q) \<leftarrow> strtok_r d1 (A @ S @ 0 # R) (length A); strtok_loop d b t q n sp } =
      Some (n + length (first_tokens d1 d S), A @ S' @ 0 # R, sp') \<and>
    length S' = length S \<and> length sp' = length sp \<and> take n sp' = take n sp \<and>
    map (\<lambda>i. cstr (drop i (A @ S' @ 0 # R))) (take (length (first_tokens d1 d S)) (drop n sp')) =
      first_tokens d1 d S"
  using assms
proof (induction "length S" arbitrary: S A n sp d1 rule: less_induct)
  case less
  from less.prems(1) show ?case
  proof (cases rule: strtok_r_cases [where d = d1 and A = A and R = R and ?d2.0 = d])
    case none
    with less.prems show ?thesis by auto
  next
    case (last X w)
    have "strtok_r d (A @ S @ 0 # R) (length (A @ X @ w)) =
        Some (A @ S @ 0 # R, None, length (A @ X @ w))"
      using strtok_r_nil [of d "A @ X @ w" R] by (simp add: last(1))
    moreover have "cstr (drop (length (A @ X)) (A @ S @ 0 # R)) = w"
      by (simp add: last(1) cstr_append_zero [OF last(3)])
    moreover have "n < length sp" using less.prems(2) last(2) by simp
    ultimately show ?thesis
      by (intro exI [of _ S] exI [of _ "sp[n := length (A @ X)]"])
        (simp add: last(2,4) take_Suc_conv_app_nth Cons_nth_drop_Suc [symmetric])
  next
    case (cut X w c T)
    have n: "n < length sp" using less.prems(2) cut(2) by simp
    let ?sp = "sp[n := length (A @ X)]" and ?A = "A @ X @ w @ [0]"
    have "length T < length S" "0 \<notin> set T" "Suc n + length (first_tokens d d T) \<le> length ?sp"
      using less.prems cut(1,2) by auto
    from less.hyps [OF this, of ?A] obtain S' sp' where
      run: "do { (b, t, q) \<leftarrow> strtok_r d (?A @ T @ 0 # R) (length ?A); strtok_loop d b t q (Suc n) ?sp } =
        Some (Suc n + length (tokens d T), ?A @ S' @ 0 # R, sp')"
      and l: "length S' = length T" "length sp' = length sp"
      and tk: "take (Suc n) sp' = take (Suc n) ?sp"
      and m: "map (\<lambda>i. cstr (drop i (?A @ S' @ 0 # R))) (take (length (tokens d T)) (drop (Suc n) sp')) =
        tokens d T"
      by auto
    note u = take_Suc_update [OF n tk l(2)]
    let ?S = "X @ w @ 0 # S'"
    have "do { (b, t, q) \<leftarrow> strtok_r d1 (A @ S @ 0 # R) (length A); strtok_loop d b t q n sp } =
        Some (n + length (first_tokens d1 d S), A @ ?S @ 0 # R, sp')"
      using run n by (simp add: cut(2,4) strtok_loop_Some del: strtok_loop.simps(2))
    moreover have "cstr (drop (length (A @ X)) (A @ ?S @ 0 # R)) = w"
      by (simp add: cstr_append_zero [OF cut(3)])
    ultimately show ?thesis using l u m cut(1) unfolding cut(2)
      by (intro exI [of _ ?S] exI [of _ sp']) simp
  qed
qed

lemma strtok_loop_overflow:
  assumes "0 \<notin> set S" "length sp < n + length (first_tokens d1 d S)" "n \<le> length sp"
  shows "do { (b, t, q) \<leftarrow> strtok_r d1 (A @ S @ 0 # R) (length A); strtok_loop d b t q n sp } = None"
  using assms
proof (induction "length S" arbitrary: S A n sp d1 rule: less_induct)
  case less
  from less.prems(1) show ?case
  proof (cases rule: strtok_r_cases [where d = d1 and A = A and R = R and ?d2.0 = d])
    case none
    with less.prems show ?thesis by simp
  next
    case (last X w)
    then show ?thesis using less.prems(2,3) by simp
  next
    case (cut X w c T)
    show ?thesis
    proof (cases "n < length sp")
      case True
      have "length T < length S" "0 \<notin> set T" using less.prems cut(1) by auto
      from less.hyps [OF this, of "sp[n := length (A @ X)]" "Suc n" d "A @ X @ w @ [0]"]
      show ?thesis using True less.prems(2) cut(2)
        by (simp add: cut(4) strtok_loop_Some del: strtok_loop.simps(2))
    qed (simp add: cut(4))
  qed
qed

section \<open>Properties\<close>

lemma stringtoarray_r_spec:
  assumes "terminated str" "length (tokens delim (cstr str)) \<le> length out"
  shows "\<exists>str' out'. stringtoarray_r str delim out = Some (length (tokens delim (cstr str)), str', out') \<and>
    length str' = length str \<and> length out' = length out \<and>
    map (\<lambda>i. cstr (drop i str')) (take (length (tokens delim (cstr str))) out') =
      tokens delim (cstr str)"
proof -
  from assms(1) obtain R where R: "str = cstr str @ 0 # R" by (rule terminatedE)
  have "\<exists>S' sp'. stringtoarray_r (cstr str @ 0 # R) delim out =
      Some (length (tokens delim (cstr str)), S' @ 0 # R, sp') \<and> length S' = length (cstr str) \<and>
      length sp' = length out \<and>
      map (\<lambda>i. cstr (drop i (S' @ 0 # R))) (take (length (tokens delim (cstr str))) sp') =
        tokens delim (cstr str)"
    using strtok_loop_tokens [of "cstr str" 0 delim delim out "[]" R] assms(2)
    by (simp add: stringtoarray_r_def)
  then obtain S' sp' where *: "stringtoarray_r (cstr str @ 0 # R) delim out =
      Some (length (tokens delim (cstr str)), S' @ 0 # R, sp')" "length S' = length (cstr str)"
      "length sp' = length out"
      "map (\<lambda>i. cstr (drop i (S' @ 0 # R))) (take (length (tokens delim (cstr str))) sp') =
        tokens delim (cstr str)" by blast
  moreover have "length (S' @ 0 # R) = length str" using *(2) arg_cong [OF R, of length] by simp
  ultimately show ?thesis unfolding R [symmetric] by blast
qed

text \<open>C16. stringtoarray of strtok_c.c returns the number of tokens and leaves in the array pointers to
  exactly the tokens of the string, in order; it writes behind the array, which is undefined,
  exactly when there are more tokens than pointers.\<close>

theorem stringtoarray_r_tokens:
  assumes "terminated str" "length (tokens delim (cstr str)) \<le> length out"
  shows "\<exists>str' out'. stringtoarray_r str delim out = Some (length (tokens delim (cstr str)), str', out') \<and>
    length str' = length str \<and> length out' = length out \<and>
    map (\<lambda>i. cstr (drop i str')) (take (length (tokens delim (cstr str))) out') =
      tokens delim (cstr str)"
  using assms by (rule stringtoarray_r_spec)

theorem stringtoarray_r_tokens_witness:
  "\<exists>str' out'. stringtoarray_r (cs ''- This, a sample string.'' @ [0]) (cs '' ,.-'') (replicate 10 0) =
       Some (4, str', out') \<and>
     map (\<lambda>i. cstr (drop i str')) (take 4 out') =
       [cs ''This'', cs ''a'', cs ''sample'', cs ''string'']"
proof -
  have s: "terminated (cs ''- This, a sample string.'' @ [0])"
    by (simp add: terminated_def)
  have c: "cstr (cs ''- This, a sample string.'' @ [0]) = cs ''- This, a sample string.''"
    by (simp add: cstr_def cs_def of_char_def)
  have t: "tokens (cs '' ,.-'') (cs ''- This, a sample string.'') =
      [cs ''This'', cs ''a'', cs ''sample'', cs ''string'']"
    by (simp add: tokens.simps cs_def of_char_def Let_def)
  have l: "length [cs ''This'', cs ''a'', cs ''sample'', cs ''string''] = 4" by simp
  have p: "length (tokens (cs '' ,.-'') (cstr (cs ''- This, a sample string.'' @ [0]))) \<le>
      length (replicate 10 (0 :: nat))"
    by (simp add: c t)
  from stringtoarray_r_tokens [OF s p] show ?thesis unfolding c t l
    by (elim exE conjE) (intro exI conjI)
qed

text \<open>The overflow of the array of pointers, the same for both versions of the function.\<close>

theorem stringtoarray_overflow_iff:
  assumes "terminated str"
  shows "stringtoarray str delim saveptr = None \<longleftrightarrow>
    length saveptr < length (first_tokens delim (cs '' ,.-'') (cstr str))"
proof -
  from assms obtain R where R: "str = cstr str @ 0 # R" by (rule terminatedE)
  have "stringtoarray (cstr str @ 0 # R) delim saveptr = None \<longleftrightarrow>
    length saveptr < length (first_tokens delim (cs '' ,.-'') (cstr str))"
    using strtok_loop_tokens [of "cstr str" 0 delim "cs '' ,.-''" saveptr "[]" R]
      strtok_loop_overflow [of "cstr str" saveptr 0 delim "cs '' ,.-''" "[]" R]
    by (cases "length saveptr < length (first_tokens delim (cs '' ,.-'') (cstr str))")
      (auto simp: stringtoarray_def not_less)
  then show ?thesis unfolding R [symmetric] .
qed

theorem stringtoarray_overflow_iff_witness:
  "stringtoarray (cs ''a,b'' @ [0]) (cs '','') [0] = None"
proof -
  have s: "terminated (cs ''a,b'' @ [0])" by (simp add: terminated_def)
  show ?thesis
    using stringtoarray_overflow_iff [OF s, of "cs '',''" "[0]"]
    by (simp add: cstr_def cs_def of_char_def first_tokens_def tokens.simps Let_def)
qed

text \<open>strtok.c passes its delimiters to the first call only: a string with one token and no
  delimiter in it is still cut at a full stop.\<close>

theorem stringtoarray_ignores_delim:
  "stringtoarray (cs ''a:b.c'' @ [0]) (cs '':'') [9, 9, 9] =
     Some (3, [0x61, 0, 0x62, 0, 0x63, 0], [0, 2, 4]) \<and>
   tokens (cs '':'') (cs ''a:b.c'') = [cs ''a'', cs ''b.c'']"
  by (simp add: stringtoarray_def strtok_r_def strtok_loop.simps tokens.simps cs_def of_char_def
      cstr_def terminated_def Let_def)

end
