(* ===== verification/Strtok_Sub.thy ===== *)
theory Strtok_Sub
  imports Strtok
begin

text \<open>
  stringtoarraysubdelim of strtok/strtok_c.c: two nested runs of strtok_r on the same buffer, the inner
  one inside each token of the outer one. The function stores nothing and has no return value; its
  result here is the buffer and the lines printed.
\<close>

datatype printed = Token_line nat bytes | Sub_line bytes

text \<open>The two loops. None is a buffer without terminator or a loop that does not end.\<close>

partial_function (option) subtoken_loop ::
  "bytes \<Rightarrow> bytes \<Rightarrow> nat \<Rightarrow> printed list \<Rightarrow> (bytes \<times> printed list) option" where
  "subtoken_loop subdelim buf p out =
     Option.bind (strtok_r subdelim buf p) (\<lambda>(buf, subtoken, p).
       case subtoken of
         None \<Rightarrow> Some (buf, out)
       | Some i \<Rightarrow> subtoken_loop subdelim buf p (out @ [Sub_line (cstr (drop i buf))]))"

partial_function (option) token_loop_r ::
  "bytes \<Rightarrow> bytes \<Rightarrow> nat \<Rightarrow> bytes \<Rightarrow> nat \<Rightarrow> printed list \<Rightarrow> (bytes \<times> printed list) option" where
  "token_loop_r delim subdelim j buf p out =
     Option.bind (strtok_r delim buf p) (\<lambda>(buf, token, saveptr1).
       case token of
         None \<Rightarrow> Some (buf, out)
       | Some i \<Rightarrow>
           Option.bind (subtoken_loop subdelim buf i (out @ [Token_line j (cstr (drop i buf))]))
             (\<lambda>(buf, out). token_loop_r delim subdelim (Suc j) buf saveptr1 out))"

definition stringtoarraysubdelim :: "bytes \<Rightarrow> bytes \<Rightarrow> bytes \<Rightarrow> (bytes \<times> printed list) option" where
  "stringtoarraysubdelim str delim subdelim = token_loop_r delim subdelim 1 str 0 []"

section \<open>What is printed\<close>

fun nested_lines :: "bytes \<Rightarrow> nat \<Rightarrow> bytes list \<Rightarrow> printed list" where
  "nested_lines sd j [] = []"
| "nested_lines sd j (w # ws) = Token_line j w # map Sub_line (tokens sd w) @ nested_lines sd (Suc j) ws"

lemma subtoken_loop_tokens:
  assumes "0 \<notin> set S"
  shows "\<exists>S'. subtoken_loop d (A @ S @ 0 # R) (length A) out =
      Some (A @ S' @ 0 # R, out @ map Sub_line (tokens d S)) \<and> length S' = length S"
  using assms
proof (induction "length S" arbitrary: S A out rule: less_induct)
  case less
  note eq = subtoken_loop.simps [of d "A @ S @ 0 # R" "length A" out]
  from less.prems show ?case
  proof (cases rule: strtok_r_cases [where d = d and A = A and R = R and ?d2.0 = d])
    case none
    then show ?thesis by (simp add: eq)
  next
    case (last X w)
    have "strtok_r d (A @ S @ 0 # R) (length (A @ X @ w)) = Some (A @ S @ 0 # R, None, length (A @ X @ w))"
      using strtok_r_nil [of d "A @ X @ w" R] by (simp add: last(1))
    then have "subtoken_loop d (A @ S @ 0 # R) (length (A @ X @ w)) out' = Some (A @ S @ 0 # R, out')" for out'
      by (subst subtoken_loop.simps) simp
    moreover have "cstr (drop (length (A @ X)) (A @ S @ 0 # R)) = w"
      by (simp add: last(1) cstr_append_zero [OF last(3)])
    ultimately show ?thesis unfolding eq last(4) using last(2) by (intro exI [of _ S]) simp
  next
    case (cut X w c T)
    let ?A = "A @ X @ w @ [0]"
    have "length T < length S" "0 \<notin> set T" using less.prems cut(1) by auto
    from less.hyps [OF this, of ?A "out @ [Sub_line w]"] obtain S' where
      "subtoken_loop d (?A @ T @ 0 # R) (length ?A) (out @ [Sub_line w]) =
        Some (?A @ S' @ 0 # R, (out @ [Sub_line w]) @ map Sub_line (tokens d T))" "length S' = length T" by blast
    moreover have "cstr (drop (length (A @ X)) (A @ X @ w @ 0 # T @ 0 # R)) = w"
      by (simp add: cstr_append_zero [OF cut(3)])
    ultimately show ?thesis
      unfolding eq cut(4) using cut(1,2) by (intro exI [of _ "X @ w @ 0 # S'"]) simp
  qed
qed

lemma token_loop_r_tokens:
  assumes "0 \<notin> set S"
  shows "\<exists>S'. token_loop_r d sd j (A @ S @ 0 # R) (length A) out =
      Some (A @ S' @ 0 # R, out @ nested_lines sd j (tokens d S)) \<and> length S' = length S"
  using assms
proof (induction "length S" arbitrary: S A j out rule: less_induct)
  case less
  note eq = token_loop_r.simps [of d sd j "A @ S @ 0 # R" "length A" out]
  from less.prems show ?case
  proof (cases rule: strtok_r_cases [where d = d and A = A and R = R and ?d2.0 = d])
    case none
    then show ?thesis by (simp add: eq)
  next
    case (last X w)
    obtain w' where w': "subtoken_loop sd ((A @ X) @ w @ 0 # R) (length (A @ X)) (out @ [Token_line j w]) =
        Some ((A @ X) @ w' @ 0 # R, (out @ [Token_line j w]) @ map Sub_line (tokens sd w))" "length w' = length w"
      using subtoken_loop_tokens [OF last(3)] by blast
    have "strtok_r d ((A @ X @ w') @ 0 # R) (length (A @ X @ w')) = Some ((A @ X @ w') @ 0 # R, None, length (A @ X @ w'))"
      by (rule strtok_r_nil)
    then have "token_loop_r d sd (Suc j) (A @ X @ w' @ 0 # R) (length (A @ X @ w)) out' = Some (A @ X @ w' @ 0 # R, out')" for out'
      using w'(2) by (simp add: token_loop_r.simps [of d sd "Suc j"])
    moreover have "cstr (drop (length (A @ X)) (A @ S @ 0 # R)) = w"
      by (simp add: last(1) cstr_append_zero [OF last(3)])
    moreover have "A @ S @ 0 # R = (A @ X) @ w @ 0 # R" by (simp add: last(1))
    ultimately show ?thesis
      unfolding eq last(4) using last(1,2) w' by (intro exI [of _ "X @ w'"]) simp
  next
    case (cut X w c T)
    let ?A = "\<lambda>w. A @ X @ w @ [0]"
    obtain w' where w': "subtoken_loop sd ((A @ X) @ w @ 0 # T @ 0 # R) (length (A @ X)) (out @ [Token_line j w]) =
        Some ((A @ X) @ w' @ 0 # T @ 0 # R, (out @ [Token_line j w]) @ map Sub_line (tokens sd w))" "length w' = length w"
      using subtoken_loop_tokens [OF cut(3)] by blast
    have "length T < length S" "0 \<notin> set T" using less.prems cut(1) by auto
    from less.hyps [OF this, of "Suc j" "?A w'" "(out @ [Token_line j w]) @ map Sub_line (tokens sd w)"] obtain S' where
      "token_loop_r d sd (Suc j) (?A w' @ T @ 0 # R) (length (?A w')) ((out @ [Token_line j w]) @ map Sub_line (tokens sd w)) =
        Some (?A w' @ S' @ 0 # R, ((out @ [Token_line j w]) @ map Sub_line (tokens sd w)) @ nested_lines sd (Suc j) (tokens d T))"
      "length S' = length T" by blast
    moreover have "cstr (drop (length (A @ X)) (A @ X @ w @ 0 # T @ 0 # R)) = w"
      by (simp add: cstr_append_zero [OF cut(3)])
    ultimately show ?thesis
      unfolding eq cut(4) using cut(1,2) w' by (intro exI [of _ "X @ w' @ 0 # S'"]) simp
  qed
qed

text \<open>C17. The nested splitting ends on every string and prints every token, numbered from 1, followed by the
  tokens it falls into: although both loops cut the same buffer, they do not disturb each other.\<close>

theorem stringtoarraysubdelim_lines:
  assumes "terminated str"
  shows "\<exists>str'. stringtoarraysubdelim str delim subdelim =
      Some (str', nested_lines subdelim 1 (tokens delim (cstr str))) \<and> length str' = length str"
proof -
  from assms obtain R where R: "str = cstr str @ 0 # R" and z: "0 \<notin> set (cstr str)"
    by (metis terminatedE cstr_no_zero)
  obtain S' where S': "token_loop_r delim subdelim 1 (cstr str @ 0 # R) 0 [] =
      Some (S' @ 0 # R, nested_lines subdelim 1 (tokens delim (cstr str)))" "length S' = length (cstr str)"
    using token_loop_r_tokens [OF z, of delim subdelim 1 "[]" R "[]"] by auto
  moreover have "length (S' @ 0 # R) = length str" using S'(2) arg_cong [OF R, of length] by simp
  ultimately show ?thesis unfolding stringtoarraysubdelim_def R [symmetric] by blast
qed

theorem stringtoarraysubdelim_lines_witness:
  "\<exists>str'. stringtoarraysubdelim (cs ''a=1;b'' @ [0]) (cs '';'') (cs ''='') =
     Some (str', [Token_line 1 (cs ''a=1''), Sub_line (cs ''a''), Sub_line (cs ''1''), Token_line 2 (cs ''b''), Sub_line (cs ''b'')])"
proof -
  have s: "terminated (cs ''a=1;b'' @ [0])" by (simp add: terminated_def)
  have c: "cstr (cs ''a=1;b'' @ [0]) = cs ''a=1;b''" by (simp add: cstr_def cs_def of_char_def)
  have t: "tokens (cs '';'') (cs ''a=1;b'') = [cs ''a=1'', cs ''b'']"
    "tokens (cs ''='') (cs ''a=1'') = [cs ''a'', cs ''1'']" "tokens (cs ''='') (cs ''b'') = [cs ''b'']"
    by (simp_all add: tokens.simps cs_def of_char_def Let_def)
  show ?thesis using stringtoarraysubdelim_lines [OF s, of "cs '';''" "cs ''=''"] by (auto simp: c t numeral_2_eq_2)
qed

end
