(* ===== verification/Echo.thy ===== *)
theory Echo
  imports MD5_File Transition
begin

text \<open>
  socket/tcp_server.c, tcp_client.c and udp_server.c: echo servers. The tcp server starts a thread for
  every connection and passes it the address of the variable nfp, which the next accept overwrites:
  the threads are a step relation. The udp server answers every datagram with itself.
\<close>

section \<open>One connection\<close>

text \<open>
  rec_data of tcp_server.c, from the value of client_sockfd on: the results of read, and the bytes sent
  on the connection so far. The buffer is cleared and the string in it sent before every read. The
  result says whether the connection was closed; otherwise the thread waits in read.
\<close>

fun rec_data :: "read_result list \<Rightarrow> bytes \<Rightarrow> (bool \<times> bytes) option" where
  "rec_data reads out =
     (let buffer = bzero 1024; out = out @ take (length (cstr buffer)) buffer in
      case reads of
        [] \<Rightarrow> Some (False, out)
      | Read_error # rs \<Rightarrow> Some (True, out)
      | Read bs # rs \<Rightarrow>
          if 0 < length bs
          then Option.bind (mem_put buffer 0 bs) (\<lambda>buffer. rec_data rs (out @ take (length bs) buffer))
          else Some (True, out))"

declare rec_data.simps [simp del]

text \<open>
  rec_data of tcp_client.c: the strings printed. The buffer is not cleared; a zero is written behind
  what was read.
\<close>

fun client_rec_loop :: "bytes \<Rightarrow> read_result list \<Rightarrow> bytes list \<Rightarrow> (bool \<times> bytes list) option" where
  "client_rec_loop buf [] out = Some (False, out)"
| "client_rec_loop buf (Read_error # rs) out = Some (True, out)"
| "client_rec_loop buf (Read bs # rs) out =
     (if 0 < length bs
      then do {
        buf \<leftarrow> mem_put buf 0 bs;
        buf \<leftarrow> mem_put buf (length bs) [0];
        client_rec_loop buf rs (out @ [cstr buf])
      }
      else Some (True, out))"

definition client_rec_data :: "read_result list \<Rightarrow> (bool \<times> bytes list) option" where
  "client_rec_data reads = client_rec_loop (bzero 1024) reads []"

section \<open>The udp server\<close>

text \<open>
  What select reports and recvfrom returns (None is an error); the flag says whether errno is EINTR,
  which the code asks for an empty datagram as well. Broken: the loop was left; Exited: exit was
  called.
\<close>

datatype udp_event = Sel_error | Sel_timeout | Received "bytes option" bool

datatype udp_end = Waiting | Broken | Exited

fun echo_ser :: "udp_event list \<Rightarrow> bytes list \<Rightarrow> (udp_end \<times> bytes list) option" where
  "echo_ser [] out = Some (Waiting, out)"
| "echo_ser (Sel_error # es) out = Some (Broken, out)"
| "echo_ser (Sel_timeout # es) out = echo_ser es out"
| "echo_ser (Received r eintr # es) out =
     (let n = (case r of None \<Rightarrow> - 1 | Some d \<Rightarrow> int (length (take 1024 d))) in
      if n \<le> 0 then (if eintr then echo_ser es out else Some (Exited, out))
      else do {
        recvbuf \<leftarrow> mem_put (bzero 1024) 0 (take 1024 (the r));
        guard (terminated recvbuf);
        echo_ser es (out @ [take (nat n) recvbuf])
      })"

section \<open>The threads of the tcp server\<close>

datatype thread = T_start | T_serve int | T_end int

datatype accept_pc = A_accept | A_create | A_exited

record tcp_srv =
  nfp :: int
  accepted :: "int list"
  acc :: accept_pc
  threads :: "thread list"

definition srv_init :: tcp_srv where
  "srv_init = \<lparr>nfp = 0, accepted = [], acc = A_accept, threads = []\<rparr>"

text \<open>main: accept, and pthread_create with the address of nfp. Leaving main ends all threads.\<close>

definition srv_accept :: "int \<Rightarrow> tcp_srv \<Rightarrow> tcp_srv" where
  "srv_accept c s =
     (if c = - 1 then s\<lparr>nfp := c, acc := A_exited\<rparr>
      else s\<lparr>nfp := c, accepted := accepted s @ [c], acc := A_create\<rparr>)"

definition srv_create :: "bool \<Rightarrow> tcp_srv \<Rightarrow> tcp_srv" where
  "srv_create ok s =
     (if ok then s\<lparr>threads := threads s @ [T_start], acc := A_accept\<rparr> else s\<lparr>acc := A_exited\<rparr>)"

text \<open>rec_data: reading the descriptor through the pointer; the end of the loop.\<close>

definition thread_start :: "nat \<Rightarrow> tcp_srv \<Rightarrow> tcp_srv" where
  "thread_start i s = s\<lparr>threads := (threads s)[i := T_serve (nfp s)]\<rparr>"

definition thread_end :: "nat \<Rightarrow> int \<Rightarrow> tcp_srv \<Rightarrow> tcp_srv" where
  "thread_end i c s = s\<lparr>threads := (threads s)[i := T_end c]\<rparr>"

text \<open>With slow, the second of sleep is long enough for the new thread to read its descriptor.\<close>

inductive srv_step :: "bool \<Rightarrow> tcp_srv \<Rightarrow> tcp_srv \<Rightarrow> bool" for slow where
  accept: "acc s = A_accept \<Longrightarrow> (slow \<Longrightarrow> T_start \<notin> set (threads s)) \<Longrightarrow> srv_step slow s (srv_accept c s)"
| create: "acc s = A_create \<Longrightarrow> srv_step slow s (srv_create ok s)"
| start: "acc s \<noteq> A_exited \<Longrightarrow> i < length (threads s) \<Longrightarrow> threads s ! i = T_start \<Longrightarrow>
    srv_step slow s (thread_start i s)"
| finish: "acc s \<noteq> A_exited \<Longrightarrow> i < length (threads s) \<Longrightarrow> threads s ! i = T_serve c \<Longrightarrow>
    srv_step slow s (thread_end i c s)"

inductive_cases srv_stepE: "srv_step slow s t"

fun served :: "thread \<Rightarrow> int option" where
  "served T_start = None"
| "served (T_serve c) = Some c"
| "served (T_end c) = Some c"

definition srv_inv :: "tcp_srv \<Rightarrow> bool" where
  "srv_inv s \<longleftrightarrow>
     length (accepted s) = length (threads s) + (if acc s = A_create then 1 else 0) \<and>
     (accepted s \<noteq> [] \<longrightarrow> nfp s = last (accepted s)) \<and>
     (\<forall>i < length (threads s). case served (threads s ! i) of
        None \<Rightarrow> Suc i = length (accepted s) | Some c \<Rightarrow> c = accepted s ! i) \<or> acc s = A_exited"

lemmas srv_operations = srv_accept_def srv_create_def thread_start_def thread_end_def

interpretation slow_srv: inductive_invariant "\<lambda>s. s = srv_init" "srv_step True" srv_inv
proof
  show "srv_inv s" if "s = srv_init" for s
    using that by (simp add: srv_inv_def srv_init_def)
  show "srv_inv t" if inv: "srv_inv s" and st: "srv_step True s t" for s t
    using st
  proof (rule srv_stepE)
    fix c assume "acc s = A_accept" "True \<Longrightarrow> T_start \<notin> set (threads s)" "t = srv_accept c s"
    then show ?thesis using inv
      by (auto simp: srv_inv_def srv_accept_def nth_append dest!: nth_mem split: option.splits)
        (metis served.elims option.simps(3) nth_mem)+
  next
    fix ok assume "acc s = A_create" "t = srv_create ok s"
    then show ?thesis using inv
      by (auto simp: srv_inv_def srv_create_def nth_append less_Suc_eq split: option.splits)
  next
    fix i assume a: "acc s \<noteq> A_exited" "i < length (threads s)" "threads s ! i = T_start" "t = thread_start i s"
    then have l: "Suc i = length (accepted s)" "nfp s = last (accepted s)"
      using inv by (auto simp: srv_inv_def)
    then have "nfp s = accepted s ! i"
      by (metis diff_Suc_1 last_conv_nth length_0_conv nat.distinct(1))
    then show ?thesis using inv a
      by (auto simp: srv_inv_def thread_start_def nth_list_update split: option.splits)
  next
    fix i c assume "acc s \<noteq> A_exited" "i < length (threads s)" "threads s ! i = T_serve c" "t = thread_end i c s"
    then show ?thesis using inv
      by (auto simp: srv_inv_def thread_end_def nth_list_update split: option.splits)
  qed
qed

section \<open>Properties\<close>

text \<open>C20. When every thread has read its descriptor before the next connection is accepted, the threads serve
  exactly the connections accepted, each its own.\<close>

theorem tcp_server_serves:
  assumes "reachable (\<lambda>s. s = srv_init) (srv_step True) s" "acc s = A_accept" "T_start \<notin> set (threads s)"
  shows "map served (threads s) = map Some (accepted s)"
proof (rule nth_equalityI)
  have i: "srv_inv s" by (rule slow_srv.reachable_inv [OF assms(1)])
  then show l: "length (map served (threads s)) = length (map Some (accepted s))"
    using assms(2) by (simp add: srv_inv_def)
  fix k assume k: "k < length (map served (threads s))"
  then have "served (threads s ! k) \<noteq> None" using assms(3) nth_mem [of k "threads s"]
    by (cases "threads s ! k") auto
  then show "map served (threads s) ! k = map Some (accepted s) ! k"
    using i k l assms(2) by (auto simp: srv_inv_def)
qed

lemma srv_run:
  "reachable (\<lambda>s. s = srv_init) (srv_step slow) s \<Longrightarrow> acc s = A_accept \<Longrightarrow> c \<noteq> - 1 \<Longrightarrow>
   (slow \<Longrightarrow> T_start \<notin> set (threads s)) \<Longrightarrow>
   reachable (\<lambda>s. s = srv_init) (srv_step slow)
     (s\<lparr>nfp := c, accepted := accepted s @ [c], threads := threads s @ [T_start]\<rparr>)"
proof -
  assume r: "reachable (\<lambda>s. s = srv_init) (srv_step slow) s" and a: "acc s = A_accept" and c: "c \<noteq> - 1"
    and t: "slow \<Longrightarrow> T_start \<notin> set (threads s)"
  have "reachable (\<lambda>s. s = srv_init) (srv_step slow) (srv_accept c s)"
    by (rule reachable.step [OF r]) (rule srv_step.accept [OF a t])
  then have "reachable (\<lambda>s. s = srv_init) (srv_step slow) (srv_create True (srv_accept c s))"
    by (rule reachable.step) (rule srv_step.create, simp add: srv_accept_def c)
  moreover have "srv_create True (srv_accept c s) =
      s\<lparr>nfp := c, accepted := accepted s @ [c], threads := threads s @ [T_start]\<rparr>"
    using a c by (cases s) (simp add: srv_create_def srv_accept_def)
  ultimately show ?thesis by simp
qed

theorem tcp_server_serves_witness:
  "\<exists>s. reachable (\<lambda>s. s = srv_init) (srv_step True) s \<and> accepted s = [4] \<and> map served (threads s) = [Some 4]"
proof -
  let ?s = "srv_init\<lparr>nfp := 4, accepted := [4], threads := [T_start]\<rparr>"
  have "reachable (\<lambda>s. s = srv_init) (srv_step True) srv_init" by (rule reachable.start) simp
  from srv_run [OF this, of 4] have "reachable (\<lambda>s. s = srv_init) (srv_step True) ?s"
    by (simp add: srv_init_def)
  then have r: "reachable (\<lambda>s. s = srv_init) (srv_step True) (thread_start 0 ?s)"
    by (rule reachable.step) (rule srv_step.start, simp_all add: srv_init_def)
  have a: "acc (thread_start 0 ?s) = A_accept" "T_start \<notin> set (threads (thread_start 0 ?s))"
    "accepted (thread_start 0 ?s) = [4]"
    by (simp_all add: thread_start_def srv_init_def)
  show ?thesis using r a(3) tcp_server_serves [OF r a(1,2)] by auto
qed

text \<open>Otherwise two threads can serve the same connection, and the other one is never served: the variable
  whose address they got was overwritten.\<close>

theorem tcp_server_race:
  "\<exists>s. reachable (\<lambda>s. s = srv_init) (srv_step False) s \<and> accepted s = [4, 5] \<and>
     threads s = [T_serve 5, T_serve 5]"
proof -
  let ?s1 = "srv_init\<lparr>nfp := 4, accepted := [4], threads := [T_start]\<rparr>"
  let ?s2 = "srv_init\<lparr>nfp := 5, accepted := [4, 5], threads := [T_start, T_start]\<rparr>"
  have "reachable (\<lambda>s. s = srv_init) (srv_step False) srv_init" by (rule reachable.start) simp
  from srv_run [OF this, of 4] have "reachable (\<lambda>s. s = srv_init) (srv_step False) ?s1"
    by (simp add: srv_init_def)
  from srv_run [OF this, of 5] have "reachable (\<lambda>s. s = srv_init) (srv_step False) ?s2"
    by (simp add: srv_init_def)
  then have "reachable (\<lambda>s. s = srv_init) (srv_step False) (thread_start 0 ?s2)"
    by (rule reachable.step) (rule srv_step.start, simp_all add: srv_init_def)
  then have "reachable (\<lambda>s. s = srv_init) (srv_step False) (thread_start 1 (thread_start 0 ?s2))"
    by (rule reachable.step) (rule srv_step.start, simp_all add: srv_init_def thread_start_def)
  then show ?thesis
    by (intro exI [of _ "thread_start 1 (thread_start 0 ?s2)"]) (simp add: thread_start_def srv_init_def)
qed

text \<open>A connection is answered with exactly the bytes it delivered, however they were split up, and closed
  at the first error or end.\<close>

theorem rec_data_echoes:
  assumes "reads_fit 1024 reads"
  shows "rec_data reads out = Some (\<exists>r \<in> set reads. r = Read_error \<or> r = Read [], out @ delivered reads)"
  using assms
proof (induction reads arbitrary: out)
  case (Cons r rs)
  show ?case
  proof (cases r)
    case (Read bs)
    then have "mem_put (bzero 1024) 0 bs = Some (bs @ drop (length bs) (bzero 1024))"
      using Cons.prems by (simp add: mem_put_def)
    then show ?thesis
      using Cons Read by (subst rec_data.simps) (auto simp: Let_def)
  qed (subst rec_data.simps, simp add: Let_def)
qed (subst rec_data.simps, simp)

theorem rec_data_echoes_witness:
  "rec_data [Read [1, 2], Read [3], Read []] [] = Some (True, [1, 2, 3])"
  using rec_data_echoes [of "[Read [1, 2], Read [3], Read []]" "[]"] by simp

lemma client_rec_loop_None:
  assumes "reads_fit 1024 reads" "length buf = 1024"
  shows "client_rec_loop buf reads out = None \<longleftrightarrow>
    (\<exists>xs. Read xs \<in> set (takeWhile (\<lambda>r. r \<noteq> Read_error \<and> r \<noteq> Read []) reads) \<and> length xs = 1024)"
  using assms
proof (induction reads arbitrary: buf out)
  case (Cons r rs)
  show ?case
  proof (cases r)
    case (Read bs)
    then have "mem_put buf 0 bs = Some (bs @ drop (length bs) buf)"
      using Cons.prems by (simp add: mem_put_def)
    then show ?thesis using Cons Read
      by (auto simp: mem_put_def)
  qed simp
qed simp

text \<open>The client's thread writes one byte behind its buffer exactly when a read before the first error or end
  fills it.\<close>

theorem client_rec_data_overflow_iff:
  assumes "reads_fit 1024 reads"
  shows "client_rec_data reads = None \<longleftrightarrow>
    (\<exists>xs. Read xs \<in> set (takeWhile (\<lambda>r. r \<noteq> Read_error \<and> r \<noteq> Read []) reads) \<and> length xs = 1024)"
  unfolding client_rec_data_def by (rule client_rec_loop_None [OF assms]) simp

theorem client_rec_data_overflow_iff_witness:
  "client_rec_data [Read (replicate 1024 1)] = None"
  using client_rec_data_overflow_iff [of "[Read (replicate 1024 1)]"] by (simp del: replicate_Suc)

text \<open>The events that let the server go on, and what it sends for an event.\<close>

fun passes :: "udp_event \<Rightarrow> bool" where
  "passes Sel_error \<longleftrightarrow> False"
| "passes Sel_timeout \<longleftrightarrow> True"
| "passes (Received r eintr) \<longleftrightarrow> (r \<noteq> None \<and> r \<noteq> Some []) \<or> eintr"

fun answers :: "udp_event \<Rightarrow> bytes list" where
  "answers (Received (Some d) eintr) = (if d = [] then [] else [d])"
| "answers _ = []"

text \<open>The udp server answers every datagram with itself until select fails or the first datagram that is
  empty or lost to an error other than EINTR, which ends the program: anybody can stop the server
  with an empty datagram.\<close>

theorem echo_ser_spec:
  assumes "\<forall>d e. Received (Some d) e \<in> set es \<longrightarrow> length d < 1024"
  shows "echo_ser es out =
    Some (case dropWhile passes es of [] \<Rightarrow> Waiting | e # _ \<Rightarrow> if e = Sel_error then Broken else Exited,
      out @ concat (map answers (takeWhile passes es)))"
  using assms
proof (induction es arbitrary: out)
  case (Cons e es)
  have h: "\<forall>d e. Received (Some d) e \<in> set es \<longrightarrow> length d < 1024" using Cons.prems by auto
  have IH: "echo_ser es out = Some (case dropWhile passes es of [] \<Rightarrow> Waiting | e # _ \<Rightarrow> if e = Sel_error then Broken else Exited,
      out @ concat (map answers (takeWhile passes es)))" for out
    by (rule Cons.IH [OF h])
  show ?case
  proof (cases e)
    case (Received r eintr)
    show ?thesis
    proof (cases r)
      case (Some d)
      then have d: "length d < 1024" using Cons.prems Received by simp
      then have "mem_put (bzero 1024) 0 (take 1024 d) = Some (d @ drop (length d) (bzero 1024))"
        by (simp add: mem_put_def)
      moreover have "terminated (d @ drop (length d) (bzero 1024))"
        using d by (simp add: terminated_def bzero_def)
      ultimately show ?thesis using IH Received Some d by (auto simp: Let_def)
    qed (use IH Received in auto)
  qed (use IH in simp_all)
qed simp

theorem echo_ser_spec_witness:
  "echo_ser [Received (Some [1]) False, Sel_timeout, Received (Some [2, 3]) False, Received (Some []) False,
      Received (Some [4]) False] [] = Some (Exited, [[1], [2, 3]])"
proof -
  let ?es = "[Received (Some [1]) False, Sel_timeout, Received (Some [2, 3]) False, Received (Some []) False,
      Received (Some [4]) False]"
  have "\<forall>d e. Received (Some d) e \<in> set ?es \<longrightarrow> length d < 1024" by auto
  from echo_ser_spec [OF this, of "[]"] show ?thesis by simp
qed

end
