(* ===== verification/CString.thy ===== *)
theory CString
  imports Prelude
begin

text \<open>
  Further functions of string.h on strings given by their bytes (without the terminating zero):
  strstr and strrchr, which return the rest of the string from the place found.
\<close>

fun strstr :: "bytes \<Rightarrow> bytes \<Rightarrow> bytes option" where
  "strstr h n =
     (if take (length n) h = n then Some h
      else case h of [] \<Rightarrow> None | _ # h' \<Rightarrow> strstr h' n)"

declare strstr.simps [simp del]

lemma strstr_SomeD: "strstr h n = Some r \<Longrightarrow> \<exists>p q. h = p @ r \<and> r = n @ q"
proof (induction h n rule: strstr.induct)
  case (1 h n)
  show ?case
  proof (cases "take (length n) h = n")
    case True
    with "1.prems" have "r = h" by (simp add: strstr.simps)
    moreover have "h = n @ drop (length n) h" using True append_take_drop_id [of "length n" h] by simp
    ultimately show ?thesis by blast
  next
    case False
    with "1.prems" obtain c h' where h: "h = c # h'" "strstr h' n = Some r"
      by (cases h) (simp_all add: strstr.simps [of "[]" n] strstr.simps [of "c # h'" n for c h'])
    from "1.IH" [OF False h(1)] h(2) obtain p q where "h' = p @ r" "r = n @ q" by blast
    then have "h = (c # p) @ r" using h(1) by simp
    then show ?thesis using \<open>r = n @ q\<close> by blast
  qed
qed

lemma strstr_found: "\<exists>r. strstr (p @ n @ q) n = Some r"
proof (induction p)
  case Nil
  then show ?case by (simp add: strstr.simps)
next
  case (Cons c p)
  then show ?case by (auto simp: strstr.simps [of "c # p @ n @ q"])
qed

lemma strstr_iff: "(\<exists>r. strstr h n = Some r) \<longleftrightarrow> (\<exists>p q. h = p @ n @ q)"
  using strstr_found strstr_SomeD by fastforce

text \<open>strrchr: the rest of the string from the last occurrence of c on.\<close>

fun strrchr :: "bytes \<Rightarrow> u8 \<Rightarrow> bytes option" where
  "strrchr [] c = None"
| "strrchr (x # s) c =
     (case strrchr s c of Some r \<Rightarrow> Some r | None \<Rightarrow> if x = c then Some (x # s) else None)"

lemma strrchr_None_iff: "strrchr s c = None \<longleftrightarrow> c \<notin> set s"
  by (induction s) (auto split: option.splits)

lemma strrchr_last:
  assumes "c \<notin> set n"
  shows "strrchr (p @ c # n) c = Some (c # n)"
  using assms strrchr_None_iff [of n c] by (induction p) auto

end
