(* ===== verification/Stdio.thy ===== *)
theory Stdio
  imports CString
begin

text \<open>
  The functions of stdio.h and stdlib.h that several programs use: the conversion of printf for
  numbers, atoi and fgets.
\<close>

text \<open>The conversion \<open>%d\<close> of printf.\<close>

fun digits :: "nat \<Rightarrow> bytes" where
  "digits n = (if n < 10 then [of_nat (48 + n)] else digits (n div 10) @ [of_nat (48 + n mod 10)])"

declare digits.simps [simp del]

definition printf_d :: "int \<Rightarrow> bytes" where
  "printf_d n = (if n < 0 then 0x2D # digits (nat (- n)) else digits (nat n))"

text \<open>
  atoi of an array: blanks, a sign, digits up to the first other byte. When the digits run to the
  end of the array the function reads on behind it.
\<close>

fun atoi_digits :: "bytes \<Rightarrow> int \<Rightarrow> int option" where
  "atoi_digits [] v = None"
| "atoi_digits (c # s) v = (if 0x30 \<le> c \<and> c \<le> 0x39 then atoi_digits s (10 * v + uint (c - 0x30)) else Some v)"

fun atoi :: "bytes \<Rightarrow> int option" where
  "atoi [] = None"
| "atoi (c # s) =
     (if c = 0x20 \<or> (9 \<le> c \<and> c \<le> 13) then atoi s
      else if c = 0x2D then map_option uminus (atoi_digits s 0)
      else if c = 0x2B then atoi_digits s 0
      else atoi_digits (c # s) 0)"

section \<open>Reading lines\<close>

text \<open>fgets with a buffer of n bytes: at most n - 1 bytes, up to and with the first newline.\<close>

definition fgets :: "nat \<Rightarrow> bytes \<Rightarrow> (bytes \<times> bytes) option" where
  "fgets n s =
     (if s = [] \<or> n < 2 then None
      else
        let l = takeWhile (\<lambda>c. c \<noteq> 0x0A) (take (n - 1) s);
            l = (if length l < length (take (n - 1) s) then l @ [0x0A] else l)
        in Some (l, drop (length l) s))"

lemma fgets_shorter:
  assumes "fgets n s = Some (l, rest)"
  shows "length rest < length s"
proof -
  from assms have s: "s \<noteq> []" "2 \<le> n" by (auto simp: fgets_def Let_def split: if_splits)
  then have "take (n - 1) s \<noteq> []" by (cases s) (simp_all add: take_Cons')
  then have "l \<noteq> []" using assms
    by (auto simp: fgets_def Let_def split: if_splits)
  moreover have "rest = drop (length l) s" using assms by (auto simp: fgets_def Let_def split: if_splits)
  ultimately show ?thesis using s(1) by (cases l; cases s) auto
qed

lemma fgets_line:
  assumes "0x0A \<notin> set l" "Suc (length l) < n"
  shows "fgets n (l @ 0x0A # rest) = Some (l @ [0x0A], rest)"
proof -
  obtain k where n: "n = Suc (length l + Suc k)"
    using assms(2) less_imp_Suc_add [of "Suc (length l)" n] by auto
  have t: "take (n - 1) (l @ 0x0A # rest) = l @ 0x0A # take k rest" by (simp add: n)
  have "takeWhile (\<lambda>c. c \<noteq> 0x0A) (l @ 0x0A # take k rest) = l"
    using assms(1) by (subst takeWhile_append2) auto
  then show ?thesis using assms(2) unfolding fgets_def t Let_def by simp
qed

section \<open>Numbers\<close>

definition digit :: "u8 \<Rightarrow> bool" where
  "digit c \<longleftrightarrow> 0x30 \<le> c \<and> c \<le> 0x39"

lemma digit_of_nat:
  assumes "k < 10"
  shows "digit (of_nat (48 + k))" "uint (of_nat (48 + k) - 0x30 :: u8) = int k" "of_nat (48 + k) \<noteq> (0 :: u8)"
proof -
  have "k \<in> {0, 1, 2, 3, 4, 5, 6, 7, 8, 9}" using assms by auto
  then show "digit (of_nat (48 + k))" "uint (of_nat (48 + k) - 0x30 :: u8) = int k" "of_nat (48 + k) \<noteq> (0 :: u8)"
    by (auto simp: digit_def)
qed

lemma digits_digit: "\<forall>c \<in> set (digits n). digit c \<and> c \<noteq> 0"
proof (induction n rule: digits.induct)
  case (1 n)
  then show ?case
    using digit_of_nat(1,3) [of n] digit_of_nat(1,3) [of "n mod 10"]
    by (subst digits.simps) (auto simp del: of_nat_add)
qed

lemma digits_length: "n < 10 ^ k \<Longrightarrow> 0 < k \<Longrightarrow> length (digits n) \<le> k"
proof (induction k arbitrary: n)
  case (Suc k)
  show ?case
  proof (cases "n < 10")
    case False
    with Suc.prems have "0 < k" by (cases k) simp_all
    moreover have "n div 10 < 10 ^ k" using Suc.prems(1) by (simp add: less_mult_imp_div_less)
    ultimately show ?thesis using Suc.IH [of "n div 10"] False by (subst digits.simps) simp
  qed (subst digits.simps, simp)
qed simp

lemma digits_ne: "digits n \<noteq> []"
  by (subst digits.simps) simp

lemma atoi_digits_run:
  "\<forall>c \<in> set d. digit c \<Longrightarrow> atoi_digits (d @ s) v = atoi_digits s (foldl (\<lambda>v c. 10 * v + uint (c - 0x30)) v d)"
  by (induction d arbitrary: v) (simp_all add: digit_def)

lemma digits_value: "foldl (\<lambda>v c. 10 * v + uint (c - 0x30)) 0 (digits n) = int n"
proof (induction n rule: digits.induct)
  case (1 n)
  show ?case
  proof (cases "n < 10")
    case True
    then show ?thesis using digit_of_nat(2) [of n] by (subst digits.simps) (simp del: of_nat_add)
  next
    case False
    then have "digits n = digits (n div 10) @ [of_nat (48 + n mod 10)]" by (subst digits.simps) simp
    then show ?thesis using "1.IH" [OF False] digit_of_nat(2) [of "n mod 10"]
      by (simp del: of_nat_add add: zdiv_int zmod_int)
  qed
qed

lemma atoi_digit: "digit c \<Longrightarrow> atoi (c # s) = atoi_digits (c # s) 0"
proof -
  assume "digit c"
  then have "0x30 \<le> c" by (simp add: digit_def)
  then have "\<not> c \<le> 13" "c \<noteq> 0x20" "c \<noteq> 0x2D" "c \<noteq> 0x2B" by (auto simp: word_le_nat_alt)
  then show ?thesis by simp
qed

lemma printf_d_facts:
  assumes "- (2 ^ 31) \<le> n" "n < 2 ^ 31"
  shows "0 \<notin> set (printf_d n)" "length (printf_d n) \<le> 11"
proof -
  show "0 \<notin> set (printf_d n)" using digits_digit by (auto simp: printf_d_def)
  have "nat (if n < 0 then - n else n) < 10 ^ 10" using assms by (cases "n < 0") (auto simp: nat_less_iff)
  from digits_length [OF this] show "length (printf_d n) \<le> 11" by (auto simp: printf_d_def split: if_splits)
qed

lemma atoi_printf:
  assumes "\<not> digit c"
  shows "atoi (printf_d n @ c # rest) = Some n"
proof -
  have d: "atoi_digits (digits k @ c # rest) 0 = Some (int k)" for k
    using assms digits_digit [of k] by (auto simp: atoi_digits_run digits_value digit_def)
  show ?thesis
  proof (cases "n < 0")
    case True
    then show ?thesis using d [of "nat (- n)"] by (simp add: printf_d_def)
  next
    case False
    obtain a ds where a: "digits (nat n) = a # ds" using digits_ne by (cases "digits (nat n)") auto
    then have "digit a" using digits_digit [of "nat n"] by simp
    from atoi_digit [OF this, of "ds @ c # rest"] show ?thesis
      using False d [of "nat n"] by (simp add: printf_d_def a)
  qed
qed

end
