(* ===== verification/Storage.thy ===== *)
theory Storage
  imports Stdio
begin

text \<open>
  storagemanage/storagemanage.c: querying the capacity of a storage device through a shell
  pipeline. popen gives the output of a command, or None when it fails, after which the program
  exits with status 1 (Inl).
\<close>

definition STOCMD_BUF_LEN :: nat where "STOCMD_BUF_LEN = 128"

lemmas stocmd [simp] = STOCMD_BUF_LEN_def

datatype STOCMD = EXTERNAL_ALL | INTER_ALL | EXTERNAL_AVA | INTER_AVA | FORMAT_SD

fun stocmd_code :: "STOCMD \<Rightarrow> nat" where
  "stocmd_code EXTERNAL_ALL = 0"
| "stocmd_code INTER_ALL = 1"
| "stocmd_code EXTERNAL_AVA = 2"
| "stocmd_code INTER_AVA = 3"
| "stocmd_code FORMAT_SD = 4"

definition storagecmd :: "(bytes \<times> STOCMD) list" where
  "storagecmd = [
     (cs ''df -m | awk '' @ [0x27] @ cs ''/sdb1/{print $2}'' @ [0x27], EXTERNAL_ALL),
     (cs ''df -m | awk '' @ [0x27] @ cs ''/sda1/{print $2}'' @ [0x27], INTER_ALL),
     (cs ''df -m | awk '' @ [0x27] @ cs ''/sdb1/{print $4}'' @ [0x27], EXTERNAL_AVA),
     (cs ''df -m | awk '' @ [0x27] @ cs ''/sda1/{print $4}'' @ [0x27], INTER_AVA),
     (cs ''mkfs.vfat /dev/mmcblk0p16'', FORMAT_SD)]"

function cmd_exec_loop :: "bytes \<Rightarrow> bytes \<Rightarrow> bytes option" where
  "cmd_exec_loop out result =
     (case fgets STOCMD_BUF_LEN out of
        None \<Rightarrow> Some result
      | Some (l, rest) \<Rightarrow>
          (case mem_put result 0 (l @ [0]) of
             None \<Rightarrow> None
           | Some result \<Rightarrow> cmd_exec_loop rest result))"
  by pat_completeness auto
termination
  by (relation "measure (\<lambda>(out, _). length out)") (auto dest: fgets_shorter)

declare cmd_exec_loop.simps [simp del]

definition cmd_exec :: "(bytes \<Rightarrow> bytes option) \<Rightarrow> bytes \<Rightarrow> bytes \<Rightarrow> (int + bytes) option" where
  "cmd_exec popen cmd result =
     (case popen cmd of
        None \<Rightarrow> Some (Inl 1)
      | Some out \<Rightarrow> map_option Inr (cmd_exec_loop out result))"

text \<open>
  storage_cmd_exec: an index outside of the table is undefined behaviour. sscanf leaves cap at 0
  when there is no number, which is also what atoi gives.
\<close>

definition storage_cmd_exec :: "(bytes \<Rightarrow> bytes option) \<Rightarrow> u8 \<Rightarrow> (int + u32) option" where
  "storage_cmd_exec popen type =
     (if unat type < length storagecmd
      then do {
        r \<leftarrow> cmd_exec popen (fst (storagecmd ! unat type)) (bzero STOCMD_BUF_LEN);
        case r of
          Inl c \<Rightarrow> Some (Inl c)
        | Inr buf \<Rightarrow> do {
            n \<leftarrow> strlen buf;
            if n \<noteq> 0 then do { v \<leftarrow> atoi buf; Some (Inr (of_int v)) } else Some (Inr 0)
          }
      }
      else None)"

section \<open>Properties\<close>

lemma cmd_exec_loop_lines:
  assumes "\<forall>l \<in> set ls. 0x0A \<notin> set l \<and> length l < 127" "ls \<noteq> []"
  shows "length result = 128 \<Longrightarrow> \<exists>rest. cmd_exec_loop (concat (map (\<lambda>l. l @ [0x0A]) ls)) result = Some (last ls @ 0x0A # 0 # rest)"
  using assms
proof (induction ls arbitrary: result)
  case (Cons l ls)
  have f: "fgets STOCMD_BUF_LEN (concat (map (\<lambda>l. l @ [0x0A]) (l # ls))) = Some (l @ [0x0A], concat (map (\<lambda>l. l @ [0x0A]) ls))"
    using fgets_line [of l] Cons.prems(2) by simp
  obtain rest where r: "mem_put result 0 ((l @ [0x0A]) @ [0]) = Some (l @ 0x0A # 0 # rest)"
    "length (l @ 0x0A # 0 # rest) = 128"
    using Cons.prems(1,2) by (simp add: mem_put_def)
  show ?case
  proof (cases "ls = []")
    case True
    then show ?thesis using f r by (subst cmd_exec_loop.simps) (simp add: cmd_exec_loop.simps fgets_def)
  next
    case False
    with Cons.IH [OF r(2)] Cons.prems(2) f r(1) show ?thesis
      by (subst cmd_exec_loop.simps) simp
  qed
qed simp

text \<open>The capacity is the number in the last line of the output: when a device has several partitions, or the
  pattern matches several devices, the others are ignored.\<close>

theorem storage_last_line:
  assumes "popen (fst (storagecmd ! stocmd_code c)) = Some (concat (map (\<lambda>l. l @ [0x0A]) (ls @ [digits n])))"
    and "\<forall>l \<in> set ls. 0x0A \<notin> set l \<and> length l < 127" "n < 2 ^ 31"
  shows "storage_cmd_exec popen (of_nat (stocmd_code c)) = Some (Inr (of_nat n))"
proof -
  have d: "0x0A \<notin> set (digits n)" "0 \<notin> set (digits n)" "length (digits n) < 127" "digits n \<noteq> []"
    using digits_digit [of n] digits_length [of n 10] digits_ne [of n] assms(3) by (auto simp: digit_def)
  have "\<forall>l \<in> set (ls @ [digits n]). 0x0A \<notin> set l \<and> length l < 127" using assms(2) d by auto
  from cmd_exec_loop_lines [OF this, of "bzero STOCMD_BUF_LEN"] obtain rest where
    r: "cmd_exec_loop (concat (map (\<lambda>l. l @ [0x0A]) (ls @ [digits n]))) (bzero STOCMD_BUF_LEN) =
      Some (digits n @ 0x0A # 0 # rest)" by auto
  let ?buf = "digits n @ 0x0A # 0 # rest"
  have "cstr ?buf = digits n @ [0x0A]"
    using cstr_append_zero [of "digits n @ [0x0A]" rest] d(2) by simp
  then have s: "strlen ?buf = Some (Suc (length (digits n)))"
    by (simp add: strlen_def terminated_def)
  have a: "atoi ?buf = Some (int n)"
    using atoi_printf [of "0x0A" "int n" "0 # rest"] by (simp add: digit_def printf_d_def)
  have "unat (of_nat (stocmd_code c) :: u8) = stocmd_code c" "stocmd_code c < length storagecmd"
    by (cases c; simp add: storagecmd_def)+
  then show ?thesis using assms(1) r s a
    by (simp add: storage_cmd_exec_def cmd_exec_def)
qed

theorem storage_last_line_witness:
  "storage_cmd_exec (\<lambda>_. Some (cs ''17'' @ [0x0A] @ cs ''1024'' @ [0x0A])) 3 = Some (Inr 1024)"
proof -
  let ?p = "\<lambda>_ :: bytes. Some (cs ''17'' @ [0x0A] @ cs ''1024'' @ [0x0A])"
  have "?p (fst (storagecmd ! stocmd_code INTER_AVA)) = Some (concat (map (\<lambda>l. l @ [0x0A]) ([cs ''17''] @ [digits 1024])))"
    "\<forall>l \<in> set [cs ''17'']. 0x0A \<notin> set l \<and> length l < 127" "(1024 :: nat) < 2 ^ 31"
    by (simp_all add: digits.simps cs_def of_char_def)
  from storage_last_line [where c = INTER_AVA, OF this] show ?thesis by simp
qed

end
