(* ===== verification/Streams.thy ===== *)
theory Streams
  imports Storage
begin

text \<open>
  The programs of the directory pipe that read lines from a stream and pass them on: fopen_popen.c,
  popen2.c, popen.c, fifoserver.c with fifoclient.c, and pipe.c. A stream is the bytes that are left to be
  read; what a program writes to a command or prints is part of its result. Functions that end
  the program give its exit code.
\<close>

section \<open>fopen_popen.c\<close>

text \<open>Whether the stream is at its end after fgets: fgets has then tried to read behind the last byte.\<close>

definition hits_end :: "nat \<Rightarrow> bytes \<Rightarrow> bytes \<Rightarrow> bool" where
  "hits_end n l rest \<longleftrightarrow> rest = [] \<and> length l < n - 1 \<and> last l \<noteq> 0x0A"

text \<open>
  The loop with feof. When fgets finds the end of the file at once, feof holds and the loop ends; the end
  of the file in the middle of a line ends it as well, before the line is written.
\<close>

function copy_loop :: "bytes \<Rightarrow> bytes \<Rightarrow> bytes \<Rightarrow> bytes option" where
  "copy_loop infile readbuf written =
     (case fgets 80 infile of
        None \<Rightarrow> Some written
      | Some (l, rest) \<Rightarrow>
          (case mem_put readbuf 0 (l @ [0]) of
             None \<Rightarrow> None
           | Some readbuf \<Rightarrow>
               if hits_end 80 l rest then Some written
               else copy_loop rest readbuf (written @ cstr readbuf)))"
  by pat_completeness auto
termination
  by (relation "measure (\<lambda>(s, _). length s)") (auto dest: fgets_shorter)

declare copy_loop.simps [simp del]

text \<open>main: the exit code and what the command gets on its standard input.\<close>

definition fopen_popen_main :: "(bytes \<Rightarrow> bytes option) \<Rightarrow> (bytes \<Rightarrow> bool) \<Rightarrow> bytes list \<Rightarrow> bytes \<Rightarrow>
    (int \<times> bytes) option" where
  "fopen_popen_main fopen popen argv readbuf =
     (if length argv \<noteq> 3 then Some (1, [])
      else case fopen (argv ! 2) of
        None \<Rightarrow> Some (1, [])
      | Some infile \<Rightarrow>
          if \<not> popen (argv ! 1) then Some (1, [])
          else map_option (\<lambda>w. (0, w)) (copy_loop infile readbuf []))"

section \<open>popen2.c\<close>

function pipe_loop :: "bytes \<Rightarrow> bytes \<Rightarrow> bytes \<Rightarrow> bytes option" where
  "pipe_loop pipein readbuf written =
     (case fgets 80 pipein of
        None \<Rightarrow> Some written
      | Some (l, rest) \<Rightarrow>
          (case mem_put readbuf 0 (l @ [0]) of
             None \<Rightarrow> None
           | Some readbuf \<Rightarrow> pipe_loop rest readbuf (written @ cstr readbuf)))"
  by pat_completeness auto
termination
  by (relation "measure (\<lambda>(s, _). length s)") (auto dest: fgets_shorter)

declare pipe_loop.simps [simp del]

definition popen2_main :: "(bytes \<Rightarrow> bytes option) \<Rightarrow> (bytes \<Rightarrow> bool) \<Rightarrow> bytes \<Rightarrow> (int \<times> bytes) option" where
  "popen2_main popen_r popen_w readbuf =
     (case popen_r (cs ''ls'') of
        None \<Rightarrow> Some (1, [])
      | Some pipein \<Rightarrow>
          if \<not> popen_w (cs ''sort'') then Some (1, [])
          else map_option (\<lambda>w. (0, w)) (pipe_loop pipein readbuf []))"

section \<open>popen.c\<close>

function last_line_loop :: "bytes \<Rightarrow> bytes \<Rightarrow> bytes option" where
  "last_line_loop fp result =
     (case fgets 128 fp of
        None \<Rightarrow> Some result
      | Some (l, rest) \<Rightarrow>
          (case mem_put result 0 (l @ [0]) of None \<Rightarrow> None | Some result \<Rightarrow> last_line_loop rest result))"
  by pat_completeness auto
termination
  by (relation "measure (\<lambda>(s, _). length s)") (auto dest: fgets_shorter)

declare last_line_loop.simps [simp del]

text \<open>cmd_exec: result is None for a null pointer. The exit code is EXIT_FAILURE.\<close>

definition popen_cmd_exec :: "(bytes \<Rightarrow> bytes option) \<Rightarrow> bytes \<Rightarrow> bytes option \<Rightarrow> (int + bytes option) option" where
  "popen_cmd_exec popen cmd result =
     (case result of
        None \<Rightarrow> Some (Inr None)
      | Some result \<Rightarrow>
          (case popen cmd of
             None \<Rightarrow> Some (Inl 1)
           | Some out \<Rightarrow> map_option (\<lambda>b. Inr (Some b)) (last_line_loop out result)))"

text \<open>main prints the array before and after the command.\<close>

definition popen_main :: "(bytes \<Rightarrow> bytes option) \<Rightarrow> (int \<times> bytes) option" where
  "popen_main popen = do {
     r \<leftarrow> popen_cmd_exec popen (cs ''route -n | awk '' @ [0x27] @ cs ''/UG/{print $8}'' @ [0x27]) (Some (bzero 128));
     case r of
       Inl c \<Rightarrow> Some (c, [])
     | Inr None \<Rightarrow> None
     | Inr (Some buf) \<Rightarrow> Some (0, cstr (bzero 128) @ cstr buf)
   }"

section \<open>fifoserver.c, fifoclient.c and pipe.c\<close>

text \<open>
  The turns of the server: what is written to the FIFO between its fopen and the end of file, or None when
  fopen fails. The result are the strings printed; readbuf keeps its contents from turn to turn.
\<close>

primrec fifo_server :: "bytes option list \<Rightarrow> bytes \<Rightarrow> bytes list option" where
  "fifo_server [] readbuf = Some []"
| "fifo_server (fp # fps) readbuf = do {
     s \<leftarrow> fp;
     readbuf \<leftarrow> (case fgets 80 s of None \<Rightarrow> Some readbuf | Some (l, _) \<Rightarrow> mem_put readbuf 0 (l @ [0]));
     guard (terminated readbuf);
     printed \<leftarrow> fifo_server fps readbuf;
     Some (cstr readbuf # printed)
   }"

text \<open>The exit code of the client and what it writes.\<close>

definition fifo_client :: "bool \<Rightarrow> bytes list \<Rightarrow> int \<times> bytes" where
  "fifo_client fopen_ok argv =
     (if length argv \<noteq> 2 then (1, []) else if \<not> fopen_ok then (1, []) else (0, argv ! 1))"

text \<open>
  pipe.c: the exit code of the parent process and what it prints. The child writes the text to the pipe;
  the parent reads it and prints it without putting a terminator behind it.
\<close>

definition pipe_main :: "bool \<Rightarrow> bytes \<Rightarrow> (int \<times> bytes) option" where
  "pipe_main fork_ok readbuffer =
     (if \<not> fork_ok then Some (1, [])
      else do {
        let text = cs ''Hello, world!'' @ [0x0A];
        readbuffer \<leftarrow> mem_put readbuffer 0 (take 80 text);
        guard (terminated readbuffer);
        Some (0, cstr readbuffer)
      })"

section \<open>Facts about fgets\<close>

lemma fgets_eq:
  assumes "fgets n s = Some (l, rest)" and t: "t = take (n - 1) s" and w: "w = takeWhile (\<lambda>c. c \<noteq> 0x0A) t"
  shows "s \<noteq> []" "2 \<le> n" "l = (if length w < length t then w @ [0x0A] else w)" "rest = drop (length l) s"
proof -
  have "fgets n s = (if s = [] \<or> n < 2 then None
      else Some (if length w < length t then w @ [0x0A] else w,
        drop (length (if length w < length t then w @ [0x0A] else w)) s))"
    by (simp only: fgets_def Let_def t w)
  with assms(1) show "s \<noteq> []" "2 \<le> n" "l = (if length w < length t then w @ [0x0A] else w)"
    "rest = drop (length l) s" by (auto split: if_splits)
qed

lemma fgets_split:
  assumes "fgets n s = Some (l, rest)"
  shows "s = l @ rest" "l \<noteq> []" "length l \<le> n - 1"
proof -
  define t where "t = take (n - 1) s"
  define w where "w = takeWhile (\<lambda>c. c \<noteq> 0x0A) t"
  note e = fgets_eq [OF assms t_def w_def]
  have w: "w = take (length w) t" unfolding w_def by (rule takeWhile_eq_take)
  have p: "l = take (length l) t"
  proof (cases "length w < length t")
    case True
    then have "t ! length w = 0x0A" unfolding w_def using nth_length_takeWhile by fastforce
    then have "take (Suc (length w)) t = w @ [0x0A]" using True w by (simp add: take_Suc_conv_app_nth)
    then show ?thesis using True e(3) by simp
  qed (use e(3) w in simp)
  then have le: "length l \<le> length t" by (metis length_take min.cobounded1)
  then show n: "length l \<le> n - 1" by (simp add: t_def)
  have "l = take (length l) s" using p n unfolding t_def by (metis min_absorb1 take_take)
  then show "s = l @ rest" using e(4) by (metis append_take_drop_id)
  have "t \<noteq> []" unfolding t_def using e(1,2) by (cases s) (simp_all add: take_Cons')
  then show "l \<noteq> []" using e(3) by auto
qed

text \<open>A line ends at its newline, at the size of the buffer, or at the end of the stream.\<close>

lemma fgets_shape:
  assumes "fgets n s = Some (l, rest)"
  shows "0x0A \<notin> set (butlast l)" "last l = 0x0A \<or> length l = n - 1 \<or> rest = []"
proof -
  define t where "t = take (n - 1) s"
  define w where "w = takeWhile (\<lambda>c. c \<noteq> 0x0A) t"
  note e = fgets_eq [OF assms t_def w_def]
  have w: "0x0A \<notin> set w" unfolding w_def using set_takeWhileD by fastforce
  then show "0x0A \<notin> set (butlast l)" unfolding e(3) by (auto dest: in_set_butlastD)
  show "last l = 0x0A \<or> length l = n - 1 \<or> rest = []"
  proof (cases "length w < length t")
    case False
    moreover have "length w \<le> length t" unfolding w_def by (rule length_takeWhile_le)
    ultimately have "length l = length t" using e(3) by simp
    then show ?thesis using e(4) by (auto simp: t_def)
  qed (simp add: e(3))
qed

lemma put_line:
  assumes "length b = 80" "fgets 80 s = Some (l, rest)"
  obtains b' where "mem_put b 0 (l @ [0]) = Some b'" "length b' = 80" "0 \<notin> set l \<Longrightarrow> cstr b' = l" "terminated b'"
proof -
  have "length l \<le> 79" using fgets_split(3) [OF assms(2)] by simp
  with assms(1) have "mem_put b 0 (l @ [0]) = Some (l @ 0 # drop (Suc (length l)) b)" by (simp add: mem_put_def)
  moreover have "length (l @ 0 # drop (Suc (length l)) b) = 80" using assms(1) \<open>length l \<le> 79\<close> by simp
  ultimately show thesis using that cstr_append_zero [of l] by (simp add: terminated_def)
qed

text \<open>The line that copy_loop does not write: what follows the last newline, less the full buffers of it.\<close>

definition after_newline :: "bytes \<Rightarrow> bytes" where
  "after_newline s = rev (takeWhile (\<lambda>c. c \<noteq> 0x0A) (rev s))"

definition unwritten :: "bytes \<Rightarrow> bytes" where
  "unwritten s = (let t = after_newline s in drop (length t - length t mod 79) t)"

lemma after_newline_append: "after_newline (a @ 0x0A # b) = after_newline b"
  by (simp add: after_newline_def takeWhile_tail)

lemma after_newline_id:
  assumes "0x0A \<notin> set s"
  shows "after_newline s = s"
proof -
  have "takeWhile (\<lambda>c. c \<noteq> 0x0A) (rev s) = rev s" using assms by (intro takeWhile_eq_all_conv [THEN iffD2]) auto
  then show ?thesis unfolding after_newline_def by (simp only: rev_rev_ident)
qed

lemma unwritten_step:
  assumes "fgets 80 s = Some (l, rest)"
  shows "unwritten s = (if hits_end 80 l rest then l else unwritten rest)"
proof -
  note f = fgets_split [OF assms] fgets_shape [OF assms]
  show ?thesis
  proof (cases "last l = 0x0A")
    case True
    with f(2) obtain a where l: "l = a @ [0x0A]" by (metis append_butlast_last_id)
    have "after_newline s = after_newline rest" unfolding f(1) l by (simp add: after_newline_append)
    then show ?thesis using True by (simp add: unwritten_def hits_end_def)
  next
    case False
    with f(2,4) have n: "0x0A \<notin> set l" by (cases l rule: rev_cases) auto
    show ?thesis
    proof (cases "0x0A \<in> set rest")
      case True
      then obtain a b where "rest = a @ 0x0A # b" by (meson split_list)
      then have "after_newline s = after_newline rest"
        using after_newline_append [of "l @ a" b] by (simp add: f(1) after_newline_append)
      then show ?thesis using True by (auto simp: unwritten_def hits_end_def)
    next
      case nr: False
      then have t: "after_newline s = l @ rest" "after_newline rest = rest"
        using n by (simp_all add: f(1) after_newline_id)
      show ?thesis
      proof (cases "rest = [] \<and> length l < 79")
        case True
        then show ?thesis using False t by (simp add: unwritten_def hits_end_def)
      next
        case full: False
        then have l: "length l = 79" using f(3,5) False by auto
        then have "(length l + length rest) mod 79 = length rest mod 79" by simp
        then have "length (l @ rest) - length (l @ rest) mod 79 = length l + (length rest - length rest mod 79)"
          using l mod_less_eq_dividend [of "length rest" 79] by simp
        then show ?thesis using full t l by (simp add: unwritten_def hits_end_def Let_def)
      qed
    qed
  qed
qed

lemma copy_loop_written:
  assumes "length b = 80" "0 \<notin> set s"
  shows "\<exists>w. copy_loop s b w0 = Some (w0 @ w) \<and> s = w @ unwritten s"
  using assms
proof (induction s b w0 rule: copy_loop.induct)
  case (1 s b w0)
  show ?case
  proof (cases "fgets 80 s")
    case None
    then have "s = []" by (simp add: fgets_def Let_def split: if_splits)
    then show ?thesis by (simp add: copy_loop.simps fgets_def unwritten_def after_newline_def)
  next
    case (Some r)
    then obtain l rest where r: "fgets 80 s = Some (l, rest)" by (cases r) auto
    have s: "s = l @ rest" by (rule fgets_split(1) [OF r])
    obtain b' where b': "mem_put b 0 (l @ [0]) = Some b'" "length b' = 80" "0 \<notin> set l \<Longrightarrow> cstr b' = l"
      using put_line [OF "1.prems"(1) r] by metis
    have z: "0 \<notin> set l" "0 \<notin> set rest" using "1.prems"(2) s by auto
    show ?thesis
    proof (cases "hits_end 80 l rest")
      case True
      then have "rest = []" by (simp add: hits_end_def)
      moreover have "copy_loop s b w0 = Some w0" using True r b'(1) by (subst copy_loop.simps) simp
      ultimately show ?thesis using True s unwritten_step [OF r] by (intro exI [of _ "[]"]) simp
    next
      case False
      from "1.IH" [OF r refl b'(1) False b'(2) z(2)] obtain w where
        w: "copy_loop rest b' (w0 @ cstr b') = Some ((w0 @ cstr b') @ w)" "rest = w @ unwritten rest" by auto
      have "unwritten s = unwritten rest" using unwritten_step [OF r] False by simp
      moreover have "copy_loop s b w0 = copy_loop rest b' (w0 @ l)"
        using False r b'(1,3) z(1) by (subst copy_loop.simps) simp
      ultimately show ?thesis using b'(3) z(1) w s by (intro exI [of _ "l @ w"]) simp
    qed
  qed
qed

lemma pipe_loop_written:
  assumes "length b = 80" "0 \<notin> set s"
  shows "pipe_loop s b w = Some (w @ s)"
  using assms
proof (induction s b w rule: pipe_loop.induct)
  case (1 s b w)
  show ?case
  proof (cases "fgets 80 s")
    case None
    then have "s = []" by (simp add: fgets_def Let_def split: if_splits)
    then show ?thesis by (simp add: pipe_loop.simps fgets_def)
  next
    case (Some r)
    then obtain l rest where r: "fgets 80 s = Some (l, rest)" by (cases r) auto
    have s: "s = l @ rest" by (rule fgets_split(1) [OF r])
    obtain b' where b': "mem_put b 0 (l @ [0]) = Some b'" "length b' = 80" "0 \<notin> set l \<Longrightarrow> cstr b' = l"
      using put_line [OF "1.prems"(1) r] by metis
    then show ?thesis using "1.IH" [OF r refl b'(1,2)] "1.prems"(2) r s
      by (subst pipe_loop.simps) simp
  qed
qed

lemma last_line_loop_eq: "last_line_loop s b = cmd_exec_loop s b"
proof (induction s b rule: last_line_loop.induct)
  case (1 s b)
  then show ?case
    by (subst last_line_loop.simps, subst cmd_exec_loop.simps) (auto split: option.splits)
qed

section \<open>Properties\<close>

text \<open>
  What the FIFO server prints for a string that is written to it: its first line, cut at 79 characters.
  An empty string leaves what was printed before.
\<close>

definition fifo_line :: "bytes \<Rightarrow> bytes \<Rightarrow> bytes" where
  "fifo_line before s = (case fgets 80 s of None \<Rightarrow> before | Some (l, _) \<Rightarrow> l)"

fun fifo_lines :: "bytes \<Rightarrow> bytes list \<Rightarrow> bytes list" where
  "fifo_lines before [] = []"
| "fifo_lines before (s # ss) = fifo_line before s # fifo_lines (fifo_line before s) ss"

lemma fifo_server_prints:
  assumes "length b = 80" "terminated b" "\<forall>s \<in> set ss. 0 \<notin> set s"
  shows "fifo_server (map Some ss) b = Some (fifo_lines (cstr b) ss)"
  using assms
proof (induction ss arbitrary: b)
  case (Cons s ss)
  show ?case
  proof (cases "fgets 80 s")
    case None
    then show ?thesis using Cons by (simp add: fifo_line_def)
  next
    case (Some r)
    then obtain l rest where r: "fgets 80 s = Some (l, rest)" by (cases r) auto
    have "0 \<notin> set l" using Cons.prems(3) fgets_split(1) [OF r] by auto
    then obtain b' where "mem_put b 0 (l @ [0]) = Some b'" "length b' = 80" "cstr b' = l" "terminated b'"
      using put_line [OF Cons.prems(1) r] by metis
    then show ?thesis using Cons.IH [of b'] Cons.prems(3) r by (simp add: fifo_line_def)
  qed
qed simp

lemma fifo_lines_short:
  assumes "\<forall>s \<in> set ss. s \<noteq> [] \<and> length s < 80 \<and> 0x0A \<notin> set s"
  shows "fifo_lines before ss = ss"
proof -
  have "fgets 80 s = Some (s, [])" if "s \<in> set ss" for s
  proof -
    have t: "s \<noteq> []" "take (80 - 1) s = s" using assms that by auto
    have w: "takeWhile (\<lambda>c. c \<noteq> 0x0A) s = s" by (rule takeWhile_eq_all_conv [THEN iffD2]) (use assms that in auto)
    show ?thesis unfolding fgets_def Let_def t(2) w using t(1) by simp
  qed
  then show ?thesis by (induction ss arbitrary: before) (simp_all add: fifo_line_def)
qed

text \<open>C36. fopen_popen writes to the command a part of the file from its beginning. What is missing is the last
  line if the file does not end in a newline, as far as it does not fill the buffer of 79
  characters: a file whose last line has no newline arrives without its end.\<close>

theorem fopen_popen_writes:
  assumes "fopen (argv ! 2) = Some s" "popen (argv ! 1)" "length argv = 3" "length b = 80" "0 \<notin> set s"
  shows "\<exists>w. fopen_popen_main fopen popen argv b = Some (0, w) \<and> s = w @ unwritten s \<and>
    (s \<noteq> [] \<longrightarrow> last s = 0x0A \<longrightarrow> w = s)"
proof -
  have "unwritten s = []" if e: "s \<noteq> []" "last s = 0x0A"
  proof -
    from e have "s = butlast s @ 0x0A # []" by (metis append_butlast_last_id)
    then have "after_newline s = after_newline []" by (metis after_newline_append)
    then show ?thesis by (simp add: unwritten_def after_newline_def)
  qed
  moreover obtain w where "copy_loop s b [] = Some w" "s = w @ unwritten s"
    using copy_loop_written [OF assms(4,5), of "[]"] by auto
  ultimately show ?thesis using assms(1-3) by (intro exI [of _ w]) (auto simp: fopen_popen_main_def)
qed

theorem fopen_popen_writes_witness:
  "\<exists>w. fopen_popen_main (\<lambda>_. Some (cs ''a'' @ [0x0A] @ cs ''bc'')) (\<lambda>_. True) [[], cs ''sort'', cs ''f''] (bzero 80) =
     Some (0, w) \<and> w = cs ''a'' @ [0x0A]"
proof -
  let ?s = "cs ''a'' @ [0x0A] @ cs ''bc''"
  have z: "0 \<notin> set ?s" by (simp add: cs_def of_char_def)
  have u: "unwritten ?s = cs ''bc''"
    using after_newline_append [of "cs ''a''" "cs ''bc''"] after_newline_id [of "cs ''bc''"]
    by (simp add: unwritten_def cs_def of_char_def)
  obtain w where "fopen_popen_main (\<lambda>_. Some ?s) (\<lambda>_. True) [[], cs ''sort'', cs ''f''] (bzero 80) = Some (0, w)"
    "?s = w @ unwritten ?s"
    using fopen_popen_writes [OF refl TrueI _ _ z, of "[[], cs ''sort'', cs ''f'']" "bzero 80"] by auto
  then show ?thesis unfolding u by (intro exI [of _ w]) simp
qed

text \<open>For every string the client writes, one per opening of the FIFO, the server prints its first line, cut
  at 79 characters; strings of less than 80 characters without newline are printed as they are. An
  empty string makes the server print the string before it again.\<close>

theorem fifo_delivers:
  assumes "length b = 80" "terminated b" "\<forall>s \<in> set ss. 0 \<notin> set s"
  shows "fifo_server (map (\<lambda>s. Some (snd (fifo_client True [name, s]))) ss) b = Some (fifo_lines (cstr b) ss) \<and>
    ((\<forall>s \<in> set ss. s \<noteq> [] \<and> length s < 80 \<and> 0x0A \<notin> set s) \<longrightarrow> fifo_lines (cstr b) ss = ss)"
  using fifo_server_prints [OF assms] fifo_lines_short by (simp add: fifo_client_def)

theorem fifo_delivers_witness:
  "fifo_server (map (\<lambda>s. Some (snd (fifo_client True [cs ''fifoclient'', s]))) [cs ''a'', cs ''bc'', []]) (bzero 80) =
     Some [cs ''a'', cs ''bc'', cs ''bc'']"
proof -
  have "\<forall>s \<in> set [cs ''a'', cs ''bc'', []]. (0 :: u8) \<notin> set s" by (simp add: cs_def of_char_def)
  from fifo_delivers [OF _ _ this, of "bzero 80" "cs ''fifoclient''"]
  show ?thesis by (simp add: fifo_line_def fgets_def Let_def cs_def of_char_def)
qed

lemma popen2_copies:
  assumes "popen_r (cs ''ls'') = Some s" "popen_w (cs ''sort'')" "length b = 80" "0 \<notin> set s"
  shows "popen2_main popen_r popen_w b = Some (0, s)"
  using assms pipe_loop_written [of b s "[]"] by (simp add: popen2_main_def)

lemma popen_cmd_exec_eq:
  "popen_cmd_exec popen cmd (Some b) = map_option (map_sum id Some) (cmd_exec popen cmd b)"
  by (auto simp: popen_cmd_exec_def cmd_exec_def last_line_loop_eq option.map_comp comp_def split: option.splits)

text \<open>What pipe.c prints behind the text is what the array held before.\<close>

lemma pipe_main_prints:
  assumes "length b = 80"
  shows "pipe_main True b = (if terminated (drop 14 b)
    then Some (0, cs ''Hello, world!'' @ [0x0A] @ cstr (drop 14 b)) else None)"
proof -
  let ?h = "cs ''Hello, world!'' @ [0x0A]"
  have h: "length ?h = 14" "0 \<notin> set ?h" by (simp_all add: cs_def of_char_def)
  have p: "mem_put b 0 ?h = Some (?h @ drop 14 b)" using assms h(1) by (simp add: mem_put_def)
  have "terminated (?h @ drop 14 b) = terminated (drop 14 b)" using h(2) unfolding terminated_def by simp
  moreover have "cstr (?h @ drop 14 b) = ?h @ cstr (drop 14 b)"
    using h(2) unfolding cstr_def by (intro takeWhile_append2) auto
  ultimately show ?thesis using p h(1) by (simp add: pipe_main_def Let_def)
qed

end
