(* ===== verification/Udp_Echo.thy ===== *)
theory Udp_Echo
  imports Echo Streams
begin

text \<open>
  socket/udp_client.c, which sends the lines of its standard input to the echo server and prints the
  answers, together with the server of socket/udp_server.c, and the sending side of
  socket/tcp_client.c.
\<close>

section \<open>udp_client.c\<close>

text \<open>What recvfrom gives: a datagram, an error with errno EINTR, or another error (after 3 seconds, EAGAIN).\<close>

datatype reply = Reply bytes | Interrupted | Recv_failed

text \<open>
  The loop of echo_cli on the input that is left and the results of recvfrom. The result are the exit
  code (None when recvfrom still waits), the datagrams sent and the strings printed as received. The
  arrays are cleared after an answer, but not after EINTR.
\<close>

function echo_cli_loop :: "bytes \<Rightarrow> reply list \<Rightarrow> bytes \<Rightarrow> bytes \<Rightarrow>
    (int option \<times> bytes list \<times> bytes list) option" where
  "echo_cli_loop stdin rs sendbuf recvbuf =
     (case fgets 1024 stdin of
        None \<Rightarrow> Some (Some 0, [], [])
      | Some (l, stdin') \<Rightarrow>
          (case mem_put sendbuf 0 (l @ [0]) of
             None \<Rightarrow> None
           | Some sendbuf \<Rightarrow>
               (case rs of
                  [] \<Rightarrow> Some (None, [cstr sendbuf], [])
                | Interrupted # rs \<Rightarrow>
                    map_option (\<lambda>(e, s, p). (e, cstr sendbuf # s, p)) (echo_cli_loop stdin' rs sendbuf recvbuf)
                | Recv_failed # rs \<Rightarrow> Some (Some 1, [cstr sendbuf], [])
                | Reply d # rs \<Rightarrow>
                    (case mem_put recvbuf 0 (take 1024 d) of
                       None \<Rightarrow> None
                     | Some recvbuf \<Rightarrow>
                         if terminated recvbuf
                         then map_option (\<lambda>(e, s, p). (e, cstr sendbuf # s, cstr recvbuf # p))
                           (echo_cli_loop stdin' rs (bzero 1024) (bzero 1024))
                         else None))))"
  by pat_completeness auto
termination
  by (relation "measure (\<lambda>(s, _). length s)") (auto dest: fgets_shorter)

declare echo_cli_loop.simps [simp del]

text \<open>
  echo_cli up to the loop: the address of the network card is asked for, the socket bound to the card and
  to that address. Failures of the first two calls only return (main then ends with 0), bind exits;
  a timeout that cannot be set is reported and ignored.
\<close>

definition echo_cli :: "bool \<Rightarrow> bool \<Rightarrow> bool \<Rightarrow> bytes \<Rightarrow> reply list \<Rightarrow>
    (int option \<times> bytes list \<times> bytes list) option" where
  "echo_cli ioctl_ok device_ok bind_ok stdin rs =
     (if \<not> ioctl_ok then Some (Some 0, [], [])
      else if \<not> device_ok then Some (Some 0, [], [])
      else if \<not> bind_ok then Some (Some 1, [], [])
      else echo_cli_loop stdin rs (bzero 1024) (bzero 1024))"

definition udp_client_prog :: "bool \<Rightarrow> bool \<Rightarrow> bool \<Rightarrow> bool \<Rightarrow> bytes \<Rightarrow> reply list \<Rightarrow>
    (int option \<times> bytes list \<times> bytes list) option" where
  "udp_client_prog socket_ok ioctl_ok device_ok bind_ok stdin rs =
     (if \<not> socket_ok then Some (Some 1, [], []) else echo_cli ioctl_ok device_ok bind_ok stdin rs)"

section \<open>The main function of tcp_client.c\<close>

text \<open>
  The exit code (None while it runs) and what is sent in n turns of the endless loop; send does not fail.
\<close>

definition tcp_echo_client :: "bytes list \<Rightarrow> bool \<Rightarrow> bool \<Rightarrow> nat \<Rightarrow> int option \<times> bytes list" where
  "tcp_echo_client argv socket_ok connect_ok n =
     (if length argv \<noteq> 2 then (Some (- 1), [])
      else if \<not> socket_ok then (Some (- 1), [])
      else if \<not> connect_ok then (Some (- 1), [])
      else (let send_data = cs ''test data'' @ bzero 3 in
        (None, take 12 send_data # replicate n (take 10 send_data))))"

section \<open>Client and server\<close>

text \<open>The lines fgets takes from the input.\<close>

function input_lines :: "nat \<Rightarrow> bytes \<Rightarrow> bytes list" where
  "input_lines n s = (case fgets n s of None \<Rightarrow> [] | Some (l, rest) \<Rightarrow> l # input_lines n rest)"
  by pat_completeness auto
termination
  by (relation "measure (\<lambda>(_, s). length s)") (auto dest: fgets_shorter)

declare input_lines.simps [simp del]

lemma concat_input_lines: "2 \<le> n \<Longrightarrow> concat (input_lines n s) = s"
proof (induction n s rule: input_lines.induct)
  case (1 n s)
  show ?case
  proof (cases "fgets n s")
    case None
    then have "s = []" using "1.prems" by (auto simp: fgets_def Let_def split: if_splits)
    then show ?thesis by (subst input_lines.simps) (simp add: fgets_def)
  next
    case (Some r)
    then obtain l rest where r: "fgets n s = Some (l, rest)" by (cases r) auto
    have "input_lines n s = l # input_lines n rest" using r by (subst input_lines.simps) simp
    then show ?thesis using "1.IH" [OF r refl "1.prems"] fgets_split(1) [OF r] by simp
  qed
qed

lemma input_lines_facts:
  assumes "0 \<notin> set s" "l \<in> set (input_lines n s)"
  shows "l \<noteq> [] \<and> length l \<le> n - 1 \<and> 0 \<notin> set l"
  using assms
proof (induction n s rule: input_lines.induct)
  case (1 n s)
  show ?case
  proof (cases "fgets n s")
    case None
    then show ?thesis using "1.prems"(2) by (simp add: input_lines.simps [of n s])
  next
    case (Some r)
    then obtain l' rest where r: "fgets n s = Some (l', rest)" by (cases r) auto
    then have "input_lines n s = l' # input_lines n rest" by (subst input_lines.simps) simp
    then show ?thesis using "1.IH" [OF r refl] "1.prems" fgets_split [OF r] by auto
  qed
qed

lemma line_buffer:
  assumes "length b = 1024" "length l \<le> 1023" "0 \<notin> set l"
  obtains b' where "mem_put b 0 (l @ [0]) = Some b'" "cstr b' = l" "length b' = 1024"
proof -
  have "mem_put b 0 (l @ [0]) = Some (l @ 0 # drop (Suc (length l)) b)" using assms by (simp add: mem_put_def)
  then show thesis using that cstr_append_zero [OF assms(3)] assms(1,2) by simp
qed

lemma reply_buffer:
  assumes "length l \<le> 1023" "0 \<notin> set l"
  obtains b where "mem_put (bzero 1024) 0 (take 1024 l) = Some b" "cstr b = l" "terminated b"
proof -
  have "mem_put (bzero 1024) 0 (take 1024 l) = Some (l @ bzero (1024 - length l))"
    using assms(1) by (simp add: mem_put_def bzero_def)
  moreover have "bzero (1024 - length l) = 0 # bzero (1023 - length l)"
    using assms(1) by (simp add: bzero_def Suc_diff_le flip: replicate_Suc)
  ultimately show thesis using that cstr_append_zero [OF assms(2)] by (simp add: terminated_def)
qed

text \<open>Every line is answered with itself: the client prints its input.\<close>

lemma echo_cli_loop_echoed:
  assumes "0 \<notin> set s" "length sb = 1024"
  shows "echo_cli_loop s (map Reply (input_lines 1024 s)) sb (bzero 1024) =
    Some (Some 0, input_lines 1024 s, input_lines 1024 s)"
  using assms
proof (induction "length s" arbitrary: s sb rule: less_induct)
  case less
  show ?case
  proof (cases "fgets 1024 s")
    case None
    then show ?thesis by (subst echo_cli_loop.simps) (simp add: input_lines.simps [of 1024 s])
  next
    case (Some r)
    then obtain l rest where r: "fgets 1024 s = Some (l, rest)" by (cases r) auto
    have l: "length l \<le> 1023" "0 \<notin> set l" "0 \<notin> set rest"
      using fgets_split [OF r] less.prems(1) by auto
    obtain b where b: "mem_put sb 0 (l @ [0]) = Some b" "cstr b = l"
      by (rule line_buffer [OF less.prems(2) l(1,2)])
    obtain b' where b': "mem_put (bzero 1024) 0 (take 1024 l) = Some b'" "cstr b' = l" "terminated b'"
      by (rule reply_buffer [OF l(1,2)])
    have i: "input_lines 1024 s = l # input_lines 1024 rest" using r by (subst input_lines.simps) simp
    from less.hyps [OF fgets_shorter [OF r] l(3), of "bzero 1024"]
    show ?thesis using r b b' by (subst echo_cli_loop.simps) (simp add: i)
  qed
qed

text \<open>C29. The echo client and server together: when no datagram is lost and the input has no zero byte, the
  client sends its input line by line (in pieces of at most 1023 bytes), the server answers every
  datagram, goes on waiting, and the client ends with 0 and has printed exactly its input.\<close>

theorem udp_echo_prints_input:
  assumes "0 \<notin> set stdin"
  shows "\<exists>sent. echo_ser (map (\<lambda>d. Received (Some d) False) sent) [] = Some (Waiting, sent) \<and>
    udp_client_prog True True True True stdin (map Reply sent) = Some (Some 0, sent, sent) \<and>
    concat sent = stdin \<and> (\<forall>d \<in> set sent. d \<noteq> [] \<and> length d < 1024)"
proof -
  let ?ls = "input_lines 1024 stdin"
  have f: "\<forall>d \<in> set ?ls. d \<noteq> [] \<and> length d < 1024" using input_lines_facts [OF assms, of _ 1024] by fastforce
  have p: "takeWhile passes (map (\<lambda>d. Received (Some d) False) ds) = map (\<lambda>d. Received (Some d) False) ds \<and>
      dropWhile passes (map (\<lambda>d. Received (Some d) False) ds) = [] \<and>
      concat (map answers (map (\<lambda>d. Received (Some d) False) ds)) = ds"
    if "\<forall>d \<in> set ds. d \<noteq> [] \<and> length d < 1024" for ds
    using that by (induction ds) simp_all
  have "echo_ser (map (\<lambda>d. Received (Some d) False) ?ls) [] = Some (Waiting, ?ls)"
    using echo_ser_spec [of "map (\<lambda>d. Received (Some d) False) ?ls" "[]"] f p [OF f] by auto
  moreover have "udp_client_prog True True True True stdin (map Reply ?ls) = Some (Some 0, ?ls, ?ls)"
    using echo_cli_loop_echoed [OF assms, of "bzero 1024"] by (simp add: udp_client_prog_def echo_cli_def)
  ultimately show ?thesis using f concat_input_lines [of 1024 stdin] by (intro exI [of _ ?ls]) simp
qed

theorem udp_echo_prints_input_witness:
  "\<exists>sent. udp_client_prog True True True True (cs ''hi'' @ [0x0A] @ cs ''you'') (map Reply sent) = Some (Some 0, sent, sent) \<and>
     concat sent = cs ''hi'' @ [0x0A] @ cs ''you''"
proof -
  have "0 \<notin> set (cs ''hi'' @ [0x0A] @ cs ''you'')" by (simp add: cs_def of_char_def)
  from udp_echo_prints_input [OF this] show ?thesis by blast
qed

text \<open>
  A line that begins with a zero byte is sent as an empty datagram, which ends the server.
\<close>

lemma empty_line_ends_server:
  "\<exists>sent. udp_client_prog True True True True [0, 0x0A] [] = Some (None, sent, []) \<and>
    echo_ser (map (\<lambda>d. Received (Some d) False) sent) [] = Some (Exited, [])"
  by (simp add: udp_client_prog_def echo_cli_def echo_cli_loop.simps fgets_def mem_put_def cstr_def Let_def)

end
