(* ===== verification/Handout.thy ===== *)
theory Handout
  imports Prelude
begin

text \<open>
  What the two classes Filelist promise to their callers: a queue of names in which every name
  is handed out at most once, in the order of arrival, and stays in the queue until it is
  cleared. The locale is the contract; its lemmas are proved for every implementation of it.
\<close>

text \<open>The abstract queue: names with a flag that says whether the name was handed out.\<close>

type_synonym tickets = "(bytes \<times> bool) list"

fun hand_out :: "tickets \<Rightarrow> bytes \<times> tickets" where
  "hand_out [] = ([], [])"
| "hand_out ((x, h) # es) =
     (if h then let (r, es') = hand_out es in (r, (x, h) # es') else (x, (x, True) # es))"

fun remove_first :: "bytes \<Rightarrow> tickets \<Rightarrow> tickets" where
  "remove_first x [] = []"
| "remove_first x ((y, h) # es) = (if y = x then es else (y, h) # remove_first x es)"

definition pending :: "tickets \<Rightarrow> bytes list" where
  "pending es = map fst (filter (\<lambda>e. \<not> snd e) es)"

lemma pending_simps [simp]:
  "pending [] = []" "pending ((x, h) # es) = (if h then pending es else x # pending es)"
  "pending (es @ fs) = pending es @ pending fs"
  by (simp_all add: pending_def)

lemma hand_out_pending:
  "hand_out es = (r, es') \<Longrightarrow>
     r = (case pending es of [] \<Rightarrow> [] | x # _ \<Rightarrow> x) \<and> pending es' = tl (pending es) \<and>
     map fst es' = map fst es"
  by (induction es arbitrary: r es' rule: hand_out.induct) (auto split: if_splits prod.splits)

lemma map_fst_remove_first: "map fst (remove_first x es) = remove1 x (map fst es)"
  by (induction x es rule: remove_first.induct) auto

text \<open>Putting in a list of names and asking for n names.\<close>

fun put_all :: "(bytes \<Rightarrow> 'q \<Rightarrow> 'q option) \<Rightarrow> bytes list \<Rightarrow> 'q \<Rightarrow> 'q option" where
  "put_all put [] q = Some q"
| "put_all put (x # xs) q = Option.bind (put x q) (put_all put xs)"

fun get_n :: "('q \<Rightarrow> bytes \<times> 'q) \<Rightarrow> nat \<Rightarrow> 'q \<Rightarrow> bytes list \<times> 'q" where
  "get_n get 0 q = ([], q)"
| "get_n get (Suc n) q = (let (x, q) = get q; (xs, q) = get_n get n q in (x # xs, q))"

locale handout_queue =
  fixes entries :: "'q \<Rightarrow> tickets"
    and ok :: "'q \<Rightarrow> bool"
    and fits :: "bytes \<Rightarrow> bool"
    and put :: "bytes \<Rightarrow> 'q \<Rightarrow> 'q option"
    and get :: "'q \<Rightarrow> bytes \<times> 'q"
    and clear :: "bytes \<Rightarrow> 'q \<Rightarrow> 'q"
  assumes put_spec: "ok q \<Longrightarrow> fits x \<Longrightarrow> \<exists>q'. put x q = Some q' \<and> ok q' \<and> entries q' = entries q @ [(x, False)]"
    and get_spec: "ok q \<Longrightarrow> get q = (r, q') \<Longrightarrow> ok q' \<and> hand_out (entries q) = (r, entries q')"
    and clear_spec: "ok q \<Longrightarrow> ok (clear x q) \<and> entries (clear x q) = remove_first x (entries q)"
begin

lemma put_all_spec:
  "ok q \<Longrightarrow> \<forall>x \<in> set xs. fits x \<Longrightarrow>
     \<exists>q'. put_all put xs q = Some q' \<and> ok q' \<and> entries q' = entries q @ map (\<lambda>x. (x, False)) xs"
proof (induction xs arbitrary: q)
  case (Cons x xs)
  from Cons.prems obtain q1 where "put x q = Some q1" "ok q1" "entries q1 = entries q @ [(x, False)]"
    using put_spec by fastforce
  with Cons.IH [of q1] Cons.prems(2) show ?case by auto
qed simp

lemma get_n_spec:
  "ok q \<Longrightarrow> get_n get n q = (xs, q') \<Longrightarrow>
     ok q' \<and> xs = take n (pending (entries q)) @ replicate (n - length (pending (entries q))) [] \<and>
     pending (entries q') = drop n (pending (entries q)) \<and> map fst (entries q') = map fst (entries q)"
proof (induction n arbitrary: q xs)
  case (Suc n)
  obtain x q1 where g: "get q = (x, q1)" by force
  obtain ys where ys: "get_n get n q1 = (ys, q')" "xs = x # ys"
    using Suc.prems(2) g by (auto split: prod.splits)
  have o: "ok q1" "hand_out (entries q) = (x, entries q1)" using get_spec [OF Suc.prems(1) g] by auto
  from hand_out_pending [OF o(2)] Suc.IH [OF o(1) ys(1)] ys(2) show ?case
    by (cases "pending (entries q)") auto
qed simp

text \<open>Names put in are handed out in their order after those already waiting, each of them once.\<close>

lemma put_all_drain:
  assumes "ok q" "\<forall>x \<in> set xs. fits x"
  shows "\<exists>q1. put_all put xs q = Some q1 \<and>
    fst (get_n get (length (pending (entries q)) + length xs + k) q1) =
      pending (entries q) @ xs @ replicate k []"
proof -
  from put_all_spec [OF assms] obtain q1 where
    q1: "put_all put xs q = Some q1" "ok q1" "entries q1 = entries q @ map (\<lambda>x. (x, False)) xs" by blast
  obtain ys q2 where g: "get_n get (length (pending (entries q)) + length xs + k) q1 = (ys, q2)" by force
  have "pending (map (\<lambda>x. (x, False)) xs) = xs" by (induction xs) auto
  with get_n_spec [OF q1(2) g] q1(1,3) g show ?thesis by simp
qed

text \<open>A name that is cleared is not handed out; the others keep their order.\<close>

lemma clear_get_n:
  assumes "ok q" "get_n get n (clear x q) = (ys, q')"
  shows "ys = take n (pending (remove_first x (entries q))) @
    replicate (n - length (pending (remove_first x (entries q)))) []"
  using get_n_spec [OF _ assms(2)] clear_spec [OF assms(1)] by simp

end

end
