(* ===== verification/Inotify_Events.thy ===== *)
theory Inotify_Events
  imports CString MD5_File
begin

text \<open>
  The events of inotify as the kernel lays them out in the buffer of read, and the loop that takes
  them out of it. filelist_inotify.cpp and inotify_creat.c have the same loop and differ in what
  they do with an event, the parameter act.
\<close>

text \<open>
  The loop over the bytes that read delivered: a struct inotify_event has the four 32-bit fields
  wd, mask, cookie and len, and len bytes of name. event_size is an int.
\<close>

partial_function (option) event_loop :: "(u32 \<Rightarrow> bytes \<Rightarrow> 'a \<Rightarrow> 'a) \<Rightarrow> bytes \<Rightarrow> int \<Rightarrow> int \<Rightarrow> 'a \<Rightarrow> 'a option" where
  "event_loop act buf ret pos x =
     (if ret < 16 then Some x
      else if pos < 0 then None
      else Option.bind (Option.bind (mem_get buf (nat pos + 4) 4) of_le32) (\<lambda>msk.
           Option.bind (Option.bind (mem_get buf (nat pos + 12) 4) of_le32) (\<lambda>len.
           Option.bind
             (if len = 0 then Some x
              else if terminated (drop (nat pos + 16) buf)
              then Some (act msk (cstr (drop (nat pos + 16) buf)) x) else None)
             (\<lambda>x. event_loop act buf (ret - sint (16 + len)) (pos + sint (16 + len)) x))))"

section \<open>Events as the kernel lays them out\<close>

record event =
  ev_wd :: u32
  ev_mask :: u32
  ev_cookie :: u32
  ev_name :: bytes
  ev_pad :: nat

definition event_bytes :: "event \<Rightarrow> bytes" where
  "event_bytes e = le32 (ev_wd e) @ le32 (ev_mask e) @ le32 (ev_cookie e) @
     le32 (of_nat (length (ev_name e) + ev_pad e)) @ ev_name e @ bzero (ev_pad e)"

text \<open>A name is followed by at least one zero byte; an event of the directory itself has none.\<close>

definition wf_event :: "event \<Rightarrow> bool" where
  "wf_event e \<longleftrightarrow> 0 \<notin> set (ev_name e) \<and> (ev_name e = [] \<longleftrightarrow> ev_pad e = 0)"

definition act_event :: "(u32 \<Rightarrow> bytes \<Rightarrow> 'a \<Rightarrow> 'a) \<Rightarrow> event \<Rightarrow> 'a \<Rightarrow> 'a" where
  "act_event act e x = (if ev_name e = [] then x else act (ev_mask e) (ev_name e) x)"

lemma length_event_bytes: "length (event_bytes e) = 16 + length (ev_name e) + ev_pad e"
  by (simp add: event_bytes_def)

text \<open>The fields of an event that lies between A and B in the buffer.\<close>

lemma event_fields:
  fixes e A B
  defines "buf \<equiv> A @ event_bytes e @ B" and "l \<equiv> (of_nat (length (ev_name e) + ev_pad e) :: u32)"
  assumes "wf_event e" "length buf < 2 ^ 31"
  shows "mem_get buf (length A) 4 = Some (le32 (ev_wd e))"
    and "mem_get buf (length A + 4) 4 = Some (le32 (ev_mask e))"
    and "mem_get buf (length A + 12) 4 = Some (le32 l)"
    and "l = 0 \<longleftrightarrow> ev_name e = []"
    and "sint (16 + l) = int (length (event_bytes e))"
    and "ev_name e \<noteq> [] \<Longrightarrow> terminated (drop (length A + 16) buf) \<and> cstr (drop (length A + 16) buf) = ev_name e"
proof -
  let ?l = "length (ev_name e) + ev_pad e"
  have small: "?l + 16 < 2 ^ 31" using assms(4) by (simp add: buf_def length_event_bytes)
  show "mem_get buf (length A) 4 = Some (le32 (ev_wd e))" "mem_get buf (length A + 4) 4 = Some (le32 (ev_mask e))"
    "mem_get buf (length A + 12) 4 = Some (le32 l)"
    by (simp_all add: buf_def l_def mem_get_def event_bytes_def le32_def del: of_nat_add)
  have "unat l = ?l" unfolding l_def using small by (simp add: unat_of_nat take_bit_nat_eq_self del: of_nat_add)
  then show "l = 0 \<longleftrightarrow> ev_name e = []" using assms(3) by (auto simp: wf_event_def unat_eq_0 simp del: of_nat_add)
  have "(16 + l :: u32) = of_nat (16 + ?l)" by (simp add: l_def)
  also have "sint \<dots> = int (16 + ?l)"
    using small by (simp only: signed_of_nat) (simp add: signed_take_bit_int_eq_self)
  finally show "sint (16 + l) = int (length (event_bytes e))" by (simp add: length_event_bytes)
  assume "ev_name e \<noteq> []"
  with assms(3) obtain k where "ev_pad e = Suc k" by (auto simp: wf_event_def gr0_conv_Suc)
  then have "drop (length A + 16) buf = ev_name e @ 0 # bzero k @ B"
    by (simp add: buf_def event_bytes_def le32_def bzero_def)
  then show "terminated (drop (length A + 16) buf) \<and> cstr (drop (length A + 16) buf) = ev_name e"
    using assms(3) by (simp add: terminated_def wf_event_def cstr_append_zero)
qed

lemma event_loop_step:
  assumes "wf_event e" "length (A @ event_bytes e @ B) < 2 ^ 31" "length (event_bytes e) \<le> n"
  shows "event_loop act (A @ event_bytes e @ B) (int n) (int (length A)) x =
    event_loop act (A @ event_bytes e @ B) (int n - int (length (event_bytes e)))
      (int (length A) + int (length (event_bytes e))) (act_event act e x)"
proof -
  note f = event_fields [OF assms(1,2)]
  have "\<not> int n < 16" "\<not> int (length A) < 0" using assms(3) by (simp_all add: length_event_bytes)
  moreover have "nat (int (length A)) = length A" by simp
  ultimately show ?thesis
    unfolding event_loop.simps [of act _ "int n"]
    by (simp only: if_False f(2-5) bind.bind_lunit of_le32_le32) (use f(6) in \<open>simp add: act_event_def\<close>)
qed

lemma event_loop_events:
  "\<forall>e \<in> set es. wf_event e \<Longrightarrow> length (A @ concat (map event_bytes es) @ B) < 2 ^ 31 \<Longrightarrow>
     event_loop act (A @ concat (map event_bytes es) @ B) (int (length (concat (map event_bytes es))))
       (int (length A)) x = Some (fold (act_event act) es x)"
proof (induction es arbitrary: A x)
  case Nil
  then show ?case by (subst event_loop.simps) simp
next
  case (Cons e es)
  let ?rest = "concat (map event_bytes es)"
  have "event_loop act (A @ event_bytes e @ ?rest @ B) (int (length (event_bytes e) + length ?rest)) (int (length A)) x =
      event_loop act ((A @ event_bytes e) @ ?rest @ B) (int (length ?rest)) (int (length (A @ event_bytes e)))
        (act_event act e x)"
    using event_loop_step [of e A "?rest @ B" "length (event_bytes e) + length ?rest" act x] Cons.prems by simp
  also have "\<dots> = Some (fold (act_event act) es (act_event act e x))"
    using Cons.prems by (intro Cons.IH) simp_all
  finally show ?case by simp
qed

end
