(* ===== verification/Filelist_Inotify.thy ===== *)
theory Filelist_Inotify
  imports Handout CString MD5_File Inotify_Events
begin

text \<open>
  filelist/filelist_inotify.cpp: the list of files below a directory that is filled by a walk
  through the directory at the start and kept up to date by inotify events. The paths are
  strings of the C++ library (the class in filelist.h, with its char array, is not the one this
  file is written for).
\<close>

record fentry =
  e_flag :: int
  e_path :: bytes

record filelist =
  f_path :: bytes
  f_name :: bytes
  f_vect :: "fentry list"

section \<open>The operations of the list\<close>

definition set_filepath :: "bytes \<Rightarrow> filelist \<Rightarrow> filelist" where
  "set_filepath p fl = fl\<lparr>f_vect := f_vect fl @ [\<lparr>e_flag = 0, e_path = p\<rparr>]\<rparr>"

fun take_unflagged :: "fentry list \<Rightarrow> bytes \<times> fentry list" where
  "take_unflagged [] = ([], [])"
| "take_unflagged (e # v) =
     (if e_flag e = 0 then (e_path e, e\<lparr>e_flag := 1\<rparr> # v)
      else let (p, v') = take_unflagged v in (p, e # v'))"

definition get_filepath :: "filelist \<Rightarrow> bytes \<times> filelist" where
  "get_filepath fl = (let (p, v) = take_unflagged (f_vect fl) in (p, fl\<lparr>f_vect := v\<rparr>))"

fun erase_path :: "bytes \<Rightarrow> fentry list \<Rightarrow> fentry list" where
  "erase_path p [] = []"
| "erase_path p (e # v) = (if e_path e = p then v else e # erase_path p v)"

definition clear_filepath :: "bytes \<Rightarrow> filelist \<Rightarrow> filelist" where
  "clear_filepath p fl = fl\<lparr>f_vect := erase_path p (f_vect fl)\<rparr>"

section \<open>The walk through the directory\<close>

text \<open>
  What readdir delivers, by d_type: the entries of a subdirectory are None when opendir fails on
  it, and then the program exits with status 1 (Inl 1). The path of a subdirectory is put
  together in base, an array of 1000 bytes.
\<close>

datatype dirent = Dt_reg bytes | Dt_lnk bytes | Dt_dir bytes "dirent list option" | Dt_other bytes

fun d_name :: "dirent \<Rightarrow> bytes" where
  "d_name (Dt_reg n) = n"
| "d_name (Dt_lnk n) = n"
| "d_name (Dt_dir n _) = n"
| "d_name (Dt_other n) = n"

definition dot_name :: "bytes \<Rightarrow> bool" where
  "dot_name n \<longleftrightarrow> n = cs ''.'' \<or> n = cs ''..''"

definition sub_base :: "bytes \<Rightarrow> bytes \<Rightarrow> bytes option" where
  "sub_base base n = do {
     b \<leftarrow> strcpy (bzero 1000) base;
     b \<leftarrow> strcat b (cs ''/'');
     strcat b n
   }"

function read_entries :: "bytes \<Rightarrow> dirent list \<Rightarrow> filelist \<Rightarrow> (int + filelist) option" where
  "read_entries base [] fl = Some (Inr fl)"
| "read_entries base (e # es) fl =
     (if dot_name (d_name e) then read_entries base es fl
      else case e of
        Dt_reg n \<Rightarrow> read_entries base es (set_filepath (f_path fl @ n) (fl\<lparr>f_name := n\<rparr>))
      | Dt_dir n sub \<Rightarrow>
          (case sub_base base n of
             None \<Rightarrow> None
           | Some b \<Rightarrow>
               (case (case sub of None \<Rightarrow> Some (Inl 1) | Some ds \<Rightarrow> read_entries (cstr b) ds fl) of
                  None \<Rightarrow> None
                | Some (Inl c) \<Rightarrow> Some (Inl c)
                | Some (Inr fl) \<Rightarrow> read_entries base es fl))
      | _ \<Rightarrow> read_entries base es fl)"
  by pat_completeness auto
termination
  by (relation "measure (\<lambda>(b, es, fl). size_list size es)") auto

definition readFilevect :: "bytes \<Rightarrow> dirent list option \<Rightarrow> filelist \<Rightarrow> (int + filelist) option" where
  "readFilevect base dir fl =
     (case dir of None \<Rightarrow> Some (Inl 1) | Some es \<Rightarrow> read_entries base es fl)"

section \<open>The events\<close>

definition IN_CREATE :: u32 where "IN_CREATE = 0x100"
definition IN_MOVED_TO :: u32 where "IN_MOVED_TO = 0x80"
definition IN_DELETE :: u32 where "IN_DELETE = 0x200"

lemmas in_masks = IN_CREATE_def IN_MOVED_TO_def IN_DELETE_def

text \<open>What the loop does with one event that has a name.\<close>

definition on_event :: "u32 \<Rightarrow> bytes \<Rightarrow> filelist \<Rightarrow> filelist" where
  "on_event msk name fl =
     (let p = strstr name (cs ''filepart'');
          fl = fl\<lparr>f_name := name\<rparr>;
          path = f_path fl @ name
      in if msk AND IN_CREATE \<noteq> 0 then (if p = None then set_filepath path fl else fl)
         else if msk AND IN_MOVED_TO \<noteq> 0 then (if p = None then set_filepath path fl else fl)
         else clear_filepath path fl)"

definition watch_inotify_events :: "read_result \<Rightarrow> filelist \<Rightarrow> (int \<times> filelist) option" where
  "watch_inotify_events r fl =
     (case r of
        Read_error \<Rightarrow> Some (- 1, fl)
      | Read bs \<Rightarrow> do {
          event_buf \<leftarrow> mem_put (bzero 512) 0 bs;
          if length bs < 16 then Some (- 1, fl)
          else do {
            fl \<leftarrow> event_loop on_event event_buf (int (length bs)) 0 fl;
            Some (0, fl)
          }
        })"

text \<open>
  The constructor, up to the start of the thread, and the thread on a finite sequence of reads; fd is
  what inotify_init returned.
\<close>

definition new_Filelist :: "bytes \<Rightarrow> dirent list option \<Rightarrow> (int + filelist) option" where
  "new_Filelist path dir = readFilevect path dir \<lparr>f_path = path, f_name = [], f_vect = []\<rparr>"

fun monitor_loop :: "read_result list \<Rightarrow> filelist \<Rightarrow> filelist option" where
  "monitor_loop [] fl = Some fl"
| "monitor_loop (r # rs) fl = do {
     (_, fl) \<leftarrow> watch_inotify_events r fl;
     monitor_loop rs fl
   }"

definition file_monitor_thread :: "int \<Rightarrow> read_result list \<Rightarrow> filelist \<Rightarrow> filelist option" where
  "file_monitor_thread fd reads fl = (if fd = - 1 then Some fl else monitor_loop reads fl)"

section \<open>The contract of the queue\<close>

definition file_tickets :: "filelist \<Rightarrow> tickets" where
  "file_tickets fl = map (\<lambda>e. (e_path e, e_flag e \<noteq> 0)) (f_vect fl)"

lemma take_unflagged_spec:
  "take_unflagged v = (p, v') \<Longrightarrow>
     hand_out (map (\<lambda>e. (e_path e, e_flag e \<noteq> 0)) v) = (p, map (\<lambda>e. (e_path e, e_flag e \<noteq> 0)) v')"
  by (induction v arbitrary: p v' rule: take_unflagged.induct) (auto split: if_splits prod.splits)

lemma erase_path_spec:
  "map (\<lambda>e. (e_path e, e_flag e \<noteq> 0)) (erase_path p v) =
     remove_first p (map (\<lambda>e. (e_path e, e_flag e \<noteq> 0)) v)"
  by (induction p v rule: erase_path.induct) auto

interpretation file_queue: handout_queue file_tickets "\<lambda>_. True" "\<lambda>_. True"
  "\<lambda>x fl. Some (set_filepath x fl)" get_filepath clear_filepath
  by unfold_locales
    (auto simp: file_tickets_def set_filepath_def get_filepath_def clear_filepath_def erase_path_spec
      dest: take_unflagged_spec split: prod.splits)

lemma file_tickets_simps [simp]:
  "file_tickets (fl\<lparr>f_name := n\<rparr>) = file_tickets fl"
  "file_tickets (set_filepath p fl) = file_tickets fl @ [(p, False)]"
  "file_tickets (clear_filepath p fl) = remove_first p (file_tickets fl)"
  by (simp_all add: file_tickets_def set_filepath_def clear_filepath_def erase_path_spec)

lemma f_path_simps [simp]:
  "f_path (set_filepath p fl) = f_path fl" "f_path (clear_filepath p fl) = f_path fl"
  by (simp_all add: set_filepath_def clear_filepath_def)

text \<open>What an event does to the list.\<close>

abbreviation apply_event :: "event \<Rightarrow> filelist \<Rightarrow> filelist" where
  "apply_event \<equiv> act_event on_event"

section \<open>The regular files of a tree\<close>

function regular :: "dirent list \<Rightarrow> bytes list" where
  "regular [] = []"
| "regular (e # es) =
     (if dot_name (d_name e) then []
      else case e of
        Dt_reg n \<Rightarrow> [n]
      | Dt_dir n (Some ds) \<Rightarrow> regular ds
      | _ \<Rightarrow> []) @ regular es"
  by pat_completeness auto
termination
  by (relation "measure (size_list size)") auto

text \<open>Every subdirectory can be opened and its path fits into base.\<close>

function walkable :: "bytes \<Rightarrow> dirent list \<Rightarrow> bool" where
  "walkable base [] \<longleftrightarrow> True"
| "walkable base (e # es) \<longleftrightarrow>
     (dot_name (d_name e) \<or>
      (case e of
         Dt_dir n sub \<Rightarrow> 0 \<notin> set n \<and> length base + 1 + length n < 1000 \<and>
           (case sub of None \<Rightarrow> False | Some ds \<Rightarrow> walkable (base @ cs ''/'' @ n) ds)
       | _ \<Rightarrow> True)) \<and> walkable base es"
  by pat_completeness auto
termination
  by (relation "measure (\<lambda>(b, es). size_list size es)") auto

lemma sub_base_Some:
  assumes "0 \<notin> set base" "0 \<notin> set n" "length base + 1 + length n < 1000"
  shows "\<exists>b. sub_base base n = Some b \<and> cstr b = base @ cs ''/'' @ n"
proof -
  have sl: "0 \<notin> set (cs ''/'')" "length (cs ''/'') = 1" by (simp_all add: cs_def of_char_def)
  obtain b1 where b1: "strcpy (bzero 1000) base = Some b1"
    using assms(3) by (simp add: strcpy_eq)
  from strcpy_SomeD [OF this assms(1)]
  have c1: "cstr b1 = base" "terminated b1" "length b1 = 1000" by simp_all
  obtain b2 where b2: "strcat b1 (cs ''/'') = Some b2" "cstr b2 = base @ cs ''/''" "terminated b2"
    "length b2 = 1000"
    by (rule strcat_Some [of b1 "cs ''/''"]) (use c1 sl assms(3) in simp_all)
  obtain b3 where "strcat b2 n = Some b3" "cstr b3 = (base @ cs ''/'') @ n"
    by (rule strcat_Some [of b2 n]) (use b2 sl assms in simp_all)
  with b1 b2(1) show ?thesis by (simp add: sub_base_def)
qed

lemma read_entries_spec:
  "0 \<notin> set base \<Longrightarrow> walkable base es \<Longrightarrow>
     \<exists>fl'. read_entries base es fl = Some (Inr fl') \<and> f_path fl' = f_path fl \<and>
       file_tickets fl' = file_tickets fl @ map (\<lambda>n. (f_path fl @ n, False)) (regular es)"
proof (induction "size_list size es" arbitrary: base es fl rule: less_induct)
  case less
  show ?case
  proof (cases es)
    case (Cons e ds)
    have sm: "size_list size ds < size_list size es" by (simp add: Cons)
    have wd: "walkable base ds" using less.prems(2) Cons by simp
    have go: "\<exists>fl'. read_entries base ds fl1 = Some (Inr fl') \<and> f_path fl' = f_path fl1 \<and>
       file_tickets fl' = file_tickets fl1 @ map (\<lambda>n. (f_path fl1 @ n, False)) (regular ds)" for fl1
      by (rule less.hyps [OF sm less.prems(1) wd])
    show ?thesis
    proof (cases "dot_name (d_name e)")
      case True
      then show ?thesis using go [of fl] by (simp add: Cons)
    next
      case False
      show ?thesis
      proof (cases e)
        case (Dt_dir n sub)
        with less.prems(2) Cons False obtain xs where xs: "sub = Some xs" "0 \<notin> set n"
          "length base + 1 + length n < 1000" "walkable (base @ cs ''/'' @ n) xs"
          by (auto split: option.splits)
        obtain b where b: "sub_base base n = Some b" "cstr b = base @ cs ''/'' @ n"
          using sub_base_Some [OF less.prems(1) xs(2,3)] by blast
        have "size_list size xs < size_list size es" by (simp add: Cons Dt_dir xs(1))
        moreover have "0 \<notin> set (base @ cs ''/'' @ n)"
          using less.prems(1) xs(2) by (simp add: cs_def of_char_def)
        ultimately obtain fl1 where fl1: "read_entries (cstr b) xs fl = Some (Inr fl1)" "f_path fl1 = f_path fl"
          "file_tickets fl1 = file_tickets fl @ map (\<lambda>n. (f_path fl @ n, False)) (regular xs)"
          unfolding b(2) using less.hyps [OF _ _ xs(4), of fl] by blast
        then show ?thesis using go [of fl1] False b(1) by (auto simp: Cons Dt_dir xs(1))
      next
        case (Dt_reg n)
        then show ?thesis using go [of "set_filepath (f_path fl @ n) (fl\<lparr>f_name := n\<rparr>)"] False
          by (auto simp: Cons)
      qed (use False go [of fl] in \<open>auto simp: Cons\<close>)
    qed
  qed simp
qed

section \<open>Properties\<close>

lemma watch_events:
  assumes "es \<noteq> []" "\<forall>e \<in> set es. wf_event e" "length (concat (map event_bytes es)) \<le> 512"
  shows "watch_inotify_events (Read (concat (map event_bytes es))) fl = Some (0, fold apply_event es fl)"
proof -
  let ?bs = "concat (map event_bytes es)"
  have "16 \<le> length ?bs" using assms(1) by (cases es) (simp_all add: length_event_bytes)
  moreover have "mem_put (bzero 512) 0 ?bs = Some (?bs @ bzero (512 - length ?bs))"
    using assms(3) by (simp add: mem_put_def bzero_def)
  ultimately show ?thesis
    using event_loop_events [OF assms(2), of "[]" "bzero (512 - length ?bs)" on_event fl] assms(3)
    by (simp add: watch_inotify_events_def)
qed

text \<open>
  The events that the kernel delivers for the watch that the thread sets: a file was created, deleted or
  moved into the directory, and events without a name (an overflow of the queue). A name is filled up
  with zeros to a multiple of 16 bytes. One read delivers several of them; it can also fail.
\<close>

definition kernel_event :: "event \<Rightarrow> bool" where
  "kernel_event e \<longleftrightarrow> 0 \<notin> set (ev_name e) \<and>
     (if ev_name e = [] then ev_pad e = 0
      else ev_mask e \<in> {IN_CREATE, IN_DELETE, IN_MOVED_TO} \<and> ev_pad e = 16 - length (ev_name e) mod 16)"

definition read_events :: "event list \<Rightarrow> read_result" where
  "read_events es = (if es = [] then Read_error else Read (concat (map event_bytes es)))"

lemma kernel_wf_event: "kernel_event e \<Longrightarrow> wf_event e"
proof -
  have "16 - k mod 16 \<noteq> 0" for k :: nat using mod_less_divisor [of 16 k] by linarith
  then show "kernel_event e \<Longrightarrow> wf_event e" by (auto simp: kernel_event_def wf_event_def split: if_splits)
qed

text \<open>The names of the files that were moved into the directory.\<close>

definition moved_in :: "event list \<Rightarrow> bytes list" where
  "moved_in es = map ev_name (filter (\<lambda>e. ev_name e \<noteq> [] \<and> ev_mask e = IN_MOVED_TO) es)"

text \<open>
  A server makes a file under a name that ends in .filepart and moves it into place when it is complete;
  it may also delete the temporary file.
\<close>

definition temporary :: "bytes \<Rightarrow> bool" where
  "temporary n \<longleftrightarrow> (\<exists>m. n = m @ cs ''.filepart'')"

definition by_server :: "event \<Rightarrow> bool" where
  "by_server e \<longleftrightarrow> ev_name e = [] \<or>
     (if ev_mask e = IN_MOVED_TO then strstr (ev_name e) (cs ''filepart'') = None else temporary (ev_name e))"

lemma temporary_strstr:
  assumes "temporary n"
  obtains r where "strstr n (cs ''filepart'') = Some r"
proof -
  obtain m where "n = (m @ cs ''.'') @ cs ''filepart'' @ []" using assms by (auto simp: temporary_def cs_def)
  then show thesis using strstr_found [of "m @ cs ''.''" "cs ''filepart''" "[]"] that by metis
qed

lemma remove_first_absent: "x \<notin> fst ` set ts \<Longrightarrow> remove_first x ts = ts"
  by (induction x ts rule: remove_first.induct) auto

lemma f_path_apply_event: "f_path (apply_event e fl) = f_path fl"
  by (simp add: act_event_def on_event_def Let_def)

lemma f_path_events: "f_path (fold apply_event es fl) = f_path fl"
  by (induction es arbitrary: fl) (simp_all add: f_path_apply_event)

definition no_temporary :: "filelist \<Rightarrow> bool" where
  "no_temporary fl \<longleftrightarrow> (\<forall>p \<in> fst ` set (file_tickets fl). \<forall>n. temporary n \<longrightarrow> p \<noteq> f_path fl @ n)"

lemma server_event:
  assumes "kernel_event e" "by_server e" "no_temporary fl"
  shows "file_tickets (apply_event e fl) = file_tickets fl @ map (\<lambda>n. (f_path fl @ n, False)) (moved_in [e]) \<and>
    no_temporary (apply_event e fl)"
proof (cases "ev_name e = []")
  case False
  then consider (new) "ev_mask e = IN_CREATE" | (gone) "ev_mask e = IN_DELETE" | (moved) "ev_mask e = IN_MOVED_TO"
    using assms(1) by (auto simp: kernel_event_def)
  then show ?thesis
  proof cases
    case new
    then have "temporary (ev_name e)" using assms(2) False by (simp add: by_server_def in_masks)
    then obtain r where "strstr (ev_name e) (cs ''filepart'') = Some r" by (rule temporary_strstr)
    then show ?thesis using False new assms(3)
      by (simp add: act_event_def on_event_def moved_in_def in_masks no_temporary_def Let_def)
  next
    case gone
    then have "temporary (ev_name e)" using assms(2) False by (simp add: by_server_def in_masks)
    then have "f_path fl @ ev_name e \<notin> fst ` set (file_tickets fl)" using assms(3) unfolding no_temporary_def by blast
    then show ?thesis using False gone assms(3)
      by (simp add: act_event_def on_event_def moved_in_def in_masks no_temporary_def remove_first_absent Let_def)
  next
    case moved
    then have n: "strstr (ev_name e) (cs ''filepart'') = None" using assms(2) False by (simp add: by_server_def)
    then have "\<not> temporary (ev_name e)" using temporary_strstr by fastforce
    then show ?thesis using False moved n assms(3)
      by (auto simp: act_event_def on_event_def moved_in_def in_masks no_temporary_def Let_def)
  qed
qed (use assms(3) in \<open>simp add: act_event_def moved_in_def\<close>)

lemma server_events:
  "\<forall>e \<in> set es. kernel_event e \<and> by_server e \<Longrightarrow> no_temporary fl \<Longrightarrow>
     file_tickets (fold apply_event es fl) = file_tickets fl @ map (\<lambda>n. (f_path fl @ n, False)) (moved_in es) \<and>
     no_temporary (fold apply_event es fl)"
proof (induction es arbitrary: fl)
  case (Cons e es)
  then have "moved_in (e # es) = moved_in [e] @ moved_in es" by (simp add: moved_in_def)
  with Cons server_event [of e fl] show ?case by (simp add: f_path_apply_event)
qed (simp add: moved_in_def)

lemma watch_read_events:
  assumes "\<forall>e \<in> set es. kernel_event e" "length (concat (map event_bytes es)) \<le> 512"
  shows "\<exists>r. watch_inotify_events (read_events es) fl = Some (r, fold apply_event es fl)"
proof (cases "es = []")
  case False
  then show ?thesis using watch_events [OF False _ assms(2), of fl] assms(1) kernel_wf_event by (simp add: read_events_def)
qed (simp add: read_events_def watch_inotify_events_def)

lemma monitor_loop_events:
  "\<forall>g \<in> set groups. length (concat (map event_bytes g)) \<le> 512 \<and> (\<forall>e \<in> set g. kernel_event e) \<Longrightarrow>
     monitor_loop (map read_events groups) fl = Some (fold apply_event (concat groups) fl)"
proof (induction groups arbitrary: fl)
  case (Cons g groups)
  then obtain r where "watch_inotify_events (read_events g) fl = Some (r, fold apply_event g fl)"
    using watch_read_events [of g fl] by auto
  with Cons show ?case by simp
qed simp

lemma pending_paths: "pending (xs @ map (\<lambda>n. (g n, False)) ns) = pending xs @ map g ns"
  by (simp add: pending_def comp_def)

text \<open>C13. The byte-level loop over what read delivered carries out exactly the events the kernel laid out in the
  buffer, one after the other, and stays inside the buffer.\<close>

theorem watch_inotify_events_spec:
  assumes "es \<noteq> []" "\<forall>e \<in> set es. wf_event e" "length (concat (map event_bytes es)) \<le> 512"
  shows "watch_inotify_events (Read (concat (map event_bytes es))) fl = Some (0, fold apply_event es fl)"
  using assms by (rule watch_events)

theorem watch_inotify_events_spec_witness:
  "\<exists>fl. watch_inotify_events (Read (event_bytes \<lparr>ev_wd = 1, ev_mask = 0x100, ev_cookie = 0, ev_name = cs ''a'', ev_pad = 15\<rparr> @
       event_bytes \<lparr>ev_wd = 1, ev_mask = 0x200, ev_cookie = 0, ev_name = cs ''b'', ev_pad = 15\<rparr>))
     \<lparr>f_path = cs ''d/'', f_name = [], f_vect = [\<lparr>e_flag = 1, e_path = cs ''d/b''\<rparr>]\<rparr> = Some (0, fl) \<and>
   file_tickets fl = [(cs ''d/a'', False)]"
proof -
  let ?c = "\<lparr>ev_wd = 1, ev_mask = 0x100, ev_cookie = 0, ev_name = cs ''a'', ev_pad = 15\<rparr>"
  let ?d = "\<lparr>ev_wd = 1, ev_mask = 0x200, ev_cookie = 0, ev_name = cs ''b'', ev_pad = 15\<rparr>"
  let ?fl = "\<lparr>f_path = cs ''d/'', f_name = [], f_vect = [\<lparr>e_flag = 1, e_path = cs ''d/b''\<rparr>]\<rparr>"
  have "[?c, ?d] \<noteq> []" "\<forall>e \<in> set [?c, ?d]. wf_event e"
    "length (concat (map event_bytes [?c, ?d])) \<le> 512"
    by (simp_all add: wf_event_def length_event_bytes cs_def of_char_def)
  from watch_inotify_events_spec [OF this, of ?fl]
  have "watch_inotify_events (Read (event_bytes ?c @ event_bytes ?d)) ?fl =
      Some (0, apply_event ?d (apply_event ?c ?fl))" by simp
  moreover have "file_tickets (apply_event ?d (apply_event ?c ?fl)) = [(cs ''d/a'', False)]"
    by (simp add: act_event_def on_event_def in_masks Let_def strstr.simps cs_def of_char_def
        file_tickets_def set_filepath_def clear_filepath_def)
  ultimately show ?thesis by blast
qed

text \<open>C15. Every file that a server moves into the directory is handed out exactly once, in the order in which
  the files were completed and after those still waiting, and never under its temporary name, however
  the events of several transfers are interleaved, spread over reads and mixed with failing reads.\<close>

theorem received_files_handed_out:
  assumes fd: "fd \<noteq> - 1" and fl: "no_temporary fl"
    and groups: "\<forall>g \<in> set groups. length (concat (map event_bytes g)) \<le> 512 \<and> (\<forall>e \<in> set g. kernel_event e \<and> by_server e)"
  shows "\<exists>fl'. file_monitor_thread fd (map read_events groups) fl = Some fl' \<and>
    fst (get_n get_filepath (length (pending (file_tickets fl)) + length (moved_in (concat groups)) + k) fl') =
      pending (file_tickets fl) @ map (\<lambda>n. f_path fl @ n) (moved_in (concat groups)) @ replicate k []"
proof -
  let ?fl = "fold apply_event (concat groups) fl" and ?ns = "moved_in (concat groups)"
  have "file_tickets ?fl = file_tickets fl @ map (\<lambda>n. (f_path fl @ n, False)) ?ns"
    using server_events [OF _ fl, of "concat groups"] groups by auto
  then have p: "pending (file_tickets ?fl) = pending (file_tickets fl) @ map (\<lambda>n. f_path fl @ n) ?ns"
    by (simp only: pending_paths)
  obtain xs fl2 where g: "get_n get_filepath (length (pending (file_tickets fl)) + length ?ns + k) ?fl = (xs, fl2)"
    by force
  have "xs = pending (file_tickets fl) @ map (\<lambda>n. f_path fl @ n) ?ns @ replicate k []"
    using file_queue.get_n_spec [OF TrueI g] p by simp
  then show ?thesis using monitor_loop_events [of groups fl] groups fd g
    by (intro exI [of _ ?fl]) (simp add: file_monitor_thread_def)
qed

text \<open>Two transfers that overlap, in two reads around a failing one.\<close>

definition server_event_of :: "u32 \<Rightarrow> bytes \<Rightarrow> event" where
  "server_event_of msk n = \<lparr>ev_wd = 1, ev_mask = msk, ev_cookie = 7, ev_name = n, ev_pad = 16 - length n mod 16\<rparr>"

definition two_transfers :: "event list list" where
  "two_transfers =
     [[server_event_of IN_CREATE (cs ''a.jpg.filepart''), server_event_of IN_CREATE (cs ''b.filepart'')],
      [], [server_event_of IN_MOVED_TO (cs ''b''), server_event_of IN_MOVED_TO (cs ''a.jpg'')]]"

theorem received_files_handed_out_witness:
  "\<exists>fl'. file_monitor_thread 3 (map read_events two_transfers)
       \<lparr>f_path = cs ''d/'', f_name = [], f_vect = [\<lparr>e_flag = 0, e_path = cs ''d/x''\<rparr>]\<rparr> = Some fl' \<and>
     fst (get_n get_filepath 4 fl') = [cs ''d/x'', cs ''d/b'', cs ''d/a.jpg'', []]"
proof -
  let ?fl = "\<lparr>f_path = cs ''d/'', f_name = [], f_vect = [\<lparr>e_flag = 0, e_path = cs ''d/x''\<rparr>]\<rparr>"
  have t: "temporary (cs ''a.jpg.filepart'')" "temporary (cs ''b.filepart'')"
    unfolding temporary_def by (rule exI [of _ "cs ''a.jpg''"], simp add: cs_def) (rule exI [of _ "cs ''b''"], simp add: cs_def)
  have x: "cs ''d/x'' \<noteq> cs ''d/'' @ m @ cs ''.filepart''" for m
    using arg_cong [of "cs ''d/x''" "cs ''d/'' @ m @ cs ''.filepart''" length] by (auto simp: cs_def)
  then have fl: "no_temporary ?fl" by (auto simp: no_temporary_def file_tickets_def temporary_def)
  have k: "kernel_event (server_event_of msk n) \<longleftrightarrow> 0 \<notin> set n \<and> msk \<in> {IN_CREATE, IN_DELETE, IN_MOVED_TO}" if "n \<noteq> []" for msk n
    using that by (simp add: kernel_event_def server_event_of_def)
  have ne: "cs ''a.jpg.filepart'' \<noteq> []" "cs ''b.filepart'' \<noteq> []" "cs ''b'' \<noteq> []" "cs ''a.jpg'' \<noteq> []" by (simp_all add: cs_def)
  have b: "by_server (server_event_of IN_CREATE n) \<longleftrightarrow> n = [] \<or> temporary n"
    "by_server (server_event_of IN_MOVED_TO n) \<longleftrightarrow> n = [] \<or> strstr n (cs ''filepart'') = None" for n
    by (simp_all add: by_server_def server_event_of_def in_masks)
  have z: "0 \<notin> set (cs ''a.jpg.filepart'')" "0 \<notin> set (cs ''b.filepart'')" "0 \<notin> set (cs ''b'')" "0 \<notin> set (cs ''a.jpg'')"
    "strstr (cs ''b'') (cs ''filepart'') = None" "strstr (cs ''a.jpg'') (cs ''filepart'') = None"
    by (simp_all add: cs_def of_char_def strstr.simps)
  have g: "\<forall>g \<in> set two_transfers. length (concat (map event_bytes g)) \<le> 512 \<and> (\<forall>e \<in> set g. kernel_event e \<and> by_server e)"
    by (simp add: two_transfers_def k ne b z t) (simp add: length_event_bytes server_event_of_def cs_def)
  have m: "moved_in (concat two_transfers) = [cs ''b'', cs ''a.jpg'']"
    by (simp add: moved_in_def two_transfers_def server_event_of_def in_masks cs_def)
  have p: "pending (file_tickets ?fl) = [cs ''d/x'']" by (simp add: file_tickets_def)
  have n: "length (pending (file_tickets ?fl)) + length (moved_in (concat two_transfers)) + 1 = 4" unfolding p m by simp
  have "(3 :: int) \<noteq> - 1" by simp
  from received_files_handed_out [OF this fl g, of 1]
  show ?thesis unfolding n unfolding p m by (simp add: cs_def del: get_n.simps)
qed

text \<open>The walk at the start queues exactly the regular files of the whole tree, once each and in the order
  of the walk. Each is queued under the path of the top directory followed by its own name: for a
  file in a subdirectory that is not its path.\<close>

theorem readFilevect_regular_files:
  assumes "0 \<notin> set base" "walkable base es"
  shows "\<exists>fl'. readFilevect base (Some es) fl = Some (Inr fl') \<and>
    file_tickets fl' = file_tickets fl @ map (\<lambda>n. (f_path fl @ n, False)) (regular es)"
  using read_entries_spec [OF assms, of fl] by (auto simp: readFilevect_def)

theorem readFilevect_regular_files_witness:
  "\<exists>fl'. readFilevect (cs ''p'') (Some [Dt_dir (cs ''.'') None, Dt_reg (cs ''a''),
        Dt_dir (cs ''s'') (Some [Dt_reg (cs ''b'')])]) \<lparr>f_path = cs ''p/'', f_name = [], f_vect = []\<rparr> =
      Some (Inr fl') \<and>
    file_tickets fl' = [(cs ''p/a'', False), (cs ''p/b'', False)]"
proof -
  let ?es = "[Dt_dir (cs ''.'') None, Dt_reg (cs ''a''), Dt_dir (cs ''s'') (Some [Dt_reg (cs ''b'')])]"
  have "0 \<notin> set (cs ''p'')" "walkable (cs ''p'') ?es"
    by (simp_all add: dot_name_def cs_def of_char_def)
  moreover have "regular ?es = [cs ''a'', cs ''b'']" by (simp add: dot_name_def cs_def of_char_def)
  ultimately show ?thesis
    using readFilevect_regular_files [of "cs ''p''" ?es "\<lparr>f_path = cs ''p/'', f_name = [], f_vect = []\<rparr>"]
    by (simp add: file_tickets_def cs_def)
qed

end
