(* ===== verification/Readdir.thy ===== *)
theory Readdir
  imports Filelist_Inotify
begin

text \<open>
  readdir/readdir.cpp: the names of the regular files of a tree. The function is the ancestor of
  readFilevect in filelist_inotify.cpp; directories are given as there. Inl is the status with which
  the program exits when a directory cannot be opened.
\<close>

function readFileList_entries :: "bytes \<Rightarrow> dirent list \<Rightarrow> bytes list \<Rightarrow> (int + bytes list) option" where
  "readFileList_entries base [] FileList = Some (Inr FileList)"
| "readFileList_entries base (e # es) FileList =
     (if dot_name (d_name e) then readFileList_entries base es FileList
      else case e of
        Dt_reg n \<Rightarrow> readFileList_entries base es (FileList @ [n])
      | Dt_dir n sub \<Rightarrow>
          (case sub_base base n of
             None \<Rightarrow> None
           | Some b \<Rightarrow>
               (case (case sub of None \<Rightarrow> Some (Inl 1) | Some ds \<Rightarrow> readFileList_entries (cstr b) ds FileList) of
                  None \<Rightarrow> None
                | Some (Inl c) \<Rightarrow> Some (Inl c)
                | Some (Inr FileList) \<Rightarrow> readFileList_entries base es FileList))
      | _ \<Rightarrow> readFileList_entries base es FileList)"
  by pat_completeness auto
termination
  by (relation "measure (\<lambda>(b, es, l). size_list size es)") auto

definition readFileList :: "bytes \<Rightarrow> dirent list option \<Rightarrow> bytes list \<Rightarrow> (int + bytes list) option" where
  "readFileList basePath dir FileList =
     (case dir of None \<Rightarrow> Some (Inl 1) | Some es \<Rightarrow> readFileList_entries basePath es FileList)"

text \<open>The list of names and the queue of paths agree.\<close>

definition same_list :: "filelist \<Rightarrow> bytes list \<Rightarrow> filelist \<Rightarrow> bool" where
  "same_list fl0 l fl \<longleftrightarrow> f_path fl = f_path fl0 \<and>
     file_tickets fl = file_tickets fl0 @ map (\<lambda>n. (f_path fl0 @ n, False)) l"

fun same_outcome :: "filelist \<Rightarrow> (int + bytes list) option \<Rightarrow> (int + filelist) option \<Rightarrow> bool" where
  "same_outcome fl0 None y \<longleftrightarrow> y = None"
| "same_outcome fl0 (Some (Inl c)) y \<longleftrightarrow> y = Some (Inl c)"
| "same_outcome fl0 (Some (Inr l)) y \<longleftrightarrow> (\<exists>fl. y = Some (Inr fl) \<and> same_list fl0 l fl)"

lemma entries_same:
  "same_list fl0 l fl \<Longrightarrow> same_outcome fl0 (readFileList_entries base es l) (read_entries base es fl)"
proof (induction base es l arbitrary: fl rule: readFileList_entries.induct)
  case (2 base e es l)
  show ?case
  proof (cases "dot_name (d_name e)")
    case False
    show ?thesis
    proof (cases e)
      case (Dt_reg n)
      have "same_list fl0 (l @ [n]) (set_filepath (f_path fl @ n) (fl\<lparr>f_name := n\<rparr>))"
        using "2.prems" by (simp add: same_list_def)
      from "2.IH"(2) [OF False Dt_reg this] show ?thesis using False by (simp add: Dt_reg)
    next
      case (Dt_dir n sub)
      show ?thesis
      proof (cases "sub_base base n")
        case None
        then show ?thesis using False by (simp add: Dt_dir)
      next
        case (Some b)
        show ?thesis
        proof (cases sub)
          case None
          then show ?thesis using False Some by (simp add: Dt_dir)
        next
          case (Some ds)
          note sb = \<open>sub_base base n = Some b\<close>
          note sub = "2.IH"(4) [OF False Dt_dir sb Some "2.prems"]
          show ?thesis
          proof (cases "readFileList_entries (cstr b) ds l")
            case None
            then show ?thesis using sub False sb Some by (simp add: Dt_dir)
          next
            case (Some r)
            show ?thesis
            proof (cases r)
              case (Inr l1)
              with sub Some obtain fl1 where f: "read_entries (cstr b) ds fl = Some (Inr fl1)" "same_list fl0 l1 fl1" by auto
              have "(case sub of None \<Rightarrow> Some (Inl 1) | Some ds \<Rightarrow> readFileList_entries (cstr b) ds l) = Some r"
                using \<open>sub = Some ds\<close> Some by simp
              from "2.IH"(5) [OF False Dt_dir sb this Inr f(2)] show ?thesis
                using False sb \<open>sub = Some ds\<close> Some Inr f(1) by (simp add: Dt_dir)
            qed (use sub False sb \<open>sub = Some ds\<close> Some in \<open>simp add: Dt_dir\<close>)
          qed
        qed
      qed
    qed (use "2.IH" "2.prems" False in simp_all)
  qed (use "2.IH"(1) "2.prems" in simp)
qed simp

text \<open>C35. On every tree the program collects the names under which filelist_inotify.cpp queues the files, ends
  the same way when a directory cannot be opened, and overflows its path buffer on the same trees.\<close>

theorem readFileList_agrees:
  "same_outcome fl (readFileList base dir []) (readFilevect base dir fl)"
  using entries_same [of fl "[]" fl] by (cases dir) (simp_all add: readFileList_def readFilevect_def same_list_def)

end
