(* ===== verification/Posix.thy ===== *)
theory Posix
  imports Strtok MD5_File
begin

text \<open>
  The calls of the C library and the kernel that the file transfer programs use on files: open,
  read, write, close, opendir, mkdir, rename and utime, on a file system with inodes and a table
  of file descriptors of fixed size. A call that fails returns -1.

  Paths are resolved component by component; there are no symbolic links, and permissions always
  suffice.
\<close>

datatype fd_entry = Free | Tty | Dir | File nat nat

record fs =
  names :: "bytes list \<Rightarrow> nat option"
  dirs :: "bytes list \<Rightarrow> bool"
  inode :: "nat \<Rightarrow> bytes"
  mtime :: "nat \<Rightarrow> u64"
  fresh :: nat
  room :: nat
  fds :: "fd_entry list"

text \<open>
  names gives the inode of a path, inode the contents and the offset in \<open>File ino off\<close> the
  position of an open file; room is the number of bytes by which files can still grow.
\<close>

section \<open>Paths\<close>

abbreviation slash :: u8 where "slash \<equiv> 0x2F"

definition resolve_step :: "bytes list \<Rightarrow> bytes \<Rightarrow> bytes list" where
  "resolve_step p c = (if c = cs ''.'' then p else if c = cs ''..'' then butlast p else p @ [c])"

definition resolve :: "bytes \<Rightarrow> bytes list" where
  "resolve path = foldl resolve_step [] (tokens [slash] path)"

lemma tokens_append_delim:
  assumes "c \<in> set d"
  shows "tokens d (a @ c # b) = tokens d a @ tokens d b"
proof (induction "length a" arbitrary: a rule: less_induct)
  case less
  let ?D = "\<lambda>c. c \<in> set d" and ?N = "\<lambda>c. c \<notin> set d"
  show ?case
  proof (cases "dropWhile ?D a")
    case Nil
    then have "dropWhile ?D (a @ c # b) = dropWhile ?D b" using assms
      by (auto simp: dropWhile_append dropWhile_eq_Nil_conv)
    then have "tokens d (a @ c # b) = tokens d b"
      by (simp only: tokens.simps [of d "a @ c # b"] tokens.simps [of d b])
    moreover have "tokens d a = []" using Nil by (simp add: tokens.simps [of d a])
    ultimately show ?thesis by simp
  next
    case (Cons x t)
    let ?t = "x # t" and ?w = "takeWhile ?N (x # t)"
    have dw: "dropWhile ?D (a @ c # b) = ?t @ c # b"
    proof -
      from Cons have "dropWhile ?D a \<noteq> []" by simp
      then have "\<not> (\<forall>x \<in> set a. ?D x)" by simp
      then show ?thesis by (auto simp: dropWhile_append Cons)
    qed
    have ne: "?t @ c # b \<noteq> []" by simp
    have ta: "tokens d a = ?w # tokens d (drop (Suc (length ?w)) ?t)"
      by (subst tokens.simps) (simp add: Cons Let_def)
    have tw: "takeWhile ?N (?t @ c # b) = ?w"
      using assms by (auto simp: takeWhile_append takeWhile_eq_all_conv [THEN iffD2])
    have tb: "tokens d (a @ c # b) = ?w # tokens d (drop (Suc (length ?w)) (?t @ c # b))"
      by (simp only: tokens.simps [of d "a @ c # b"] dw tw Let_def ne if_False)
    show ?thesis
    proof (cases "length ?w = length ?t")
      case True
      then have "drop (Suc (length ?w)) (?t @ c # b) = b" "drop (Suc (length ?w)) ?t = []"
        by simp_all
      then show ?thesis unfolding ta tb by simp
    next
      case False
      then have lt: "Suc (length ?w) \<le> length ?t" using length_takeWhile_le [of ?N ?t] by linarith
      have "length ?t \<le> length a" by (metis Cons length_dropWhile_le)
      then have "length (drop (Suc (length ?w)) ?t) < length a" by simp
      from less [OF this] lt show ?thesis unfolding ta tb by simp
    qed
  qed
qed

lemma tokens_single: "\<forall>c \<in> set w. c \<notin> set d \<Longrightarrow> w \<noteq> [] \<Longrightarrow> tokens d w = [w]"
  by (subst tokens.simps) (cases w; simp add: Let_def takeWhile_eq_all_conv [THEN iffD2])

lemma tokens_no_delim: "w \<in> set (tokens d s) \<Longrightarrow> w \<noteq> [] \<and> set w \<inter> set d = {} \<and> set w \<subseteq> set s"
proof (induction d s rule: tokens.induct)
  case (1 d s)
  let ?t = "dropWhile (\<lambda>c. c \<in> set d) s"
  let ?w = "takeWhile (\<lambda>c. c \<notin> set d) ?t"
  show ?case
  proof (cases "?t = []")
    case True
    with "1.prems" show ?thesis by (simp add: tokens.simps [of d s])
  next
    case False
    have sub: "set ?t \<subseteq> set s" by (auto dest: set_dropWhileD)
    from False have "hd ?t \<notin> set d" by (rule hd_dropWhile)
    with False have "?w \<noteq> []" by (cases ?t) auto
    moreover have "set ?w \<inter> set d = {}" "set ?w \<subseteq> set s"
      using sub by (auto dest: set_takeWhileD)
    moreover have "w = ?w \<or> w \<in> set (tokens d (drop (Suc (length ?w)) ?t))"
      using "1.prems" False unfolding tokens.simps [of d s] Let_def by (simp only: if_False) simp
    moreover have "w \<noteq> [] \<and> set w \<inter> set d = {} \<and> set w \<subseteq> set s"
      if "w \<in> set (tokens d (drop (Suc (length ?w)) ?t))"
    proof -
      have "set (drop (Suc (length ?w)) ?t) \<subseteq> set s" using sub by (auto dest: in_set_dropD)
      with "1.IH" [OF refl refl False that] show ?thesis by (blast intro: subset_trans)
    qed
    ultimately show ?thesis by (elim disjE) simp_all
  qed
qed

lemma tokens_snoc:
  assumes "s \<noteq> []" "last s \<notin> set d" "set u \<inter> set d = {}"
  shows "tokens d s \<noteq> [] \<and> tokens d (s @ u) = butlast (tokens d s) @ [last (tokens d s) @ u]"
proof -
  define w where "w = rev (takeWhile (\<lambda>c. c \<notin> set d) (rev s))"
  define a where "a = rev (dropWhile (\<lambda>c. c \<notin> set d) (rev s))"
  have s: "s = a @ w" unfolding a_def w_def by (metis rev_append rev_rev_ident takeWhile_dropWhile_id)
  have w: "set w \<inter> set d = {}" by (auto simp: w_def dest: set_takeWhileD)
  have wne: "w \<noteq> []" using assms(1,2) by (cases s rule: rev_cases) (auto simp: w_def)
  have tw: "tokens d w = [w]" by (rule tokens_single) (use w wne in auto)
  have twu: "tokens d (w @ u) = [w @ u]" by (rule tokens_single) (use w wne assms(3) in auto)
  show ?thesis
  proof (cases "a = []")
    case True
    then show ?thesis using tw twu by (simp add: s)
  next
    case False
    then have "dropWhile (\<lambda>c. c \<notin> set d) (rev s) \<noteq> []" by (simp add: a_def)
    from hd_dropWhile [OF this] have "last a \<in> set d" by (simp add: a_def last_rev)
    moreover from False obtain a' c where a: "a = a' @ [c]" by (metis append_butlast_last_id)
    ultimately have c: "c \<in> set d" by simp
    have "s = a' @ c # w" "s @ u = a' @ c # (w @ u)" by (simp_all add: s a)
    then have "tokens d s = tokens d a' @ [w]" "tokens d (s @ u) = tokens d a' @ [w @ u]"
      by (simp_all only: tokens_append_delim [OF c] tw twu)
    then show ?thesis by simp
  qed
qed

section \<open>System calls\<close>

fun first_free :: "fd_entry list \<Rightarrow> nat option" where
  "first_free [] = None"
| "first_free (Free # es) = Some 0"
| "first_free (_ # es) = map_option Suc (first_free es)"

definition new_fd :: "fd_entry \<Rightarrow> fs \<Rightarrow> int \<times> fs" where
  "new_fd e s = (case first_free (fds s) of
     None \<Rightarrow> (- 1, s)
   | Some i \<Rightarrow> (int i, s\<lparr>fds := (fds s)[i := e]\<rparr>))"

text \<open>open with O_RDONLY, and with O_WRONLY|O_CREAT (no O_TRUNC: the contents stay).\<close>

definition open_rdonly :: "bytes \<Rightarrow> fs \<Rightarrow> int \<times> fs" where
  "open_rdonly path s =
     (if path = [] then (- 1, s)
      else if dirs s (resolve path) then new_fd Dir s
      else case names s (resolve path) of None \<Rightarrow> (- 1, s) | Some i \<Rightarrow> new_fd (File i 0) s)"

definition open_wronly_creat :: "bytes \<Rightarrow> fs \<Rightarrow> int \<times> fs" where
  "open_wronly_creat path s =
     (let p = resolve path in
      if path = [] \<or> last path = slash \<or> dirs s p then (- 1, s)
      else case names s p of
        Some i \<Rightarrow> new_fd (File i 0) s
      | None \<Rightarrow>
          if p \<noteq> [] \<and> dirs s (butlast p) \<and> first_free (fds s) \<noteq> None
          then new_fd (File (fresh s) 0)
                 (s\<lparr>names := (names s)(p \<mapsto> fresh s), inode := (inode s)(fresh s := []),
                    fresh := Suc (fresh s)\<rparr>)
          else (- 1, s))"

definition fd_of :: "fs \<Rightarrow> int \<Rightarrow> fd_entry" where
  "fd_of s fd = (if 0 \<le> fd \<and> nat fd < length (fds s) then fds s ! nat fd else Free)"

definition write_fd :: "int \<Rightarrow> bytes \<Rightarrow> fs \<Rightarrow> int \<times> fs" where
  "write_fd fd src s = (case fd_of s fd of
     Free \<Rightarrow> (- 1, s)
   | Dir \<Rightarrow> (- 1, s)
   | Tty \<Rightarrow> (int (length src), s)
   | File i off \<Rightarrow>
       (let d = inode s i; n = length src; ext = (off + n) - length d;
            k = n - (ext - room s)
        in if n \<noteq> 0 \<and> k = 0 then (- 1, s)
           else (int k,
             s\<lparr>inode := (inode s)(i := take off (d @ bzero (off - length d)) @ take k src @ drop (off + k) d),
               room := room s - ((off + k) - length d),
               fds := (fds s)[nat fd := File i (off + k)]\<rparr>)))"

definition close_fd :: "int \<Rightarrow> fs \<Rightarrow> fs" where
  "close_fd fd s = (if 0 \<le> fd then s\<lparr>fds := (fds s)[nat fd := Free]\<rparr> else s)"

text \<open>opendir allocates a descriptor for the directory stream; mkdir; rename; utime.\<close>

definition opendir :: "bytes \<Rightarrow> fs \<Rightarrow> int \<times> fs" where
  "opendir path s = (if path \<noteq> [] \<and> dirs s (resolve path) then new_fd Dir s else (- 1, s))"

definition mkdir :: "bytes \<Rightarrow> fs \<Rightarrow> int \<times> fs" where
  "mkdir path s =
     (let p = resolve path in
      if path = [] \<or> p = [] \<or> dirs s p \<or> names s p \<noteq> None \<or> \<not> dirs s (butlast p) then (- 1, s)
      else (0, s\<lparr>dirs := (dirs s)(p := True)\<rparr>))"

definition rename :: "bytes \<Rightarrow> bytes \<Rightarrow> fs \<Rightarrow> int \<times> fs" where
  "rename src dst s =
     (case names s (resolve src) of
        None \<Rightarrow> (- 1, s)
      | Some i \<Rightarrow>
          if dirs s (resolve dst) \<or> resolve dst = [] \<or> \<not> dirs s (butlast (resolve dst)) then (- 1, s)
          else (0, s\<lparr>names := ((names s)(resolve src := None))(resolve dst \<mapsto> i)\<rparr>))"

definition utime :: "bytes \<Rightarrow> u64 \<Rightarrow> fs \<Rightarrow> fs" where
  "utime path t s = (case names s (resolve path) of
     None \<Rightarrow> s | Some i \<Rightarrow> s\<lparr>mtime := (mtime s)(i := t)\<rparr>)"

text \<open>What successive reads with a buffer of n bytes return for a file opened afresh.\<close>

function file_reads :: "nat \<Rightarrow> bytes \<Rightarrow> read_result list" where
  "file_reads n d = (if d = [] \<or> n = 0 then [Read []] else Read (take n d) # file_reads n (drop n d))"
  by pat_completeness auto
termination
  by (relation "measure (\<lambda>(n, d). length d)") auto

declare file_reads.simps [simp del]

lemma delivered_file_reads: "0 < n \<Longrightarrow> delivered (file_reads n d) = d"
proof (induction n d rule: file_reads.induct)
  case (1 n d)
  show ?case
  proof (cases "d = []")
    case True
    then show ?thesis by (simp add: file_reads.simps)
  next
    case False
    with "1.prems" have "take n d \<noteq> []" by simp
    then show ?thesis using False 1 by (subst file_reads.simps) simp
  qed
qed

lemma file_reads_fit: "reads_fit n (file_reads n d)"
proof (induction n d rule: file_reads.induct)
  case (1 n d)
  then show ?case by (subst file_reads.simps) auto
qed

section \<open>Facts about descriptors\<close>

definition free_fds :: "fs \<Rightarrow> nat" where
  "free_fds s = length (filter (\<lambda>e. e = Free) (fds s))"

lemma first_free_SomeD:
  "first_free es = Some i \<Longrightarrow> i < length es \<and> es ! i = Free \<and>
     length (filter (\<lambda>e. e = Free) (es[i := e])) + (if e = Free then 0 else 1) =
       length (filter (\<lambda>e. e = Free) es)"
  by (induction es arbitrary: i rule: first_free.induct) auto

lemma first_free_ex: "0 < length (filter (\<lambda>e. e = Free) es) \<Longrightarrow> \<exists>i. first_free es = Some i"
  by (induction es rule: first_free.induct) auto

lemma new_fd_ok:
  assumes "0 < free_fds s" "e \<noteq> Free"
  obtains i where "new_fd e s = (int i, s\<lparr>fds := (fds s)[i := e]\<rparr>)" "i < length (fds s)"
    "fds s ! i = Free" "Suc (free_fds (s\<lparr>fds := (fds s)[i := e]\<rparr>)) = free_fds s"
  using assms first_free_ex [of "fds s"] first_free_SomeD [of "fds s" _ e]
  by (fastforce simp: new_fd_def free_fds_def)

end
