(* ===== verification/NetFile.thy ===== *)
theory NetFile
  imports Prelude
begin

text \<open>
  filesend/udpfilesend/net_file.h: the datagrams of the file transfer. A message is a header of
  8 bytes (command, type, length) and a buffer of 4096 bytes; the request carries a FileBlock_t
  in its buffer. Both are overlays on byte arrays in the code: the offsets here are those of a
  64-bit little-endian target (4 bytes of padding before timestamp, size 160).
\<close>

definition BUF_MAX_LEN :: nat where "BUF_MAX_LEN = 4096"
definition MESG_HEAD_LEN :: nat where "MESG_HEAD_LEN = 8"
definition MAXLINE :: nat where "MAXLINE = BUF_MAX_LEN + MESG_HEAD_LEN"
definition FILE_NAME_MAX_LEN :: nat where "FILE_NAME_MAX_LEN = 128"

lemmas net_sizes [simp] = BUF_MAX_LEN_def MESG_HEAD_LEN_def MAXLINE_def FILE_NAME_MAX_LEN_def

datatype Command = CMD_SEND_FILEMSG_REQ | CMD_SEND_FILE | CMD_SEND_FINISH

fun cmd_code :: "Command \<Rightarrow> nat" where
  "cmd_code CMD_SEND_FILEMSG_REQ = 0x01"
| "cmd_code CMD_SEND_FILE = 0x02"
| "cmd_code CMD_SEND_FINISH = 0x03"

datatype Type = REQ_NOR | ACK_OK | ACK_FAIL | ACK_NOSP | REQ_NORE

fun type_code :: "Type \<Rightarrow> nat" where
  "type_code REQ_NOR = 0x00"
| "type_code ACK_OK = 0x01"
| "type_code ACK_FAIL = 0x02"
| "type_code ACK_NOSP = 0x03"
| "type_code REQ_NORE = 0x04"

record FileBlock_t =
  file_name :: bytes
  md5 :: bytes
  file_length :: u32
  timestamp :: u64

record Message_t =
  m_cmd :: u16
  m_type :: u16
  m_buf_len :: u32
  m_buf :: bytes

section \<open>The overlays\<close>

definition message_of :: "bytes \<Rightarrow> Message_t option" where
  "message_of b = do {
     c \<leftarrow> of_le16 (take 2 b);
     t \<leftarrow> of_le16 (take 2 (drop 2 b));
     n \<leftarrow> of_le32 (take 4 (drop 4 b));
     Some \<lparr>m_cmd = c, m_type = t, m_buf_len = n, m_buf = drop 8 b\<rparr>
   }"

definition bytes_of_message :: "Message_t \<Rightarrow> bytes" where
  "bytes_of_message m = le16 (m_cmd m) @ le16 (m_type m) @ le32 (m_buf_len m) @ m_buf m"

text \<open>The header as it is sent.\<close>

definition header :: "Message_t \<Rightarrow> bytes" where
  "header m = take MESG_HEAD_LEN (bytes_of_message m)"

definition sizeof_FileBlock :: nat where "sizeof_FileBlock = 160"

definition fileblock_of :: "bytes \<Rightarrow> FileBlock_t option" where
  "fileblock_of b = do {
     guard (sizeof_FileBlock \<le> length b);
     n \<leftarrow> of_le32 (take 4 (drop 144 b));
     t \<leftarrow> of_le64 (take 8 (drop 152 b));
     Some \<lparr>file_name = take 128 b, md5 = take 16 (drop 128 b), file_length = n, timestamp = t\<rparr>
   }"

definition bytes_of_fileblock :: "FileBlock_t \<Rightarrow> bytes" where
  "bytes_of_fileblock f = file_name f @ md5 f @ le32 (file_length f) @ bzero 4 @ le64 (timestamp f)"

definition wf_fileblock :: "FileBlock_t \<Rightarrow> bool" where
  "wf_fileblock f \<longleftrightarrow> length (file_name f) = FILE_NAME_MAX_LEN \<and> length (md5 f) = 16"

section \<open>Round trips\<close>

lemma le16_of_le16: "of_le16 b = Some w \<Longrightarrow> le16 w = b"
proof (cases b rule: of_le16.cases)
  case (1 x y)
  have *: "bit z n \<Longrightarrow> n < 8" for z :: u8 and n using bit_imp_le_length by force
  have "ucast (ucast x OR push_bit 8 (ucast y) :: u16) = x"
    by (rule bit_word_eqI) (auto simp: bit_simps)
  moreover have "ucast (drop_bit 8 (ucast x OR push_bit 8 (ucast y) :: u16)) = y"
    by (rule bit_word_eqI) (auto simp: bit_simps dest: *)
  moreover assume "of_le16 b = Some w"
  ultimately show ?thesis using 1 by (auto simp: le16_def simp del: drop_bit_or)
qed auto

text \<open>A message that is laid out in memory is read back field by field.\<close>

theorem message_roundtrip: "message_of (bytes_of_message m) = Some m"
  by (simp add: message_of_def bytes_of_message_def)

lemma message_of_bytes: "message_of (bytes_of_message m) = Some m"
  by (simp add: message_of_def bytes_of_message_def)

lemma bytes_of_message_of: "message_of b = Some m \<Longrightarrow> bytes_of_message m = b"
proof -
  assume "message_of b = Some m"
  then obtain c t n where "of_le16 (take 2 b) = Some c" "of_le16 (take 2 (drop 2 b)) = Some t"
    "of_le32 (take 4 (drop 4 b)) = Some n"
    and m: "m = \<lparr>m_cmd = c, m_type = t, m_buf_len = n, m_buf = drop 8 b\<rparr>"
    by (auto simp: message_of_def elim!: bind_SomeE)
  then have "bytes_of_message m = take 2 b @ take 2 (drop 2 b) @ take 4 (drop 4 b) @ drop 8 b"
    by (simp add: bytes_of_message_def le16_of_le16 le32_of_le32)
  also have "take 4 (drop 4 b) @ drop 8 b = drop 4 b"
    using append_take_drop_id [of 4 "drop 4 b"] by simp
  also have "take 2 (drop 2 b) @ drop 4 b = drop 2 b"
    using append_take_drop_id [of 2 "drop 2 b"] by simp
  finally show ?thesis by simp
qed

lemma message_of_Some: "8 \<le> length b \<Longrightarrow> \<exists>m. message_of b = Some m"
proof -
  assume l: "8 \<le> length b"
  have 2: "\<exists>w. of_le16 xs = Some w" if "length xs = 2" for xs
    using that by (cases xs rule: of_le16.cases) auto
  have 4: "\<exists>w. of_le32 xs = Some w" if "length xs = 4" for xs
    using that by (cases xs rule: of_le32.cases) auto
  from l 2 [of "take 2 b"] 2 [of "take 2 (drop 2 b)"] 4 [of "take 4 (drop 4 b)"]
  show ?thesis by (auto simp: message_of_def)
qed

lemma header_eq: "header m = le16 (m_cmd m) @ le16 (m_type m) @ le32 (m_buf_len m)"
  by (simp add: header_def bytes_of_message_def)

lemma length_bytes_of_message [simp]: "length (bytes_of_message m) = 8 + length (m_buf m)"
  by (simp add: bytes_of_message_def)

lemma length_bytes_of_fileblock [simp]:
  "wf_fileblock f \<Longrightarrow> length (bytes_of_fileblock f) = sizeof_FileBlock"
  by (simp add: bytes_of_fileblock_def wf_fileblock_def sizeof_FileBlock_def)

lemma fileblock_of_bytes:
  assumes "wf_fileblock f"
  shows "fileblock_of (bytes_of_fileblock f @ rest) = Some f"
  using assms
  by (simp add: fileblock_of_def bytes_of_fileblock_def wf_fileblock_def sizeof_FileBlock_def)

text \<open>A file block at the start of a message buffer, whatever follows it, is read back.\<close>

theorem fileblock_roundtrip:
  assumes "wf_fileblock f"
  shows "fileblock_of (bytes_of_fileblock f @ rest) = Some f"
  using assms by (rule fileblock_of_bytes)

theorem fileblock_roundtrip_witness:
  "fileblock_of (bytes_of_fileblock \<lparr>file_name = cs ''a/b.jpg'' @ bzero 121, md5 = bzero 16,
      file_length = 70000, timestamp = 1537862400\<rparr> @ [7]) =
   Some \<lparr>file_name = cs ''a/b.jpg'' @ bzero 121, md5 = bzero 16,
      file_length = 70000, timestamp = 1537862400\<rparr>"
  by (rule fileblock_roundtrip) (simp add: wf_fileblock_def cs_def)

text \<open>Different commands and types have different codes.\<close>

lemma cmd_code_eq [simp]: "cmd_code c = cmd_code d \<longleftrightarrow> c = d"
  by (cases c; cases d) auto

lemma type_code_eq [simp]: "type_code c = type_code d \<longleftrightarrow> c = d"
  by (cases c; cases d) auto

end
