(* ===== verification/UdpServer.thy ===== *)
theory UdpServer
  imports Posix NetFile
begin

text \<open>
  filesend/udpfilesend/udp-server.c: the server that receives a file block by block and moves it
  into place when its digest is right. The state holds the globals of the program, the file
  system and the datagrams sent. The functions of OpenSSL and the shell behind system() are
  parameters.
\<close>

record 'c openssl =
  ctx0 :: 'c
  MD5_Init :: "'c \<Rightarrow> 'c"
  MD5_Update :: "'c \<Rightarrow> bytes \<Rightarrow> u32 \<Rightarrow> 'c option"
  MD5_Final :: "'c \<Rightarrow> ('c \<times> bytes) option"

type_synonym shell = "bytes \<Rightarrow> fs \<Rightarrow> fs"

record server =
  Filemsg :: FileBlock_t
  fd :: int
  file_path :: bytes
  file_path_back :: bytes
  file_creattime :: u64
  disk :: fs
  sent :: "bytes list"

definition PICTUREPATH :: bytes where
  "PICTUREPATH = cs ''/mnt/''"

text \<open>The globals as the program starts: everything is zero.\<close>

definition init_server :: "fs \<Rightarrow> server" where
  "init_server d = \<lparr>
     Filemsg = \<lparr>file_name = bzero 128, md5 = bzero 16, file_length = 0, timestamp = 0\<rparr>,
     fd = 0, file_path = bzero FILE_NAME_MAX_LEN, file_path_back = bzero FILE_NAME_MAX_LEN,
     file_creattime = 0, disk = d, sent = []\<rparr>"

section \<open>Tools\<close>

text \<open>
  MD5_file: the same loop as in md5/main.c, with the functions of OpenSSL. The result is the
  return value, the contents of output and the file system.
\<close>

definition MD5_file_ossl :: "'c openssl \<Rightarrow> bytes \<Rightarrow> bytes \<Rightarrow> fs \<Rightarrow> (int \<times> bytes \<times> fs) option" where
  "MD5_file_ossl ossl path output d =
     (let (fd, d) = open_rdonly path d in
      if fd < 0 then Some (- 1, output, d)
      else do {
        let reads = (case fd_of d fd of File i off \<Rightarrow> file_reads 4096 (drop off (inode d i))
                                      | _ \<Rightarrow> [Read_error]);
        ctx \<leftarrow> hash_loop (MD5_Update ossl) (bzero 4096) reads (MD5_Init ossl (ctx0 ossl));
        (ctx, digest) \<leftarrow> MD5_Final ossl ctx;
        output \<leftarrow> mem_put output 0 digest;
        Some (0, output, close_fd fd d)
      })"

definition stringtoarray_udp :: "bytes \<Rightarrow> bytes \<Rightarrow> nat list \<Rightarrow> (nat \<times> bytes \<times> nat list) option" where
  "stringtoarray_udp str delim saveptr = do {
     (buf, pch, p) \<leftarrow> strtok_r delim str 0;
     strtok_loop delim buf pch p 0 saveptr
   }"

section \<open>Receiving a file\<close>

text \<open>
  access_dir: for every directory of the path, open it and make it when that fails. What opendir
  returns is never closed. The function cuts up file_name; it returns 2 for a name without a
  directory.
\<close>

definition ensure_dir :: "bytes \<Rightarrow> fs \<Rightarrow> fs" where
  "ensure_dir dirpath d =
     (let (dir, d) = opendir dirpath d in if dir = - 1 then snd (mkdir dirpath d) else d)"

fun access_dir_loop :: "bytes list \<Rightarrow> bytes \<Rightarrow> fs \<Rightarrow> (bytes \<times> fs) option" where
  "access_dir_loop [] dirpath d = Some (dirpath, d)"
| "access_dir_loop (t # ts) dirpath d = do {
     dirpath \<leftarrow> strcat dirpath (cs ''/'');
     dirpath \<leftarrow> strcat dirpath t;
     access_dir_loop ts dirpath (ensure_dir (cstr dirpath) d)
   }"

definition access_dir :: "bytes \<Rightarrow> fs \<Rightarrow> (int \<times> bytes \<times> fs) option" where
  "access_dir name d = do {
     (num, name, saveptr) \<leftarrow> stringtoarray_udp name [slash] (replicate 64 0);
     if num < 2 then Some (2, name, d)
     else do {
       dirpath \<leftarrow> strcat (bzero 80) PICTUREPATH;
       (_, d) \<leftarrow> access_dir_loop (map (\<lambda>i. cstr (drop i name)) (take (num - 1) saveptr)) dirpath d;
       Some (0, name, d)
     }
   }"

definition udpsend :: "bytes \<Rightarrow> server \<Rightarrow> server" where
  "udpsend d s = s\<lparr>sent := sent s @ [d]\<rparr>"

text \<open>Every handler answers with the header of the message it got, type and length replaced.\<close>

definition reply :: "Message_t \<Rightarrow> Type \<Rightarrow> server \<Rightarrow> server" where
  "reply m t s = udpsend (header (m\<lparr>m_type := of_nat (type_code t), m_buf_len := 0\<rparr>)) s"

definition cmd_reqsend_deel :: "Message_t \<Rightarrow> server \<Rightarrow> server option" where
  "cmd_reqsend_deel m s = do {
     fb \<leftarrow> fileblock_of (m_buf m);
     guard (terminated (file_name fb));
     path \<leftarrow> strcat (file_path s) PICTUREPATH;
     path \<leftarrow> strcat path (cstr (file_name fb));
     back \<leftarrow> strcat (file_path_back s) PICTUREPATH;
     back \<leftarrow> strcat back (cstr (file_name fb));
     back \<leftarrow> strcat back (cs ''.filepart'');
     (_, _, d) \<leftarrow> access_dir (file_name fb) (disk s);
     let (f, d) = open_wronly_creat (cstr back) d;
     let s = s\<lparr>Filemsg := fb, file_creattime := timestamp fb, file_path := path,
               file_path_back := back, fd := f, disk := d\<rparr>;
     Some (reply m (if f < 0 then ACK_FAIL else ACK_OK) s)
   }"

definition cmd_revfile :: "Message_t \<Rightarrow> server \<Rightarrow> server option" where
  "cmd_revfile m s = do {
     src \<leftarrow> mem_get (m_buf m) 0 (unat (m_buf_len m));
     let (len, d) = write_fd (fd s) src (disk s);
     let s = s\<lparr>disk := d\<rparr>;
     Some (if len = - 1
           then reply m ACK_NOSP (s\<lparr>file_path_back := bzero FILE_NAME_MAX_LEN,
                  file_path := bzero FILE_NAME_MAX_LEN, disk := close_fd (fd s) d\<rparr>)
           else reply m ACK_OK s)
   }"

definition cmd_revfilefinsh :: "'c openssl \<Rightarrow> shell \<Rightarrow> Message_t \<Rightarrow> server \<Rightarrow> server option" where
  "cmd_revfilefinsh ossl sh m s = do {
     guard (terminated (file_path_back s) \<and> terminated (file_path s));
     (_, md5output, d) \<leftarrow> MD5_file_ossl ossl (cstr (file_path_back s)) (bzero 16) (disk s);
     let s = s\<lparr>disk := d\<rparr>;
     s \<leftarrow>
       (if md5output \<noteq> md5 (Filemsg s) then Some (reply m ACK_FAIL s)
        else do {
          let s = reply m ACK_OK s;
          cmd \<leftarrow> strcat (bzero (FILE_NAME_MAX_LEN + FILE_NAME_MAX_LEN)) (cs ''mv '');
          cmd \<leftarrow> strcat cmd (cstr (file_path_back s));
          cmd \<leftarrow> strcat cmd (cs '' '');
          cmd \<leftarrow> strcat cmd (cstr (file_path s));
          Some (s\<lparr>disk := utime (cstr (file_path s)) (file_creattime s) (sh (cstr cmd) (disk s))\<rparr>)
        });
     Some (s\<lparr>file_path_back := bzero FILE_NAME_MAX_LEN, file_path := bzero FILE_NAME_MAX_LEN\<rparr>)
   }"

section \<open>Dispatch and the receive loop\<close>

type_synonym cmd_ops = "Message_t \<Rightarrow> server \<Rightarrow> server option"

definition cmd_repose :: "'c openssl \<Rightarrow> shell \<Rightarrow> (u8 \<times> u8 \<times> cmd_ops) list" where
  "cmd_repose ossl sh = [
     (of_nat (cmd_code CMD_SEND_FILEMSG_REQ), of_nat (type_code REQ_NOR), cmd_reqsend_deel),
     (of_nat (cmd_code CMD_SEND_FILE), of_nat (type_code REQ_NORE), cmd_revfile),
     (of_nat (cmd_code CMD_SEND_FINISH), of_nat (type_code REQ_NOR), cmd_revfilefinsh ossl sh)]"

fun dispatch :: "(u8 \<times> u8 \<times> cmd_ops) list \<Rightarrow> Message_t \<Rightarrow> server \<Rightarrow> server option" where
  "dispatch [] m s = Some s"
| "dispatch ((c, t, ops) # table) m s =
     (if ucast c = m_cmd m \<and> ucast t = m_type m then ops m s else dispatch table m s)"

definition onrecv :: "'c openssl \<Rightarrow> shell \<Rightarrow> bytes \<Rightarrow> server \<Rightarrow> server option" where
  "onrecv ossl sh buf s = do {
     m \<leftarrow> message_of buf;
     dispatch (cmd_repose ossl sh) m s
   }"

text \<open>
  One turn of socketrev: what select reports and, when the socket is ready, what recvfrom
  delivers (None is an error). recvbuf is cleared first; a longer datagram is cut off.
\<close>

datatype select_result = Select_error | Select_timeout | Select_ready "bytes option"

fun socketrev_turn ::
  "'c openssl \<Rightarrow> shell \<Rightarrow> select_result \<Rightarrow> server \<Rightarrow> (bool \<times> server) option" where
  "socketrev_turn ossl sh Select_error s = Some (False, s)"
| "socketrev_turn ossl sh Select_timeout s = Some (True, s)"
| "socketrev_turn ossl sh (Select_ready None) s = Some (True, s)"
| "socketrev_turn ossl sh (Select_ready (Some d)) s =
     (if d = [] then Some (True, s)
      else do {
        recvbuf \<leftarrow> mem_put (bzero MAXLINE) 0 (take MAXLINE d);
        s \<leftarrow> onrecv ossl sh recvbuf s;
        Some (True, s)
      })"

text \<open>socketrev until it breaks out of its loop or the events are used up.\<close>

fun socketrev :: "'c openssl \<Rightarrow> shell \<Rightarrow> select_result list \<Rightarrow> server \<Rightarrow> server option" where
  "socketrev ossl sh [] s = Some s"
| "socketrev ossl sh (e # es) s = do {
     (continue, s) \<leftarrow> socketrev_turn ossl sh e s;
     if continue then socketrev ossl sh es s else Some s
   }"

text \<open>
  The thread of the program. udpsocketinit gives the descriptor, or the status with which the
  program ends (Inl) when the socket cannot be made or bound. usb_net_recvthread calls socketrev
  again whenever it returns; socketrev has closed the socket then, and nobody opens it again, so
  that select fails in every later call. The events are what select has to report as long as the
  socket is open.
\<close>

definition udpsocketinit :: "int \<Rightarrow> int \<Rightarrow> int + int" where
  "udpsocketinit socket_ret bind_ret =
     (if socket_ret < 0 then Inl 1
      else if bind_ret < 0 then Inl 1
      else Inr socket_ret)"

fun recv_calls :: "'c openssl \<Rightarrow> shell \<Rightarrow> bool \<Rightarrow> select_result list \<Rightarrow> server \<Rightarrow> server option" where
  "recv_calls ossl sh open_sock [] s = Some s"
| "recv_calls ossl sh open_sock (e # es) s = do {
     (continue, s) \<leftarrow> socketrev_turn ossl sh (if open_sock then e else Select_error) s;
     recv_calls ossl sh (open_sock \<and> continue) es s
   }"

definition usb_net_recvthread ::
  "'c openssl \<Rightarrow> shell \<Rightarrow> int \<Rightarrow> int \<Rightarrow> select_result list \<Rightarrow> server \<Rightarrow> int + server option" where
  "usb_net_recvthread ossl sh socket_ret bind_ret es s =
     (case udpsocketinit socket_ret bind_ret of
        Inl status \<Rightarrow> Inl status
      | Inr sock \<Rightarrow> Inr (recv_calls ossl sh True es s))"

end
