(* ===== verification/UdpServer_Proof.thy ===== *)
theory UdpServer_Proof
  imports UdpServer
begin

text \<open>
  The handlers of the udp server: the directories access_dir makes, and the three steps of a
  transfer (announcement, blocks, end) as transitions between the predicates \<open>disk_ready\<close>,
  \<open>receiving\<close> and \<open>stored\<close>. What the server relies on outside of the program is the locale
  \<open>udp_environment\<close>: OpenSSL computes a digest incrementally and mv renames a file.
\<close>

section \<open>Paths of the server\<close>

definition plain :: "bytes \<Rightarrow> bool" where
  "plain t \<longleftrightarrow> t \<noteq> [] \<and> t \<noteq> cs ''.'' \<and> t \<noteq> cs ''..'' \<and> slash \<notin> set t \<and> 0 \<notin> set t"

text \<open>A file name the server can store: all components are plain and the buffers are long enough.\<close>

definition good_name :: "bytes \<Rightarrow> bool" where
  "good_name n \<longleftrightarrow> n \<noteq> [] \<and> last n \<noteq> slash \<and> 0 \<notin> set n \<and> length n \<le> 70 \<and>
     (\<forall>t \<in> set (tokens [slash] n). plain t)"

lemma resolve_step_plain: "plain t \<Longrightarrow> resolve_step p t = p @ [t]"
  by (simp add: resolve_step_def plain_def)

lemma foldl_resolve_plain:
  "\<forall>t \<in> set ts. plain t \<Longrightarrow> foldl resolve_step p ts = p @ ts"
  by (induction ts arbitrary: p) (simp_all add: resolve_step_plain)

lemma plain_mnt: "plain (cs ''mnt'')"
  by (simp add: plain_def cs_def of_char_def)

lemma PICTUREPATH_eq: "PICTUREPATH = slash # cs ''mnt'' @ slash # []"
  by (simp add: PICTUREPATH_def cs_def of_char_def)

lemma tokens_mnt: "tokens [slash] (PICTUREPATH @ n) = cs ''mnt'' # tokens [slash] n"
proof -
  have m: "tokens [slash] (cs ''mnt'') = [cs ''mnt'']"
    by (rule tokens_single) (simp_all add: cs_def of_char_def)
  have "tokens [slash] ([] @ slash # (cs ''mnt'' @ slash # n)) =
      tokens [slash] [] @ tokens [slash] (cs ''mnt'' @ slash # n)"
    by (rule tokens_append_delim) simp
  also have "tokens [slash] (cs ''mnt'' @ slash # n) = tokens [slash] (cs ''mnt'') @ tokens [slash] n"
    by (rule tokens_append_delim) simp
  finally show ?thesis using m by (simp add: PICTUREPATH_eq)
qed

lemma resolve_mnt:
  assumes "\<forall>t \<in> set (tokens [slash] n). plain t"
  shows "resolve (PICTUREPATH @ n) = cs ''mnt'' # tokens [slash] n"
  using assms plain_mnt by (simp add: resolve_def tokens_mnt foldl_resolve_plain resolve_step_plain)

lemma filepart_facts: "0 \<notin> set (cs ''.filepart'')" "slash \<notin> set (cs ''.filepart'')"
  "length (cs ''.filepart'') = 9" "0 \<notin> set PICTUREPATH" "length PICTUREPATH = 5"
  by (simp_all add: cs_def of_char_def PICTUREPATH_def)

lemma plain_filepart: "plain t \<Longrightarrow> plain (t @ cs ''.filepart'')"
  using filepart_facts by (cases t) (auto simp: plain_def cs_def)

lemma good_name_tokens:
  assumes "good_name n"
  shows "tokens [slash] n \<noteq> []"
    and "tokens [slash] (n @ cs ''.filepart'') =
      butlast (tokens [slash] n) @ [last (tokens [slash] n) @ cs ''.filepart'']"
  using tokens_snoc [of n "[slash]" "cs ''.filepart''"] assms filepart_facts
  by (simp_all add: good_name_def)

lemma resolve_good:
  assumes "good_name n"
  shows "resolve (PICTUREPATH @ n) = cs ''mnt'' # tokens [slash] n"
    and "resolve (PICTUREPATH @ n @ cs ''.filepart'') =
      cs ''mnt'' # butlast (tokens [slash] n) @ [last (tokens [slash] n) @ cs ''.filepart'']"
proof -
  show "resolve (PICTUREPATH @ n) = cs ''mnt'' # tokens [slash] n"
    using assms by (intro resolve_mnt) (simp add: good_name_def)
  have "\<forall>t \<in> set (tokens [slash] (n @ cs ''.filepart'')). plain t"
    unfolding good_name_tokens(2) [OF assms]
    using assms good_name_tokens(1) [OF assms]
    by (auto simp: good_name_def intro!: plain_filepart dest: in_set_butlastD)
  from resolve_mnt [OF this] show "resolve (PICTUREPATH @ n @ cs ''.filepart'') =
      cs ''mnt'' # butlast (tokens [slash] n) @ [last (tokens [slash] n) @ cs ''.filepart'']"
    by (simp add: good_name_tokens(2) [OF assms])
qed

section \<open>access_dir\<close>

lemma new_fd_keeps:
  assumes "new_fd e d = (f, d')"
  shows "names d' = names d" "dirs d' = dirs d" "inode d' = inode d" "mtime d' = mtime d"
    "fresh d' = fresh d" "room d' = room d" "free_fds d \<le> Suc (free_fds d')"
proof -
  have "free_fds d \<le> Suc (free_fds d')"
    using assms first_free_SomeD [of "fds d" _ e]
    by (cases "e = Free") (fastforce simp: new_fd_def free_fds_def split: option.splits)+
  then show "names d' = names d" "dirs d' = dirs d" "inode d' = inode d" "mtime d' = mtime d"
    "fresh d' = fresh d" "room d' = room d" "free_fds d \<le> Suc (free_fds d')"
    using assms by (auto simp: new_fd_def split: option.splits)
qed

text \<open>What stays the same while directories are made.\<close>

definition same_files :: "fs \<Rightarrow> fs \<Rightarrow> bool" where
  "same_files d d' \<longleftrightarrow> names d' = names d \<and> inode d' = inode d \<and> mtime d' = mtime d \<and>
     fresh d' = fresh d \<and> room d' = room d"

lemma same_files_refl: "same_files d d" by (simp add: same_files_def)
lemma same_files_trans: "same_files d d' \<Longrightarrow> same_files d' d'' \<Longrightarrow> same_files d d''"
  by (simp add: same_files_def)

lemma resolve_snoc:
  assumes "plain t"
  shows "resolve (P @ slash # t) = resolve P @ [t]"
proof -
  have "tokens [slash] t = [t]" by (rule tokens_single) (use assms in \<open>auto simp: plain_def\<close>)
  then show ?thesis
    using assms tokens_append_delim [of slash "[slash]" P t]
    by (simp add: resolve_def resolve_step_plain)
qed

text \<open>One directory: opened when it exists, made otherwise.\<close>

lemma access_dir_step:
  assumes t: "plain t" and P: "P \<noteq> []" "dirs d (resolve P)"
    and nofile: "names d (resolve P @ [t]) = None"
  defines "path \<equiv> P @ slash # t"
  obtains d' where
    "ensure_dir path d = d'"
    "same_files d d'" "dirs d' = (\<lambda>q. dirs d q \<or> q = resolve P @ [t])"
    "free_fds d \<le> Suc (free_fds d')"
proof -
  have r: "resolve path = resolve P @ [t]" using t by (simp add: path_def resolve_snoc)
  have ne: "path \<noteq> []" by (simp add: path_def)
  obtain f d1 where o1: "opendir path d = (f, d1)" by (cases "opendir path d")
  have d1: "same_files d d1" "dirs d1 = dirs d" "free_fds d \<le> Suc (free_fds d1)"
    using o1 new_fd_keeps [of Dir d f d1]
    by (auto simp: opendir_def same_files_def split: if_splits)
  show thesis
  proof (cases "dirs d (resolve P @ [t])")
    case True
    have "mkdir path d1 = (- 1, d1)"
      using True d1(2) by (simp add: mkdir_def Let_def r)
    then show thesis using d1 True o1 by (intro that [of d1]) (auto simp: fun_eq_iff ensure_dir_def)
  next
    case False
    then have o: "f = - 1" "d1 = d" using o1 ne by (simp_all add: opendir_def r)
    have "mkdir path d = (0, d\<lparr>dirs := (dirs d)(resolve P @ [t] := True)\<rparr>)"
      using False ne nofile P by (simp add: mkdir_def Let_def r)
    then show thesis using o1 o
      by (intro that [of "d\<lparr>dirs := (dirs d)(resolve P @ [t] := True)\<rparr>"])
        (auto simp: same_files_def free_fds_def fun_eq_iff ensure_dir_def)
  qed
qed

lemma access_dir_loop_ok:
  assumes "\<forall>t \<in> set ts. plain t" "terminated dirpath" "cstr dirpath = P" "P \<noteq> []"
    and "length P + sum_list (map (\<lambda>t. Suc (length t)) ts) < length dirpath"
    and "dirs d (resolve P)"
    and "\<forall>i < length ts. names d (resolve P @ take (Suc i) ts) = None"
  shows "\<exists>dp d'. access_dir_loop ts dirpath d = Some (dp, d') \<and> same_files d d' \<and>
    dirs d' = (\<lambda>q. dirs d q \<or> (\<exists>i < length ts. q = resolve P @ take (Suc i) ts)) \<and>
    free_fds d \<le> length ts + free_fds d'"
  using assms
proof (induction ts arbitrary: dirpath P d)
  case Nil
  then show ?case by (simp add: same_files_refl)
next
  case (Cons t ts)
  have s0: "cs ''/'' = [slash]" by (simp add: cs_def of_char_def)
  from Cons.prems obtain dp1 where dp1: "strcat dirpath (cs ''/'') = Some dp1"
    "cstr dp1 = P @ [slash]" "terminated dp1" "length dp1 = length dirpath"
    by (elim strcat_Some [of dirpath "cs ''/''"]) (simp_all add: s0)
  have pt: "plain t" "0 \<notin> set t" using Cons.prems(1) by (simp_all add: plain_def)
  from Cons.prems dp1 pt obtain dp2 where dp2: "strcat dp1 t = Some dp2"
    "cstr dp2 = P @ slash # t" "terminated dp2" "length dp2 = length dirpath"
    by (elim strcat_Some [of dp1 t]) simp_all
  have "names d (resolve P @ [t]) = None" using Cons.prems(7) by fastforce
  from access_dir_step [OF pt(1) Cons.prems(4,6) this] obtain d1 where
    run: "ensure_dir (P @ slash # t) d = d1"
    and d1: "same_files d d1" "dirs d1 = (\<lambda>q. dirs d q \<or> q = resolve P @ [t])"
      "free_fds d \<le> Suc (free_fds d1)" by blast
  have r: "resolve (P @ slash # t) = resolve P @ [t]" using pt by (simp add: resolve_snoc)
  have "access_dir_loop (t # ts) dirpath d = access_dir_loop ts dp2 d1"
    using dp1(1) dp2(1,2) run by simp
  moreover have "\<exists>dp d'. access_dir_loop ts dp2 d1 = Some (dp, d') \<and> same_files d1 d' \<and>
    dirs d' = (\<lambda>q. dirs d1 q \<or> (\<exists>i < length ts. q = resolve (P @ slash # t) @ take (Suc i) ts)) \<and>
    free_fds d1 \<le> length ts + free_fds d'"
    using Cons.prems dp2 d1 by (intro Cons.IH) (auto simp: r same_files_def)
  moreover have "(\<exists>i < Suc (length ts). q = resolve P @ take (Suc i) (t # ts)) \<longleftrightarrow>
    q = resolve P @ [t] \<or> (\<exists>i < length ts. q = resolve P @ t # take (Suc i) ts)" for q
    by (auto simp: Ex_less_Suc2 simp del: take_Suc_Cons simp: take_Suc_Cons [of _ t])
  ultimately show ?case using d1 r
    by (fastforce simp: fun_eq_iff intro: same_files_trans)
qed

lemma tokens_sum: "sum_list (map (\<lambda>t. Suc (length t)) (tokens d s)) \<le> Suc (length s)"
proof (induction d s rule: tokens.induct)
  case (1 d s)
  let ?t = "dropWhile (\<lambda>c. c \<in> set d) s"
  let ?w = "takeWhile (\<lambda>c. c \<notin> set d) ?t"
  show ?case
  proof (cases "?t = []")
    case True
    then show ?thesis by (simp add: tokens.simps [of d s])
  next
    case False
    then have t: "tokens d s = ?w # tokens d (drop (Suc (length ?w)) ?t)"
      by (simp only: tokens.simps [of d s] Let_def if_False)
    have l: "length ?w \<le> length ?t" "length ?t \<le> length s"
      by (simp_all add: length_takeWhile_le length_dropWhile_le)
    show ?thesis
    proof (cases "length ?w = length ?t")
      case True
      then have "drop (Suc (length ?w)) ?t = []" by simp
      then show ?thesis unfolding t using l by simp
    next
      case f: False
      have "length (drop (Suc (length ?w)) ?t) = length ?t - Suc (length ?w)" by simp
      with "1.IH" [OF refl refl False] f l show ?thesis unfolding t
        by (simp only: list.map sum_list.Cons)
    qed
  qed
qed

lemma sum_list_butlast: "xs \<noteq> [] \<Longrightarrow> sum_list (butlast xs) + last xs = sum_list (xs :: nat list)"
  by (induction xs rule: rev_induct) auto

lemma stringtoarray_udp_spec:
  assumes "terminated str" "length (tokens delim (cstr str)) \<le> length out"
  obtains str' out' where
    "stringtoarray_udp str delim out = Some (length (tokens delim (cstr str)), str', out')"
    "map (\<lambda>i. cstr (drop i str')) (take (length (tokens delim (cstr str))) out') =
      tokens delim (cstr str)"
  using stringtoarray_r_spec [OF assms]
  unfolding stringtoarray_udp_def stringtoarray_r_def by blast

lemma good_name_lengths:
  assumes "good_name n"
  shows "length (tokens [slash] n) \<le> 64"
    "5 + sum_list (map (\<lambda>t. Suc (length t)) (butlast (tokens [slash] n))) < 80"
proof -
  let ?ts = "tokens [slash] n"
  have s: "sum_list (map (\<lambda>t. Suc (length t)) ?ts) \<le> 71"
    using tokens_sum [of "[slash]" n] assms by (simp add: good_name_def)
  have "\<forall>t \<in> set ts. t \<noteq> [] \<Longrightarrow> 2 * length ts \<le> sum_list (map (\<lambda>t. Suc (length t)) ts)"
    for ts :: "bytes list"
  proof (induction ts)
    case (Cons t ts)
    then show ?case by (cases t) auto
  qed simp
  with s assms have "2 * length ?ts \<le> 71" by (force simp: good_name_def plain_def)
  then show "length ?ts \<le> 64" by simp
  have "map (\<lambda>t. Suc (length t)) ?ts \<noteq> []" using good_name_tokens(1) [OF assms] by simp
  from sum_list_butlast [OF this] s
  show "5 + sum_list (map (\<lambda>t. Suc (length t)) (butlast ?ts)) < 80"
    by (simp add: map_butlast)
qed

lemma access_dir_ok:
  fixes n :: bytes
  defines "ts \<equiv> tokens [slash] n"
  assumes n: "good_name n" and nm: "terminated nm" "cstr nm = n"
    and mnt: "dirs d [cs ''mnt'']"
    and nofile: "\<forall>i < length ts - 1. names d (cs ''mnt'' # take (Suc i) ts) = None"
  obtains r nm' d' where "access_dir nm d = Some (r, nm', d')" "same_files d d'"
    "dirs d' = (\<lambda>q. dirs d q \<or> (\<exists>i < length ts - 1. q = cs ''mnt'' # take (Suc i) ts))"
    "free_fds d + 1 \<le> length ts + free_fds d'"
proof -
  note len = good_name_lengths [OF n, folded ts_def]
  have ne: "ts \<noteq> []" using good_name_tokens(1) [OF n] by (simp add: ts_def)
  have pl: "\<forall>t \<in> set ts. plain t" using n by (simp add: good_name_def ts_def)
  obtain nm' sp where split: "stringtoarray_udp nm [slash] (replicate 64 0) = Some (length ts, nm', sp)"
    "map (\<lambda>i. cstr (drop i nm')) (take (length ts) sp) = ts"
    using stringtoarray_udp_spec [OF nm(1), of "[slash]" "replicate 64 0"] len(1)
    by (auto simp: nm(2) ts_def)
  have "map (\<lambda>i. cstr (drop i nm')) (take (length ts - 1) sp) =
      take (length ts - 1) (map (\<lambda>i. cstr (drop i nm')) (take (length ts) sp))"
    by (simp add: take_map min_def)
  also have "\<dots> = butlast ts" unfolding split(2) by (simp add: butlast_conv_take)
  finally have toks: "map (\<lambda>i. cstr (drop i nm')) (take (length ts - 1) sp) = butlast ts" .
  have rm: "resolve PICTUREPATH = [cs ''mnt'']"
    using resolve_mnt [of "[]"] by simp
  obtain dp where dp: "strcat (bzero 80) PICTUREPATH = Some dp" "cstr dp = PICTUREPATH"
    "terminated dp" "length dp = 80"
    by (rule strcat_Some [of "bzero 80" PICTUREPATH]) (simp_all add: filepart_facts)
  have tk: "take (Suc i) (butlast ts) = take (Suc i) ts" if "i < length ts - 1" for i
    using that by (simp add: take_butlast)
  have "\<exists>dp' d'. access_dir_loop (butlast ts) dp d = Some (dp', d') \<and> same_files d d' \<and>
    dirs d' = (\<lambda>q. dirs d q \<or> (\<exists>i < length (butlast ts).
      q = resolve PICTUREPATH @ take (Suc i) (butlast ts))) \<and>
    free_fds d \<le> length (butlast ts) + free_fds d'"
  proof (rule access_dir_loop_ok)
    show "\<forall>t \<in> set (butlast ts). plain t" using pl by (auto dest: in_set_butlastD)
    show "terminated dp" "cstr dp = PICTUREPATH" by fact+
    show "PICTUREPATH \<noteq> []" by (simp add: PICTUREPATH_eq)
    show "length PICTUREPATH + sum_list (map (\<lambda>t. Suc (length t)) (butlast ts)) < length dp"
      using len(2) dp(4) by (simp add: filepart_facts)
    show "dirs d (resolve PICTUREPATH)" using mnt by (simp add: rm)
    show "\<forall>i < length (butlast ts). names d (resolve PICTUREPATH @ take (Suc i) (butlast ts)) = None"
      using nofile tk by (simp add: rm)
  qed
  then obtain dp' d' where run: "access_dir_loop (butlast ts) dp d = Some (dp', d')"
    and d': "same_files d d'" "dirs d' = (\<lambda>q. dirs d q \<or> (\<exists>i < length ts - 1.
      q = cs ''mnt'' # take (Suc i) ts))" "free_fds d \<le> length ts - 1 + free_fds d'"
    using tk by (auto simp: rm fun_eq_iff cong: conj_cong)
  have fr: "free_fds d + 1 \<le> length ts + free_fds d'" using d'(3) ne by (cases ts) auto
  show thesis
  proof (cases "length ts < 2")
    case True
    then have one: "length ts - 1 = 0" by simp
    have "butlast ts = []" using one by (simp flip: length_0_conv)
    then have "d' = d" using run by simp
    then show thesis
      using that [of 2 nm' d] True split(1) one d' ne fr by (simp add: access_dir_def same_files_refl)
  next
    case False
    then show thesis
      using that [of 0 nm' d'] split(1) dp(1) run d' fr toks by (simp add: access_dir_def)
  qed
qed

section \<open>The three steps of a transfer\<close>

definition final_path :: "bytes \<Rightarrow> bytes" where
  "final_path n = PICTUREPATH @ n"

definition part_path :: "bytes \<Rightarrow> bytes" where
  "part_path n = PICTUREPATH @ n @ cs ''.filepart''"

definition file_at :: "fs \<Rightarrow> bytes list \<Rightarrow> bytes option" where
  "file_at d p = map_option (inode d) (names d p)"

definition wf_fs :: "fs \<Rightarrow> bool" where
  "wf_fs d \<longleftrightarrow> (\<forall>p i. names d p = Some i \<longrightarrow> i < fresh d)"

text \<open>The path buffers hold no path.\<close>

definition cleared :: "server \<Rightarrow> bool" where
  "cleared s \<longleftrightarrow> file_path s = bzero 128 \<and> file_path_back s = bzero 128"

text \<open>The file system can take a file of L bytes under the name n.\<close>

definition disk_ready :: "bytes \<Rightarrow> nat \<Rightarrow> fs \<Rightarrow> bool" where
  "disk_ready n L d \<longleftrightarrow>
     (let ts = tokens [slash] n in
      wf_fs d \<and> dirs d [cs ''mnt''] \<and>
      (\<forall>i < length ts - 1. names d (cs ''mnt'' # take (Suc i) ts) = None) \<and>
      names d (resolve (part_path n)) = None \<and> \<not> dirs d (resolve (part_path n)) \<and>
      \<not> dirs d (resolve (final_path n)) \<and> length ts + 1 \<le> free_fds d \<and> L \<le> room d)"

text \<open>
  What a transfer of used bytes under the name n costs the disk d0: at most one descriptor for every
  component of the name, and the bytes; the directories of the name are made.
\<close>

definition resources :: "fs \<Rightarrow> bytes \<Rightarrow> nat \<Rightarrow> fs \<Rightarrow> bool" where
  "resources d0 n used d \<longleftrightarrow>
     (let ts = tokens [slash] n in
      free_fds d0 \<le> length ts + free_fds d \<and> room d0 \<le> used + room d \<and>
      dirs d = (\<lambda>q. dirs d0 q \<or> (\<exists>i < length ts - 1. q = cs ''mnt'' # take (Suc i) ts)))"

text \<open>The server has received data of the file announced by fb under the name n.\<close>

definition receiving :: "fs \<Rightarrow> bytes \<Rightarrow> FileBlock_t \<Rightarrow> bytes \<Rightarrow> server \<Rightarrow> bool" where
  "receiving d0 n fb data s \<longleftrightarrow>
     (\<exists>ino. Filemsg s = fb \<and> file_creattime s = timestamp fb \<and>
        terminated (file_path s) \<and> cstr (file_path s) = final_path n \<and>
        terminated (file_path_back s) \<and> cstr (file_path_back s) = part_path n \<and>
        names (disk s) (resolve (part_path n)) = Some ino \<and> inode (disk s) ino = data \<and>
        fresh d0 \<le> ino \<and> ino < fresh (disk s) \<and> 0 \<le> fd s \<and>
        fd_of (disk s) (fd s) = File ino (length data) \<and>
        unat (file_length fb) \<le> length data + room (disk s) \<and> 1 \<le> free_fds (disk s) \<and>
        dirs (disk s) (butlast (resolve (final_path n))) \<and>
        \<not> dirs (disk s) (resolve (part_path n)) \<and> \<not> dirs (disk s) (resolve (final_path n)) \<and>
        (\<forall>p. p \<noteq> resolve (part_path n) \<longrightarrow> names (disk s) p = names d0 p) \<and>
        (\<forall>i < fresh d0. inode (disk s) i = inode d0 i) \<and> resources d0 n (length data) (disk s))"

text \<open>The file is in place, everything else is as before.\<close>

definition stored :: "fs \<Rightarrow> bytes \<Rightarrow> FileBlock_t \<Rightarrow> bytes \<Rightarrow> server \<Rightarrow> bool" where
  "stored d0 n fb data s \<longleftrightarrow>
     cleared s \<and> file_at (disk s) (resolve (final_path n)) = Some data \<and>
     (\<exists>i. names (disk s) (resolve (final_path n)) = Some i \<and> mtime (disk s) i = timestamp fb) \<and>
     names (disk s) (resolve (part_path n)) = None \<and>
     (\<forall>p. p \<noteq> resolve (final_path n) \<longrightarrow> p \<noteq> resolve (part_path n) \<longrightarrow>
        names (disk s) p = names d0 p \<and> file_at (disk s) p = file_at d0 p) \<and>
     wf_fs (disk s) \<and> resources d0 n (length data) (disk s)"

lemma reply_simps [simp]:
  "Filemsg (reply m t s) = Filemsg s" "fd (reply m t s) = fd s" "file_path (reply m t s) = file_path s"
  "file_path_back (reply m t s) = file_path_back s" "file_creattime (reply m t s) = file_creattime s"
  "disk (reply m t s) = disk s"
  "sent (reply m t s) = sent s @ [header (m\<lparr>m_type := of_nat (type_code t), m_buf_len := 0\<rparr>)]"
  by (simp_all add: reply_def udpsend_def)

lemma strcat3:
  assumes "file_path_back s = bzero 128" "0 \<notin> set n" "length n \<le> 70"
  obtains p1 p2 p3 where "strcat (bzero 128) PICTUREPATH = Some p1" "strcat p1 n = Some p2"
    "strcat p2 (cs ''.filepart'') = Some p3" "terminated p2" "cstr p2 = final_path n"
    "terminated p3" "cstr p3 = part_path n"
proof -
  obtain p1 where p1: "strcat (bzero 128) PICTUREPATH = Some p1" "cstr p1 = PICTUREPATH"
    "terminated p1" "length p1 = 128"
    by (rule strcat_Some [of "bzero 128" PICTUREPATH]) (simp_all add: filepart_facts)
  obtain p2 where p2: "strcat p1 n = Some p2" "cstr p2 = PICTUREPATH @ n" "terminated p2"
    "length p2 = 128"
    by (rule strcat_Some [of p1 n]) (use p1 assms filepart_facts in simp_all)
  obtain p3 where p3: "strcat p2 (cs ''.filepart'') = Some p3"
    "cstr p3 = (PICTUREPATH @ n) @ cs ''.filepart''" "terminated p3" "length p3 = 128"
    by (rule strcat_Some [of p2 "cs ''.filepart''"]) (use p2 assms filepart_facts in simp_all)
  show thesis
    by (rule that [OF p1(1) p2(1) p3(1)]) (use p2 p3 in \<open>simp_all add: final_path_def part_path_def\<close>)
qed

lemma paths_of_good_name:
  assumes "good_name n"
  shows "resolve (final_path n) \<noteq> []" "resolve (part_path n) \<noteq> []"
    "butlast (resolve (part_path n)) = butlast (resolve (final_path n))"
    "butlast (resolve (final_path n)) = cs ''mnt'' # butlast (tokens [slash] n)"
    "resolve (part_path n) \<noteq> resolve (final_path n)"
    "part_path n \<noteq> []" "last (part_path n) \<noteq> slash"
proof -
  note r = resolve_good [OF assms, folded final_path_def part_path_def]
  have ne: "tokens [slash] n \<noteq> []" by (rule good_name_tokens(1) [OF assms])
  then obtain us u where ts: "tokens [slash] n = us @ [u]" by (metis append_butlast_last_id)
  show "resolve (final_path n) \<noteq> []" "resolve (part_path n) \<noteq> []"
    "butlast (resolve (part_path n)) = butlast (resolve (final_path n))"
    "butlast (resolve (final_path n)) = cs ''mnt'' # butlast (tokens [slash] n)"
    using ne by (simp_all add: r ts)
  show "resolve (part_path n) \<noteq> resolve (final_path n)" by (simp add: r ts cs_def)
  show "part_path n \<noteq> []" "last (part_path n) \<noteq> slash"
    by (simp_all add: part_path_def cs_def of_char_def)
qed

lemma butlast_take_ex:
  assumes "ts \<noteq> []" "P (m # [])" "\<forall>i < length ts - 1. P (m # take (Suc i) ts)"
  shows "P (m # butlast ts)"
proof (cases ts)
  case (Cons x xs)
  show ?thesis
  proof (cases xs)
    case Nil
    with assms(2) Cons show ?thesis by simp
  next
    case (Cons y ys)
    with \<open>ts = x # xs\<close> have l: "length ts = Suc (Suc (length ys))" by simp
    then have "butlast ts = take (Suc (length ys)) ts" by (simp add: butlast_conv_take)
    then show ?thesis using assms(3) l by simp
  qed
qed (use assms in simp)

lemma cmd_reqsend_deel_ok:
  assumes c: "cleared s" and n: "good_name n" and ready: "disk_ready n (unat (file_length fb)) (disk s)"
    and fb: "fileblock_of (m_buf m) = Some fb" "terminated (file_name fb)" "cstr (file_name fb) = n"
  shows "\<exists>s'. cmd_reqsend_deel m s = Some s' \<and> receiving (disk s) n fb [] s' \<and>
    sent s' = sent s @ [header (m\<lparr>m_type := of_nat (type_code ACK_OK), m_buf_len := 0\<rparr>)]"
proof -
  let ?ts = "tokens [slash] n" and ?part = "resolve (part_path n)" and ?final = "resolve (final_path n)"
  note pg = paths_of_good_name [OF n]
  from n have nn: "0 \<notin> set n" "length n \<le> 70" by (simp_all add: good_name_def)
  from ready have rd: "wf_fs (disk s)" "dirs (disk s) [cs ''mnt'']"
    "\<forall>i < length ?ts - 1. names (disk s) (cs ''mnt'' # take (Suc i) ?ts) = None"
    "names (disk s) ?part = None" "\<not> dirs (disk s) ?part" "\<not> dirs (disk s) ?final"
    "length ?ts + 1 \<le> free_fds (disk s)" "unat (file_length fb) \<le> room (disk s)"
    by (simp_all add: disk_ready_def Let_def)
  from strcat3 [of s n] c nn obtain p1 p2 p3 where
    st: "strcat (bzero 128) PICTUREPATH = Some p1" "strcat p1 n = Some p2"
    "strcat p2 (cs ''.filepart'') = Some p3"
    and p: "terminated p2" "cstr p2 = final_path n" "terminated p3" "cstr p3 = part_path n"
    unfolding cleared_def by blast
  from access_dir_ok [OF n fb(2,3) rd(2,3)] obtain r nm' d1 where
    ad: "access_dir (file_name fb) (disk s) = Some (r, nm', d1)" and sf: "same_files (disk s) d1"
    and dd: "dirs d1 = (\<lambda>q. dirs (disk s) q \<or> (\<exists>i < length ?ts - 1. q = cs ''mnt'' # take (Suc i) ?ts))"
    and fr: "free_fds (disk s) + 1 \<le> length ?ts + free_fds d1" by blast
  have fr2: "2 \<le> free_fds d1" using fr rd(7) by simp
  have parent: "dirs d1 (butlast ?part)"
    unfolding pg(3,4) by (rule butlast_take_ex) (use good_name_tokens(1) [OF n] rd(2) dd in auto)
  have short: "length q < length ?final" if "\<exists>i < length ?ts - 1. q = cs ''mnt'' # take (Suc i) ?ts" for q
    using that by (auto simp: resolve_good(1) [OF n, folded final_path_def])
  have "length ?part = length ?final"
    using pg(1-3) by (metis length_butlast append_butlast_last_id length_append_singleton)
  moreover have "\<not> dirs d1 q" if "\<not> dirs (disk s) q" "length q = length ?final" for q
    unfolding dd by (rule notI, elim disjE) (use that short [of q] in simp_all)
  ultimately have nodir: "\<not> dirs d1 ?part" "\<not> dirs d1 ?final"
    using rd(5,6) by blast+
  let ?d2 = "d1\<lparr>names := (names d1)(?part \<mapsto> fresh d1), inode := (inode d1)(fresh d1 := []),
      fresh := Suc (fresh d1)\<rparr>"
  have "0 < length (filter (\<lambda>e. e = Free) (fds d1))" using fr2 unfolding free_fds_def by linarith
  from first_free_ex [OF this] have "first_free (fds d1) \<noteq> None" by blast
  then have op: "open_wronly_creat (part_path n) d1 = new_fd (File (fresh d1) 0) ?d2"
    using pg nodir parent sf rd(4) by (simp add: open_wronly_creat_def same_files_def)
  have "0 < free_fds ?d2" using fr2 by (simp add: free_fds_def del: length_greater_0_conv)
  then obtain i where nf: "new_fd (File (fresh d1) 0) ?d2 = (int i, ?d2\<lparr>fds := (fds ?d2)[i := File (fresh d1) 0]\<rparr>)"
    "i < length (fds d1)" "Suc (free_fds (?d2\<lparr>fds := (fds ?d2)[i := File (fresh d1) 0]\<rparr>)) = free_fds ?d2"
    by (rule new_fd_ok [where e = "File (fresh d1) 0"]) auto
  let ?d3 = "?d2\<lparr>fds := (fds d1)[i := File (fresh d1) 0]\<rparr>"
  have free3: "1 \<le> free_fds ?d3" using nf(3) fr2 by (simp add: free_fds_def)
  let ?s = "s\<lparr>Filemsg := fb, file_creattime := timestamp fb, file_path := p2, file_path_back := p3,
      fd := int i, disk := ?d3\<rparr>"
  have run: "cmd_reqsend_deel m s = Some (reply m ACK_OK ?s)"
    using c fb st p ad op nf(1) by (simp add: cmd_reqsend_deel_def cleared_def)
  have "free_fds (disk s) \<le> length ?ts + free_fds ?d3" using fr nf(3) by (simp add: free_fds_def)
  then have res: "resources (disk s) n 0 ?d3" using sf dd by (simp add: resources_def same_files_def)
  have "receiving (disk s) n fb [] (reply m ACK_OK ?s)"
    unfolding receiving_def
    using res p rd sf nf(2) free3 parent nodir pg(3)
    by (intro exI [of _ "fresh d1"]) (simp add: fd_of_def same_files_def)
  with run show ?thesis by auto
qed

lemma length_filter_update:
  "i < length xs \<Longrightarrow> \<not> P (xs ! i) \<Longrightarrow> \<not> P y \<Longrightarrow> length (filter P (xs[i := y])) = length (filter P xs)"
proof (induction xs arbitrary: i)
  case (Cons x xs)
  then show ?case by (cases i) auto
qed simp

lemma cmd_revfile_ok:
  assumes r: "receiving d0 n fb data s" and len: "unat (m_buf_len m) \<le> length (m_buf m)"
    and fits: "length data + unat (m_buf_len m) \<le> unat (file_length fb)"
  shows "\<exists>s'. cmd_revfile m s = Some s' \<and>
    receiving d0 n fb (data @ take (unat (m_buf_len m)) (m_buf m)) s' \<and>
    sent s' = sent s @ [header (m\<lparr>m_type := of_nat (type_code ACK_OK), m_buf_len := 0\<rparr>)]"
proof -
  let ?k = "unat (m_buf_len m)" let ?src = "take ?k (m_buf m)"
  from r obtain ino where R: "Filemsg s = fb" "file_creattime s = timestamp fb"
    "terminated (file_path s)" "cstr (file_path s) = final_path n"
    "terminated (file_path_back s)" "cstr (file_path_back s) = part_path n"
    "names (disk s) (resolve (part_path n)) = Some ino" "inode (disk s) ino = data"
    "fresh d0 \<le> ino" "ino < fresh (disk s)" "0 \<le> fd s"
    "fd_of (disk s) (fd s) = File ino (length data)"
    "unat (file_length fb) \<le> length data + room (disk s)" "1 \<le> free_fds (disk s)"
    "dirs (disk s) (butlast (resolve (final_path n)))"
    "\<not> dirs (disk s) (resolve (part_path n))" "\<not> dirs (disk s) (resolve (final_path n))"
    "\<forall>p. p \<noteq> resolve (part_path n) \<longrightarrow> names (disk s) p = names d0 p"
    "\<forall>i < fresh d0. inode (disk s) i = inode d0 i" "resources d0 n (length data) (disk s)"
    unfolding receiving_def by blast
  have i: "nat (fd s) < length (fds (disk s))" "fds (disk s) ! nat (fd s) = File ino (length data)"
    using R(12) by (auto simp: fd_of_def split: if_splits)
  let ?d = "(disk s)\<lparr>inode := (inode (disk s))(ino := data @ ?src), room := room (disk s) - ?k,
      fds := (fds (disk s))[nat (fd s) := File ino (length data + ?k)]\<rparr>"
  have ls: "length ?src = ?k" using len by simp
  have ext: "length data + ?k - length data - room (disk s) = 0" using fits R(13) by simp
  have wr: "write_fd (fd s) ?src (disk s) = (int ?k, ?d)"
    using R(8) ls ext fits R(13) by (auto simp: write_fd_def R(12) Let_def bzero_def)
  have free: "free_fds ?d = free_fds (disk s)"
  proof -
    have "fds (disk s) ! nat (fd s) \<noteq> Free" using i by simp
    then show ?thesis using i(1) by (simp add: free_fds_def length_filter_update)
  qed
  have nz: "uint (m_buf_len m) \<noteq> - 1"
    using unsigned_greater_eq [of "m_buf_len m", where ?'a = int] by linarith
  have run: "cmd_revfile m s = Some (reply m ACK_OK (s\<lparr>disk := ?d\<rparr>))"
    using wr len nz by (simp add: cmd_revfile_def mem_get_def Let_def)
  have res: "resources d0 n (length (data @ ?src)) ?d"
    using R(20) free ls by (auto simp: resources_def Let_def)
  have "receiving d0 n fb (data @ ?src) (reply m ACK_OK (s\<lparr>disk := ?d\<rparr>))"
    unfolding receiving_def
    using res R i fits free ls
    by (intro exI [of _ ino]) (simp add: fd_of_def)
  with run show ?thesis by auto
qed

section \<open>The environment: OpenSSL and the shell\<close>

locale openssl_md5 = incremental_hash "MD5_Init ossl" "MD5_Update ossl" "MD5_Final ossl" okctx repr digest limit
  for ossl :: "'c openssl" and okctx :: "'c \<Rightarrow> bool" and repr :: "'c \<Rightarrow> bytes \<Rightarrow> bool"
    and digest :: "bytes \<Rightarrow> bytes" and limit :: nat +
  assumes ctx0_ok: "okctx (ctx0 ossl)"
    and limit_buf: "4096 < limit"
    and digest_length: "length (digest m) = 16"
begin

lemma MD5_file_ossl_ok:
  assumes "path \<noteq> []" "names d (resolve path) = Some i" "\<not> dirs d (resolve path)"
    and "1 \<le> free_fds d" "length output = 16"
  shows "MD5_file_ossl ossl path output d = Some (0, digest (inode d i), d)"
proof -
  have "0 < free_fds d" using assms(4) by simp
  then obtain k where nf: "new_fd (File i 0) d = (int k, d\<lparr>fds := (fds d)[k := File i 0]\<rparr>)"
    "k < length (fds d)" "fds d ! k = Free"
    by (rule new_fd_ok [where e = "File i 0"]) auto
  let ?d = "d\<lparr>fds := (fds d)[k := File i 0]\<rparr>"
  have o: "open_rdonly path d = (int k, ?d)" using assms nf by (simp add: open_rdonly_def)
  have f: "fd_of ?d (int k) = File i 0" using nf by (simp add: fd_of_def)
  have cl: "close_fd (int k) ?d = d" using nf(3) by (simp add: close_fd_def list_update_id flip: nf(3))
  have lb: "length (bzero 4096) < limit" "length (bzero 4096) < (2 :: nat) ^ 32"
    using limit_buf by simp_all
  have fit: "reads_fit (length (bzero 4096)) (file_reads 4096 (inode d i))"
    using file_reads_fit [of 4096 "inode d i"] by simp
  from hash_stream [OF ctx0_ok fit lb] obtain c1 c2 where h:
    "hash_loop (MD5_Update ossl) (bzero 4096) (file_reads 4096 (inode d i)) (MD5_Init ossl (ctx0 ossl)) = Some c1"
    "MD5_Final ossl c1 = Some (c2, digest (inode d i))"
    by (auto simp: delivered_file_reads)
  have put: "mem_put output 0 (digest (inode d i)) = Some (digest (inode d i))"
    using assms(5) digest_length by (simp add: mem_put_def)
  show ?thesis
    unfolding MD5_file_ossl_def o Let_def prod.case f fd_entry.case
    using h put cl by simp
qed

end

text \<open>Characters that the shell takes literally.\<close>

definition safe_char :: "u8 \<Rightarrow> bool" where
  "safe_char c \<longleftrightarrow> (0x2D \<le> c \<and> c \<le> 0x39) \<or> (0x41 \<le> c \<and> c \<le> 0x5A) \<or> c = 0x5F \<or> (0x61 \<le> c \<and> c \<le> 0x7A)"

definition safe_path :: "bytes \<Rightarrow> bool" where
  "safe_path p \<longleftrightarrow> p \<noteq> [] \<and> hd p \<noteq> 0x2D \<and> (\<forall>c \<in> set p. safe_char c)"

text \<open>What the server relies on: mv with two plain paths renames the file.\<close>

locale posix_shell =
  fixes sh :: shell
  assumes mv: "safe_path a \<Longrightarrow> safe_path b \<Longrightarrow> \<not> dirs d (resolve b) \<Longrightarrow>
    sh (cs ''mv '' @ a @ cs '' '' @ b) d = snd (rename a b d)"

definition mv_shell :: shell where
  "mv_shell cmd d = (case tokens [0x20] cmd of
     [c, a, b] \<Rightarrow> if c = cs ''mv'' then snd (rename a b d) else d
   | _ \<Rightarrow> d)"

lemma tokens_safe_path: "safe_path p \<Longrightarrow> tokens [0x20] p = [p]"
  by (rule tokens_single) (auto simp: safe_path_def safe_char_def)

interpretation mv: posix_shell mv_shell
proof
  fix a b d assume ab: "safe_path a" "safe_path b"
  have "tokens [0x20] (cs ''mv'' @ 0x20 # (a @ 0x20 # b)) =
      tokens [0x20] (cs ''mv'') @ tokens [0x20] (a @ 0x20 # b)"
    by (rule tokens_append_delim) simp
  also have "tokens [0x20] (a @ 0x20 # b) = tokens [0x20] a @ tokens [0x20] b"
    by (rule tokens_append_delim) simp
  also have "tokens [0x20] (cs ''mv'') = [cs ''mv'']"
    by (rule tokens_single) (simp_all add: cs_def of_char_def)
  finally have t: "tokens [0x20] (cs ''mv'' @ 0x20 # (a @ 0x20 # b)) = [cs ''mv'', a, b]"
    using ab by (simp add: tokens_safe_path)
  have e: "cs ''mv '' @ a @ cs '' '' @ b = cs ''mv'' @ 0x20 # (a @ 0x20 # b)"
    by (simp add: cs_def of_char_def)
  show "mv_shell (cs ''mv '' @ a @ cs '' '' @ b) d = snd (rename a b d)"
    by (simp only: e mv_shell_def t list.case) simp
qed

definition md5c_openssl :: "MD5_CTX openssl" where
  "md5c_openssl = \<lparr>ctx0 = \<lparr>count0 = 0, count1 = 0, state = md5_init_regs, buffer = bzero 64\<rparr>,
     MD5_Init = MD5Init, MD5_Update = MD5Update, MD5_Final = MD5Final\<rparr>"

interpretation md5o: openssl_md5 md5c_openssl "\<lambda>c. length (buffer c) = 64" md5_repr md5_digest "2 ^ 32 - 64"
  by unfold_locales (use md5_repr_init md5_update_repr MD5Final_digest in \<open>auto simp: md5c_openssl_def\<close>)

section \<open>The end of a transfer\<close>

text \<open>The command that moves the file, built in the buffer of the server; and what it leaves on the disk.\<close>

lemma mv_command_buffer:
  assumes "length p + length q < 250" "0 \<notin> set p" "0 \<notin> set q"
  obtains c1 c2 c3 c4 where "strcat (bzero 256) (cs ''mv '') = Some c1" "strcat c1 p = Some c2"
    "strcat c2 (cs '' '') = Some c3" "strcat c3 q = Some c4" "cstr c4 = cs ''mv '' @ p @ cs '' '' @ q"
proof -
  have z: "0 \<notin> set (cs ''mv '')" "0 \<notin> set (cs '' '')" "length (cs ''mv '') = 3" "length (cs '' '') = 1"
    by (simp_all add: cs_def of_char_def)
  obtain c1 where c1: "strcat (bzero 256) (cs ''mv '') = Some c1" "cstr c1 = cs ''mv ''"
    "terminated c1" "length c1 = 256"
    by (rule strcat_Some [of "bzero 256" "cs ''mv ''"]) (simp_all add: z)
  obtain c2 where c2: "strcat c1 p = Some c2" "cstr c2 = cs ''mv '' @ p" "terminated c2" "length c2 = 256"
    by (rule strcat_Some [of c1 p]) (use c1 z assms in simp_all)
  obtain c3 where c3: "strcat c2 (cs '' '') = Some c3" "cstr c3 = (cs ''mv '' @ p) @ cs '' ''"
    "terminated c3" "length c3 = 256"
    by (rule strcat_Some [of c2 "cs '' ''"]) (use c2 z assms in simp_all)
  obtain c4 where c4: "strcat c3 q = Some c4" "cstr c4 = ((cs ''mv '' @ p) @ cs '' '') @ q"
    by (rule strcat_Some [of c3 q]) (use c3 z assms in simp_all)
  show thesis by (rule that [OF c1(1) c2(1) c3(1) c4(1)]) (simp add: c4(2))
qed

definition moved :: "bytes \<Rightarrow> nat \<Rightarrow> u64 \<Rightarrow> fs \<Rightarrow> fs" where
  "moved n ino t d = d\<lparr>names := ((names d)(resolve (part_path n) := None))(resolve (final_path n) \<mapsto> ino),
     mtime := (mtime d)(ino := t)\<rparr>"

locale udp_environment = openssl_md5 ossl okctx repr digest limit + posix_shell sh
  for ossl :: "'c openssl" and okctx :: "'c \<Rightarrow> bool" and repr :: "'c \<Rightarrow> bytes \<Rightarrow> bool"
    and digest :: "bytes \<Rightarrow> bytes" and limit :: nat and sh :: shell
begin

lemma cmd_revfilefinsh_moves:
  assumes r: "receiving d0 n fb data s" and n: "good_name n"
    and safe: "\<forall>c \<in> set n. safe_char c" and m5: "md5 fb = digest data"
  shows "\<exists>ino. names (disk s) (resolve (part_path n)) = Some ino \<and> cmd_revfilefinsh ossl sh m s =
    Some ((reply m ACK_OK s)\<lparr>disk := moved n ino (timestamp fb) (disk s),
      file_path_back := bzero 128, file_path := bzero 128\<rparr>)"
proof -
  note pg = paths_of_good_name [OF n]
  let ?part = "resolve (part_path n)" and ?final = "resolve (final_path n)"
  from r obtain ino where R: "Filemsg s = fb" "file_creattime s = timestamp fb"
    "terminated (file_path s)" "cstr (file_path s) = final_path n"
    "terminated (file_path_back s)" "cstr (file_path_back s) = part_path n"
    "names (disk s) ?part = Some ino" "inode (disk s) ino = data"
    "1 \<le> free_fds (disk s)" "dirs (disk s) (butlast ?final)"
    "\<not> dirs (disk s) ?part" "\<not> dirs (disk s) ?final"
    unfolding receiving_def by blast
  have md: "MD5_file_ossl ossl (part_path n) (bzero 16) (disk s) = Some (0, digest data, disk s)"
    using MD5_file_ossl_ok [of "part_path n" "disk s" ino "bzero 16"] pg(6) R by simp
  obtain c1 c2 c3 c4 where c: "strcat (bzero 256) (cs ''mv '') = Some c1" "strcat c1 (part_path n) = Some c2"
    "strcat c2 (cs '' '') = Some c3" "strcat c3 (final_path n) = Some c4"
    "cstr c4 = cs ''mv '' @ part_path n @ cs '' '' @ final_path n"
    by (rule mv_command_buffer [of "part_path n" "final_path n"])
      (use n filepart_facts in \<open>simp_all add: good_name_def final_path_def part_path_def\<close>)
  have sp: "safe_path (part_path n)" "safe_path (final_path n)"
    using safe by (auto simp: safe_path_def part_path_def final_path_def PICTUREPATH_def cs_def
        of_char_def safe_char_def)
  let ?d = "(disk s)\<lparr>names := ((names (disk s))(?part := None))(?final \<mapsto> ino)\<rparr>"
  have shell: "sh (cstr c4) (disk s) = ?d"
    using mv [OF sp R(12)] pg(1) R(7,10,12) by (simp add: c(5) rename_def)
  have ut: "utime (final_path n) (timestamp fb) ?d = moved n ino (timestamp fb) (disk s)"
    by (simp add: utime_def moved_def)
  show ?thesis
    using c(1-4) shell ut md m5 R by (simp add: cmd_revfilefinsh_def Let_def)
qed

lemma cmd_revfilefinsh_ok:
  assumes r: "receiving d0 n fb data s" and wf: "wf_fs d0" and n: "good_name n"
    and safe: "\<forall>c \<in> set n. safe_char c" and m5: "md5 fb = digest data"
  shows "\<exists>s'. cmd_revfilefinsh ossl sh m s = Some s' \<and> stored d0 n fb data s' \<and>
    sent s' = sent s @ [header (m\<lparr>m_type := of_nat (type_code ACK_OK), m_buf_len := 0\<rparr>)]"
proof -
  note pg = paths_of_good_name [OF n]
  let ?part = "resolve (part_path n)"
  from cmd_revfilefinsh_moves [OF r n safe m5] obtain ino where run: "names (disk s) ?part = Some ino"
    "cmd_revfilefinsh ossl sh m s = Some ((reply m ACK_OK s)\<lparr>disk := moved n ino (timestamp fb) (disk s),
      file_path_back := bzero 128, file_path := bzero 128\<rparr>)" by blast
  from r run(1) have R: "inode (disk s) ino = data" "\<forall>p. p \<noteq> ?part \<longrightarrow> names (disk s) p = names d0 p"
    "\<forall>i < fresh d0. inode (disk s) i = inode d0 i" "resources d0 n (length data) (disk s)"
    "ino < fresh (disk s)" "fresh d0 \<le> ino"
    unfolding receiving_def by auto
  have other: "map_option (inode (disk s)) (names d0 p) = map_option (inode d0) (names d0 p)" for p
    using R(3) wf by (cases "names d0 p") (auto simp: wf_fs_def)
  have res: "resources d0 n (length data) (moved n ino (timestamp fb) (disk s))"
    using R(4) by (simp add: resources_def Let_def free_fds_def moved_def)
  have "p = ?part \<and> i = ino \<or> i < fresh (disk s)" if "names (disk s) p = Some i" for p i
    using that R(2,5,6) run(1) wf by (cases "p = ?part") (fastforce simp: wf_fs_def)+
  then have wf': "wf_fs (moved n ino (timestamp fb) (disk s))" using R(5) by (auto simp: wf_fs_def moved_def)
  have "stored d0 n fb data ((reply m ACK_OK s)\<lparr>disk := moved n ino (timestamp fb) (disk s),
      file_path_back := bzero 128, file_path := bzero 128\<rparr>)"
    using res wf' R pg(5) run(1) unfolding stored_def
    by (auto simp: cleared_def file_at_def other moved_def)
  with run(2) show ?thesis by auto
qed

end

interpretation md5_udp: udp_environment md5c_openssl "\<lambda>c. length (buffer c) = 64" md5_repr md5_digest
    "2 ^ 32 - 64" mv_shell ..

end
