(* ===== verification/UdpClient.thy ===== *)
theory UdpClient
  imports UdpServer
begin

text \<open>
  filesend/udpfilesend/udp-client.c: sendfile announces a file, sends it block by block and waits
  for an acknowledgement after each datagram. The socket is a parameter: usend is sendto, urecv
  is recvfrom with the receive timeout (None).
\<close>

text \<open>
  get_file_size and get_file_mtime; stat fails for a path without a file. Directories as
  arguments are outside of the model.
\<close>

definition get_file_size :: "bytes \<Rightarrow> fs \<Rightarrow> u64" where
  "get_file_size path d = (case names d (resolve path) of
     None \<Rightarrow> - 1 | Some i \<Rightarrow> of_nat (length (inode d i)))"

definition get_file_mtime :: "bytes \<Rightarrow> fs \<Rightarrow> u64" where
  "get_file_mtime path d = (case names d (resolve path) of None \<Rightarrow> - 1 | Some i \<Rightarrow> mtime d i)"

text \<open>
  udprev stores at most BUF_MAX_LEN bytes at the front of the buffer; on a timeout it leaves the
  buffer alone and returns -1.
\<close>

definition udprev :: "('n \<Rightarrow> bytes option \<times> 'n) \<Rightarrow> bytes \<Rightarrow> 'n \<Rightarrow> int \<times> bytes \<times> 'n" where
  "udprev urecv buf net = (case urecv net of
     (None, net) \<Rightarrow> (- 1, buf, net)
   | (Some d, net) \<Rightarrow>
       let d = take BUF_MAX_LEN d in (int (length d), d @ drop (length d) buf, net))"

text \<open>What sendfile prints at its end.\<close>

datatype report = Request_fail | Send_ok | Send_fail

definition is_ack :: "Command \<Rightarrow> Message_t \<Rightarrow> bool" where
  "is_ack c m \<longleftrightarrow> m_cmd m = of_nat (cmd_code c) \<and> m_type m = of_nat (type_code ACK_OK)"

text \<open>
  One turn of the loop over the blocks. mbuf is the buffer of the message, len the length of the block
  in it, reads what the following calls of read return. The result is None for undefined
  behaviour; otherwise the loop goes on with a new state (Inr) or is left (Inl): at the end of the
  file (None) or because sendfile returns r from inside (Some r).
\<close>

definition send_turn ::
  "(bytes \<Rightarrow> 'n \<Rightarrow> 'n option) \<Rightarrow> ('n \<Rightarrow> bytes option \<times> 'n) \<Rightarrow> bytes \<Rightarrow> nat \<Rightarrow> read_result list \<Rightarrow>
   bytes \<Rightarrow> 'n \<Rightarrow> ((int option \<times> 'n) + (bytes \<times> nat \<times> read_result list \<times> bytes \<times> 'n)) option" where
  "send_turn usend urecv mbuf len reads recvbuf net =
     (let m = \<lparr>m_cmd = of_nat (cmd_code CMD_SEND_FILE), m_type = of_nat (type_code REQ_NORE),
               m_buf_len = of_nat len, m_buf = mbuf\<rparr>;
          datagram = take (len + MESG_HEAD_LEN) (bytes_of_message m)
      in do {
         net \<leftarrow> usend datagram net;
         let (ret, recvbuf, net) = udprev urecv recvbuf net;
         r \<leftarrow> message_of recvbuf;
         if is_ack CMD_SEND_FILE r
         then (case reads of
                 Read bs # reads' \<Rightarrow>
                   if bs = [] then Some (Inl (None, net))
                   else Some (Inr (bs @ drop (length bs) mbuf, length bs, reads', recvbuf, net))
               | _ \<Rightarrow> Some (Inl (None, net)))
         else if m_type r = of_nat (type_code ACK_NOSP) then Some (Inl (Some (- 1), net))
         else do {
           net \<leftarrow> usend datagram net;
           Some (Inr (mbuf, len, reads, recvbuf, net))
         }
      })"

text \<open>The loop; None means that it never ends or that a turn has undefined behaviour.\<close>

partial_function (option) send_loop ::
  "(bytes \<Rightarrow> 'n \<Rightarrow> 'n option) \<Rightarrow> ('n \<Rightarrow> bytes option \<times> 'n) \<Rightarrow> bytes \<Rightarrow> nat \<Rightarrow> read_result list \<Rightarrow>
   bytes \<Rightarrow> 'n \<Rightarrow> (int option \<times> 'n) option" where
  "send_loop usend urecv mbuf len reads recvbuf net =
     Option.bind (send_turn usend urecv mbuf len reads recvbuf net) (\<lambda>t.
       case t of
         Inl r \<Rightarrow> Some r
       | Inr (mbuf, len, reads, recvbuf, net) \<Rightarrow> send_loop usend urecv mbuf len reads recvbuf net)"

lemma send_loop_eq:
  "send_loop usend urecv mbuf len reads recvbuf net =
     (let m = \<lparr>m_cmd = of_nat (cmd_code CMD_SEND_FILE), m_type = of_nat (type_code REQ_NORE),
               m_buf_len = of_nat len, m_buf = mbuf\<rparr>;
          datagram = take (len + MESG_HEAD_LEN) (bytes_of_message m)
      in Option.bind (usend datagram net) (\<lambda>net.
         let (ret, recvbuf, net) = udprev urecv recvbuf net
         in Option.bind (message_of recvbuf) (\<lambda>r.
            if is_ack CMD_SEND_FILE r
            then (case reads of
                    Read bs # reads' \<Rightarrow>
                      if bs = [] then Some (None, net)
                      else send_loop usend urecv (bs @ drop (length bs) mbuf) (length bs) reads' recvbuf net
                  | _ \<Rightarrow> Some (None, net))
            else if m_type r = of_nat (type_code ACK_NOSP) then Some (Some (- 1), net)
            else Option.bind (usend datagram net) (\<lambda>net.
                 send_loop usend urecv mbuf len reads recvbuf net))))"
  by (subst send_loop.simps) (auto simp: send_turn_def Let_def split: Option.bind_splits prod.splits list.splits read_result.splits)

definition request_message :: "FileBlock_t \<Rightarrow> Message_t" where
  "request_message fb = \<lparr>m_cmd = of_nat (cmd_code CMD_SEND_FILEMSG_REQ),
     m_type = of_nat (type_code REQ_NOR), m_buf_len = of_nat sizeof_FileBlock,
     m_buf = bytes_of_fileblock fb @ bzero (BUF_MAX_LEN - sizeof_FileBlock)\<rparr>"

definition request_datagram :: "FileBlock_t \<Rightarrow> bytes" where
  "request_datagram fb = take (sizeof_FileBlock + MESG_HEAD_LEN) (bytes_of_message (request_message fb))"

definition finish_datagram :: bytes where
  "finish_datagram = header \<lparr>m_cmd = of_nat (cmd_code CMD_SEND_FINISH),
     m_type = of_nat (type_code REQ_NOR), m_buf_len = 0, m_buf = []\<rparr>"

text \<open>The file block sendfile fills in; None when the path does not fit into file_name.\<close>

definition fill_fileblock :: "'c openssl \<Rightarrow> bytes \<Rightarrow> fs \<Rightarrow> (FileBlock_t \<times> fs) option" where
  "fill_fileblock ossl path d = do {
     name \<leftarrow> strcpy (bzero FILE_NAME_MAX_LEN) path;
     (_, digest, d) \<leftarrow> MD5_file_ossl ossl path (bzero 16) d;
     Some (\<lparr>file_name = name, md5 = digest, file_length = ucast (get_file_size path d),
            timestamp = get_file_mtime path d\<rparr>, d)
   }"

text \<open>
  The message is made in sendbuf: for the announcement and for the blocks it is cleared first, and it is
  cleared before the answer to the announcement is received; the answer to the end of the transfer is
  received over the message that was sent.
\<close>

definition sendfile :: "'c openssl \<Rightarrow> (bytes \<Rightarrow> 'n \<Rightarrow> 'n option) \<Rightarrow> ('n \<Rightarrow> bytes option \<times> 'n) \<Rightarrow>
    bytes \<Rightarrow> fs \<Rightarrow> 'n \<Rightarrow> (int \<times> report option \<times> 'n) option" where
  "sendfile ossl usend urecv path d net = do {
     (fb, d) \<leftarrow> fill_fileblock ossl path d;
     net \<leftarrow> usend (request_datagram fb) net;
     let (len, sendbuf, net) = udprev urecv (bzero MAXLINE) net;
     r \<leftarrow> message_of sendbuf;
     if is_ack CMD_SEND_FILEMSG_REQ r
     then (let (fd, d) = open_rdonly path d in
       if fd < 0 then Some (- 1, None, net)
       else
         case (case fd_of d fd of File i off \<Rightarrow> file_reads BUF_MAX_LEN (drop off (inode d i))
                                | _ \<Rightarrow> [Read_error]) of
           Read bs # reads \<Rightarrow>
             if bs = [] then Some (- 1, None, net)
             else do {
               mbuf \<leftarrow> mem_put (bzero BUF_MAX_LEN) 0 bs;
               (ret, net) \<leftarrow> send_loop usend urecv mbuf (length bs) reads (bzero MAXLINE) net;
               case ret of
                 Some v \<Rightarrow> Some (v, None, net)
               | None \<Rightarrow> do {
                   net \<leftarrow> usend finish_datagram net;
                   let (len, sendbuf, net) = udprev urecv (finish_datagram @ bzero BUF_MAX_LEN) net;
                   r \<leftarrow> message_of sendbuf;
                   Some (0, Some (if is_ack CMD_SEND_FINISH r then Send_ok else Send_fail), net)
                 }
             }
         | _ \<Rightarrow> Some (- 1, None, net))
     else Some (0, Some Request_fail, net)
   }"

text \<open>main, after the socket was set up: the exit status does not depend on the outcome.\<close>

definition udp_client_main :: "'c openssl \<Rightarrow> (bytes \<Rightarrow> 'n \<Rightarrow> 'n option) \<Rightarrow> ('n \<Rightarrow> bytes option \<times> 'n) \<Rightarrow>
    bytes list \<Rightarrow> fs \<Rightarrow> 'n \<Rightarrow> (int \<times> 'n) option" where
  "udp_client_main ossl usend urecv argv d net =
     (if length argv \<noteq> 2 then Some (1, net)
      else do {
        (_, _, net) \<leftarrow> sendfile ossl usend urecv (argv ! 1) d net;
        Some (0, net)
      })"

section \<open>The receiver the client relies on\<close>

definition ack :: "Command \<Rightarrow> Type \<Rightarrow> bytes" where
  "ack c t = header \<lparr>m_cmd = of_nat (cmd_code c), m_type = of_nat (type_code t), m_buf_len = 0,
     m_buf = []\<rparr>"

definition block_datagram :: "bytes \<Rightarrow> bytes" where
  "block_datagram c = bytes_of_message \<lparr>m_cmd = of_nat (cmd_code CMD_SEND_FILE),
     m_type = of_nat (type_code REQ_NORE), m_buf_len = of_nat (length c), m_buf = c\<rparr>"

text \<open>What the loop over the blocks relies on: every block is taken, and the answer that comes then is an acknowledgement.\<close>

locale block_taker =
  fixes usend :: "bytes \<Rightarrow> 'n \<Rightarrow> 'n option" and urecv :: "'n \<Rightarrow> bytes option \<times> 'n"
    and taking :: "FileBlock_t \<Rightarrow> bytes \<Rightarrow> 'n \<Rightarrow> bool"
  assumes block: "taking fb data s \<Longrightarrow> c \<noteq> [] \<Longrightarrow> length c \<le> BUF_MAX_LEN \<Longrightarrow>
      length data + length c \<le> unat (file_length fb) \<Longrightarrow>
      \<exists>s1 s2. usend (block_datagram c) s = Some s1 \<and>
        urecv s1 = (Some (ack CMD_SEND_FILE ACK_OK), s2) \<and> taking fb (data @ c) s2"

locale file_receiver = block_taker usend urecv taking
  for usend :: "bytes \<Rightarrow> 'n \<Rightarrow> 'n option" and urecv :: "'n \<Rightarrow> bytes option \<times> 'n"
    and taking :: "FileBlock_t \<Rightarrow> bytes \<Rightarrow> 'n \<Rightarrow> bool" +
  fixes idle :: "FileBlock_t \<Rightarrow> 'n \<Rightarrow> bool"
    and finished :: "FileBlock_t \<Rightarrow> bytes \<Rightarrow> 'n \<Rightarrow> bool"
    and digest :: "bytes \<Rightarrow> bytes"
  assumes request: "idle fb s \<Longrightarrow> wf_fileblock fb \<Longrightarrow>
      \<exists>s1 s2. usend (request_datagram fb) s = Some s1 \<and>
        urecv s1 = (Some (ack CMD_SEND_FILEMSG_REQ ACK_OK), s2) \<and> taking fb [] s2"
    and finish: "taking fb data s \<Longrightarrow> md5 fb = digest data \<Longrightarrow>
      \<exists>s1 s2. usend finish_datagram s = Some s1 \<and>
        urecv s1 = (Some (ack CMD_SEND_FINISH ACK_OK), s2) \<and> finished fb data s2"

lemma message_of_answer:
  "message_of (ack c t @ buf) = Some \<lparr>m_cmd = of_nat (cmd_code c), m_type = of_nat (type_code t), m_buf_len = 0, m_buf = buf\<rparr>"
proof -
  have "ack c t @ buf = bytes_of_message
      \<lparr>m_cmd = of_nat (cmd_code c), m_type = of_nat (type_code t), m_buf_len = 0, m_buf = buf\<rparr>"
    by (simp add: ack_def header_eq bytes_of_message_def)
  then show ?thesis by (simp only: message_of_bytes)
qed

lemma codes_distinct:
  "(of_nat (cmd_code c) :: u16) = of_nat (cmd_code c') \<longleftrightarrow> c = c'"
  "(of_nat (type_code t) :: u16) = of_nat (type_code t') \<longleftrightarrow> t = t'"
  by (cases c; cases c'; simp) (cases t; cases t'; simp)

lemma is_ack_answer:
  assumes "message_of (ack c t @ buf) = Some r"
  shows "is_ack c' r \<longleftrightarrow> c' = c \<and> t = ACK_OK"
proof -
  have "r = \<lparr>m_cmd = of_nat (cmd_code c), m_type = of_nat (type_code t), m_buf_len = 0, m_buf = buf\<rparr>"
    using assms by (simp add: message_of_answer)
  then show ?thesis by (simp only: is_ack_def Message_t.simps codes_distinct) auto
qed

lemma message_of_ack:
  "\<exists>r. message_of (ack c ACK_OK @ buf) = Some r \<and> is_ack c r"
  by (simp add: message_of_answer is_ack_def)

lemma length_ack: "length (ack c t) = 8"
  by (simp add: ack_def header_eq)

lemma udprev_ack:
  assumes "urecv s = (Some (ack c t), s')"
  shows "udprev urecv buf s = (8, ack c t @ drop 8 buf, s')"
  using length_ack [of c t] by (simp add: udprev_def assms Let_def)

text \<open>A run of sendfile whose loop comes to its end.\<close>

lemma sendfile_run:
  assumes fb: "fill_fileblock ossl path d = Some (fb, d')"
    and op: "open_rdonly path d' = (int k, d'')" "fd_of d'' (int k) = File i 0" "inode d'' i = data" "data \<noteq> []"
    and request: "usend (request_datagram fb) s = Some s1" "urecv s1 = (Some (ack CMD_SEND_FILEMSG_REQ ACK_OK), s2)"
    and loop: "send_loop usend urecv (take BUF_MAX_LEN data @ drop (length (take BUF_MAX_LEN data)) (bzero BUF_MAX_LEN))
      (length (take BUF_MAX_LEN data)) (file_reads BUF_MAX_LEN (drop BUF_MAX_LEN data)) (bzero MAXLINE) s2 = Some (None, s3)"
    and finish: "usend finish_datagram s3 = Some s4" "urecv s4 = (Some (ack c t), s5)"
  shows "sendfile ossl usend urecv path d s =
    Some (0, Some (if c = CMD_SEND_FINISH \<and> t = ACK_OK then Send_ok else Send_fail), s5)"
proof -
  let ?c = "take BUF_MAX_LEN data"
  have fr: "file_reads BUF_MAX_LEN data = Read ?c # file_reads BUF_MAX_LEN (drop BUF_MAX_LEN data)"
    using op(4) by (simp add: file_reads.simps [of _ data])
  have ne: "?c \<noteq> []" using op(4) by simp
  have put: "mem_put (bzero BUF_MAX_LEN) 0 ?c = Some (?c @ drop (length ?c) (bzero BUF_MAX_LEN))"
    by (simp add: mem_put_def)
  obtain r where r: "message_of (ack CMD_SEND_FILEMSG_REQ ACK_OK @ drop 8 (bzero MAXLINE)) = Some r"
    "is_ack CMD_SEND_FILEMSG_REQ r"
    using message_of_ack by blast
  obtain r' where r': "message_of (ack c t @ drop 8 (finish_datagram @ bzero BUF_MAX_LEN)) = Some r'"
    by (simp add: message_of_answer)
  from is_ack_answer [OF this] have a: "is_ack CMD_SEND_FINISH r' \<longleftrightarrow> c = CMD_SEND_FINISH \<and> t = ACK_OK" by auto
  show ?thesis
    unfolding sendfile_def fb bind.bind_lunit prod.case Let_def
      request(1) udprev_ack [of urecv, OF request(2)] r(1)
    using r(2) op(1-3) fr ne put loop finish(1) r' a
    by (simp add: udprev_ack [of urecv, OF finish(2)] del: net_sizes drop_append length_take take_eq_Nil take_eq_Nil2)
qed

context block_taker
begin

lemma send_loop_ok:
  assumes "taking fb data s" "bs \<noteq> []" "length bs \<le> BUF_MAX_LEN" "length recvbuf = MAXLINE"
    and "length mbuf = BUF_MAX_LEN" "take (length bs) mbuf = bs"
    and "length data + length bs + length rest \<le> unat (file_length fb)"
  shows "\<exists>s'. send_loop usend urecv mbuf (length bs) (file_reads BUF_MAX_LEN rest) recvbuf s = Some (None, s') \<and>
    taking fb (data @ bs @ rest) s'"
  using assms
proof (induction "length rest" arbitrary: rest data s bs mbuf recvbuf rule: less_induct)
  case less
  from block [OF less.prems(1-3)] less.prems(7) obtain s1 s2 where
    b: "usend (block_datagram bs) s = Some s1" "urecv s1 = (Some (ack CMD_SEND_FILE ACK_OK), s2)"
    "taking fb (data @ bs) s2" by auto
  let ?recvbuf = "ack CMD_SEND_FILE ACK_OK @ drop 8 recvbuf"
  from message_of_ack obtain r where
    r: "message_of ?recvbuf = Some r" "is_ack CMD_SEND_FILE r" by blast
  have dg: "take (length bs + MESG_HEAD_LEN) (bytes_of_message \<lparr>m_cmd = of_nat (cmd_code CMD_SEND_FILE),
      m_type = of_nat (type_code REQ_NORE), m_buf_len = of_nat (length bs), m_buf = mbuf\<rparr>) = block_datagram bs"
    using less.prems(6) by (simp add: block_datagram_def bytes_of_message_def add.commute)
  note step = send_loop_eq [of usend urecv mbuf "length bs" _ recvbuf s, unfolded Let_def dg b(1)
      bind.bind_lunit udprev_ack [of urecv, OF b(2)] prod.case r(1)]
  show ?case
  proof (cases "rest = []")
    case True
    then have "file_reads BUF_MAX_LEN rest = [Read []]" by (simp add: file_reads.simps)
    then show ?thesis using True b(3) r(2) by (simp add: step)
  next
    case False
    let ?c = "take BUF_MAX_LEN rest" and ?rest = "drop BUF_MAX_LEN rest"
    have fr: "file_reads BUF_MAX_LEN rest = Read ?c # file_reads BUF_MAX_LEN ?rest"
      using False by (simp add: file_reads.simps [of _ rest])
    have c: "?c \<noteq> []" "length ?c \<le> BUF_MAX_LEN" using False by simp_all
    have "\<exists>s'. send_loop usend urecv (?c @ drop (length ?c) mbuf) (length ?c)
        (file_reads BUF_MAX_LEN ?rest) ?recvbuf s2 = Some (None, s') \<and>
      taking fb ((data @ bs) @ ?c @ ?rest) s'"
    proof (rule less.hyps)
      show "length ?rest < length rest" using False by (cases rest) simp_all
      show "length (data @ bs) + length ?c + length ?rest \<le> unat (file_length fb)"
        using less.prems(7) by simp
      show "length ?recvbuf = MAXLINE" using less.prems(4) length_ack by simp
      show "length (?c @ drop (length ?c) mbuf) = BUF_MAX_LEN" using less.prems(5) by simp
    qed (use b(3) c in \<open>simp_all add: min_def\<close>)
    then show ?thesis using r(2) c(1) fr by (simp add: step)
  qed
qed

end

context file_receiver
begin

lemma sendfile_ok:
  assumes fb: "fill_fileblock ossl path d = Some (fb, d')" "wf_fileblock fb" "md5 fb = digest data"
    and len: "unat (file_length fb) = length data" "data \<noteq> []"
    and op: "open_rdonly path d' = (int k, d'')" "fd_of d'' (int k) = File i 0" "inode d'' i = data"
    and idle: "idle fb s"
  shows "\<exists>s'. sendfile ossl usend urecv path d s = Some (0, Some Send_ok, s') \<and> finished fb data s'"
proof -
  from request [OF idle fb(2)] obtain s1 s2 where
    q: "usend (request_datagram fb) s = Some s1" "urecv s1 = (Some (ack CMD_SEND_FILEMSG_REQ ACK_OK), s2)"
    "taking fb [] s2" by blast
  let ?c = "take BUF_MAX_LEN data" and ?rest = "drop BUF_MAX_LEN data"
  have c: "?c \<noteq> []" "length ?c \<le> BUF_MAX_LEN" using len(2) by simp_all
  have "\<exists>s'. send_loop usend urecv (?c @ drop (length ?c) (bzero BUF_MAX_LEN)) (length ?c) (file_reads BUF_MAX_LEN ?rest)
      (bzero MAXLINE) s2 = Some (None, s') \<and> taking fb ([] @ ?c @ ?rest) s'"
    by (rule send_loop_ok [OF q(3)]) (use c len(1) in \<open>simp_all add: min_def\<close>)
  then obtain s3 where l: "send_loop usend urecv (?c @ drop (length ?c) (bzero BUF_MAX_LEN)) (length ?c)
      (file_reads BUF_MAX_LEN ?rest) (bzero MAXLINE) s2 = Some (None, s3)" "taking fb data s3" by auto
  from finish [OF l(2) fb(3)] obtain s4 s5 where
    f: "usend finish_datagram s3 = Some s4" "urecv s4 = (Some (ack CMD_SEND_FINISH ACK_OK), s5)"
    "finished fb data s5" by blast
  from sendfile_run [OF fb(1) op len(2) q(1,2) l(1) f(1,2)] f(3) show ?thesis by auto
qed

end

end
