(* ===== verification/UdpTransfer.thy ===== *)
theory UdpTransfer
  imports UdpServer_Proof UdpClient
begin

text \<open>
  Client and server of the udp file transfer put together over a network that loses nothing:
  the server implements the receiver that the client relies on, hence a transfer ends with the
  file in place.
\<close>

section \<open>The server as the client's peer\<close>

text \<open>
  The server processes a datagram when it is sent; k counts the answers the client has taken.
\<close>

definition srv_send :: "'c openssl \<Rightarrow> shell \<Rightarrow> bytes \<Rightarrow> server \<times> nat \<Rightarrow> (server \<times> nat) option" where
  "srv_send ossl sh d = (\<lambda>(s, k). do {
     (_, s) \<leftarrow> socketrev_turn ossl sh (Select_ready (Some d)) s;
     Some (s, k)
   })"

definition srv_recv :: "server \<times> nat \<Rightarrow> bytes option \<times> server \<times> nat" where
  "srv_recv = (\<lambda>(s, k). if k < length (sent s) then (Some (sent s ! k), s, Suc k) else (None, s, k))"

lemma srv_recv_ack:
  "k = length xs \<Longrightarrow> sent s = xs @ [a] \<Longrightarrow> srv_recv (s, k) = (Some a, s, length (sent s))"
  by (simp add: srv_recv_def)

text \<open>What a datagram that is the front of a message turns into.\<close>

lemma srv_send_message:
  assumes d: "d \<noteq> []" "length d \<le> MAXLINE" and m: "d @ bzero (MAXLINE - length d) = bytes_of_message m"
    and s': "dispatch (cmd_repose ossl sh) m s = Some s'"
  shows "srv_send ossl sh d (s, k) = Some (s', k)"
proof -
  have "drop (length d) (bzero MAXLINE) = bzero (MAXLINE - length d)"
    by (simp add: bzero_def)
  then have "mem_put (bzero MAXLINE) 0 (take MAXLINE d) = Some (bytes_of_message m)"
    using d(2) m by (simp add: mem_put_def)
  then show ?thesis
    using d(1) s' by (simp add: srv_send_def onrecv_def message_of_bytes)
qed

lemma ack_header:
  "m_cmd m = of_nat (cmd_code c) \<Longrightarrow>
   header (m\<lparr>m_type := of_nat (type_code t), m_buf_len := 0\<rparr>) = ack c t"
  by (simp add: ack_def header_eq)

lemma dispatch_request:
  "m_cmd m = of_nat (cmd_code CMD_SEND_FILEMSG_REQ) \<Longrightarrow> m_type m = of_nat (type_code REQ_NOR) \<Longrightarrow>
   dispatch (cmd_repose ossl sh) m s = cmd_reqsend_deel m s"
  by (simp add: cmd_repose_def)

lemma dispatch_block:
  "m_cmd m = of_nat (cmd_code CMD_SEND_FILE) \<Longrightarrow> m_type m = of_nat (type_code REQ_NORE) \<Longrightarrow>
   dispatch (cmd_repose ossl sh) m s = cmd_revfile m s"
  by (simp add: cmd_repose_def)

lemma dispatch_finish:
  "m_cmd m = of_nat (cmd_code CMD_SEND_FINISH) \<Longrightarrow> m_type m = of_nat (type_code REQ_NOR) \<Longrightarrow>
   dispatch (cmd_repose ossl sh) m s = cmd_revfilefinsh ossl sh m s"
  by (simp add: cmd_repose_def)

text \<open>The states of a transfer, for a server whose disk was d0 at the start.\<close>

definition name_of :: "FileBlock_t \<Rightarrow> bytes" where
  "name_of fb = cstr (file_name fb)"

definition nameable :: "FileBlock_t \<Rightarrow> bool" where
  "nameable fb \<longleftrightarrow> terminated (file_name fb) \<and> good_name (name_of fb) \<and> (\<forall>c \<in> set (name_of fb). safe_char c)"

definition srv_idle :: "fs \<Rightarrow> FileBlock_t \<Rightarrow> server \<times> nat \<Rightarrow> bool" where
  "srv_idle d0 fb = (\<lambda>(s, k). k = length (sent s) \<and> cleared s \<and> disk s = d0 \<and> nameable fb \<and>
     disk_ready (name_of fb) (unat (file_length fb)) d0)"

definition srv_taking :: "fs \<Rightarrow> FileBlock_t \<Rightarrow> bytes \<Rightarrow> server \<times> nat \<Rightarrow> bool" where
  "srv_taking d0 fb data = (\<lambda>(s, k). k = length (sent s) \<and> nameable fb \<and> wf_fs d0 \<and>
     receiving d0 (name_of fb) fb data s)"

definition srv_finished :: "fs \<Rightarrow> FileBlock_t \<Rightarrow> bytes \<Rightarrow> server \<times> nat \<Rightarrow> bool" where
  "srv_finished d0 fb data = (\<lambda>(s, k). k = length (sent s) \<and> stored d0 (name_of fb) fb data s)"

lemma request_datagram_padded:
  assumes "wf_fileblock fb"
  shows "length (request_datagram fb) = 168"
    "request_datagram fb @ bzero (MAXLINE - length (request_datagram fb)) = bytes_of_message (request_message fb)"
proof -
  have len: "length (bytes_of_message (request_message fb)) = 4104"
    using assms by (simp add: request_message_def sizeof_FileBlock_def)
  show l: "length (request_datagram fb) = 168"
    using len by (simp add: request_datagram_def sizeof_FileBlock_def)
  have "drop 168 (bytes_of_message (request_message fb)) = bzero 3936"
    using assms by (simp add: request_message_def bytes_of_message_def sizeof_FileBlock_def)
  then show "request_datagram fb @ bzero (MAXLINE - length (request_datagram fb)) = bytes_of_message (request_message fb)"
    using append_take_drop_id [of 168 "bytes_of_message (request_message fb)"] l
    by (simp add: request_datagram_def sizeof_FileBlock_def)
qed

lemma request_law:
  assumes "srv_idle d0 fb (s, k)" and wf: "wf_fileblock fb"
  shows "\<exists>s1 s2. srv_send ossl sh (request_datagram fb) (s, k) = Some s1 \<and>
    srv_recv s1 = (Some (ack CMD_SEND_FILEMSG_REQ ACK_OK), s2) \<and> srv_taking d0 fb [] s2"
proof -
  from assms(1) have i: "k = length (sent s)" "cleared s" "disk s = d0" "nameable fb"
    "disk_ready (name_of fb) (unat (file_length fb)) d0"
    by (simp_all add: srv_idle_def)
  define m where "m = request_message fb"
  have m: "m_cmd m = of_nat (cmd_code CMD_SEND_FILEMSG_REQ)" "m_type m = of_nat (type_code REQ_NOR)"
    "fileblock_of (m_buf m) = Some fb"
    by (simp_all add: m_def request_message_def fileblock_of_bytes [OF wf])
  have t: "terminated (file_name fb)" "good_name (name_of fb)" using i(4) by (simp_all add: nameable_def)
  have rd: "disk_ready (name_of fb) (unat (file_length fb)) (disk s)" using i(3,5) by simp
  from cmd_reqsend_deel_ok [OF i(2) t(2) rd m(3) t(1) name_of_def [symmetric]] obtain s' where
    s': "cmd_reqsend_deel m s = Some s'" "receiving d0 (name_of fb) fb [] s'"
    "sent s' = sent s @ [ack CMD_SEND_FILEMSG_REQ ACK_OK]"
    unfolding ack_header [OF m(1)] i(3) by blast
  note e = request_datagram_padded [OF wf, folded m_def]
  have "request_datagram fb \<noteq> []" using e(1) by force
  moreover have "length (request_datagram fb) \<le> MAXLINE" using e(1) by simp
  moreover have "dispatch (cmd_repose ossl sh) m s = Some s'"
    by (simp only: dispatch_request [OF m(1,2)] s'(1))
  ultimately have "srv_send ossl sh (request_datagram fb) (s, k) = Some (s', k)"
    using e(2) by (intro srv_send_message)
  moreover have "wf_fs d0" using i(5) by (simp add: disk_ready_def Let_def)
  ultimately show ?thesis
    using srv_recv_ack [OF i(1) s'(3)] s'(2) i(4)
    by (intro exI [of _ "(s', k)"] exI [of _ "(s', length (sent s'))"]) (simp add: srv_taking_def)
qed

lemma block_law:
  assumes "srv_taking d0 fb data (s, k)" and c: "c \<noteq> []" "length c \<le> BUF_MAX_LEN"
    and fits: "length data + length c \<le> unat (file_length fb)"
  shows "\<exists>s1 s2. srv_send ossl sh (block_datagram c) (s, k) = Some s1 \<and>
    srv_recv s1 = (Some (ack CMD_SEND_FILE ACK_OK), s2) \<and> srv_taking d0 fb (data @ c) s2"
proof -
  from assms(1) have i: "k = length (sent s)" "nameable fb" "wf_fs d0"
    "receiving d0 (name_of fb) fb data s"
    by (simp_all add: srv_taking_def)
  define m where "m = \<lparr>m_cmd = of_nat (cmd_code CMD_SEND_FILE), m_type = of_nat (type_code REQ_NORE),
      m_buf_len = of_nat (length c), m_buf = c @ bzero (BUF_MAX_LEN - length c)\<rparr>"
  have m: "m_cmd m = of_nat (cmd_code CMD_SEND_FILE)" "m_type m = of_nat (type_code REQ_NORE)"
    "unat (m_buf_len m) = length c" "length c \<le> length (m_buf m)" "take (length c) (m_buf m) = c"
    using c(2) by (simp_all add: m_def unat_of_nat)
  from cmd_revfile_ok [OF i(4), of m] fits obtain s' where
    s': "cmd_revfile m s = Some s'" "receiving d0 (name_of fb) fb (data @ c) s'"
    "sent s' = sent s @ [ack CMD_SEND_FILE ACK_OK]"
    unfolding ack_header [OF m(1)] m(3,5) using m(4) by auto
  have "block_datagram c @ bzero (MAXLINE - length (block_datagram c)) = bytes_of_message m"
    using c(2) by (simp add: m_def block_datagram_def bytes_of_message_def)
  moreover have "block_datagram c \<noteq> []" by (simp add: block_datagram_def bytes_of_message_def le16_def)
  moreover have "length (block_datagram c) \<le> MAXLINE" using c(2) by (simp add: block_datagram_def)
  moreover have "dispatch (cmd_repose ossl sh) m s = Some s'"
    by (simp only: dispatch_block [OF m(1,2)] s'(1))
  ultimately have "srv_send ossl sh (block_datagram c) (s, k) = Some (s', k)"
    by (intro srv_send_message)
  then show ?thesis
    using srv_recv_ack [OF i(1) s'(3)] s'(2) i(2,3)
    by (intro exI [of _ "(s', k)"] exI [of _ "(s', length (sent s'))"]) (simp add: srv_taking_def)
qed

locale udp_session = udp_environment ossl okctx repr digest limit sh
  for ossl :: "'c openssl" and okctx :: "'c \<Rightarrow> bool" and repr :: "'c \<Rightarrow> bytes \<Rightarrow> bool"
    and digest :: "bytes \<Rightarrow> bytes" and limit :: nat and sh :: shell +
  fixes d0 :: fs
begin

lemma finish_law:
  assumes "srv_taking d0 fb data (s, k)" and m5: "md5 fb = digest data"
  shows "\<exists>s1 s2. srv_send ossl sh finish_datagram (s, k) = Some s1 \<and>
    srv_recv s1 = (Some (ack CMD_SEND_FINISH ACK_OK), s2) \<and> srv_finished d0 fb data s2"
proof -
  from assms(1) have i: "k = length (sent s)" "nameable fb" "wf_fs d0"
    "receiving d0 (name_of fb) fb data s"
    by (simp_all add: srv_taking_def)
  define m where "m = \<lparr>m_cmd = of_nat (cmd_code CMD_SEND_FINISH), m_type = of_nat (type_code REQ_NOR),
      m_buf_len = 0, m_buf = bzero BUF_MAX_LEN\<rparr>"
  have m: "m_cmd m = of_nat (cmd_code CMD_SEND_FINISH)" "m_type m = of_nat (type_code REQ_NOR)"
    by (simp_all add: m_def)
  from cmd_revfilefinsh_ok [OF i(4,3) _ _ m5, of m] i(2) obtain s' where
    s': "cmd_revfilefinsh ossl sh m s = Some s'" "stored d0 (name_of fb) fb data s'"
    "sent s' = sent s @ [ack CMD_SEND_FINISH ACK_OK]"
    unfolding ack_header [OF m(1)] nameable_def by auto
  have "finish_datagram @ bzero (MAXLINE - length finish_datagram) = bytes_of_message m"
    by (simp add: m_def finish_datagram_def header_eq bytes_of_message_def)
  moreover have "finish_datagram \<noteq> []" "length finish_datagram \<le> MAXLINE"
    by (simp_all add: finish_datagram_def header_eq le16_def)
  moreover have "dispatch (cmd_repose ossl sh) m s = Some s'"
    by (simp only: dispatch_finish [OF m(1,2)] s'(1))
  ultimately have "srv_send ossl sh finish_datagram (s, k) = Some (s', k)"
    by (intro srv_send_message)
  then show ?thesis
    using srv_recv_ack [OF i(1) s'(3)] s'(2) i(2,3)
    by (intro exI [of _ "(s', k)"] exI [of _ "(s', length (sent s'))"]) (simp add: srv_finished_def)
qed

end

sublocale udp_session \<subseteq> rcv: file_receiver "srv_send ossl sh" srv_recv "srv_taking d0" "srv_idle d0"
    "srv_finished d0" digest
proof
  show "\<exists>s1 s2. srv_send ossl sh (request_datagram fb) s = Some s1 \<and>
      srv_recv s1 = (Some (ack CMD_SEND_FILEMSG_REQ ACK_OK), s2) \<and> srv_taking d0 fb [] s2"
    if "srv_idle d0 fb s" "wf_fileblock fb" for fb s
    by (rule request_law [of d0 fb "fst s" "snd s", unfolded prod.collapse, OF that])
  show "\<exists>s1 s2. srv_send ossl sh (block_datagram c) s = Some s1 \<and>
      srv_recv s1 = (Some (ack CMD_SEND_FILE ACK_OK), s2) \<and> srv_taking d0 fb (data @ c) s2"
    if "srv_taking d0 fb data s" "c \<noteq> []" "length c \<le> BUF_MAX_LEN"
      "length data + length c \<le> unat (file_length fb)" for fb data s c
    by (rule block_law [of d0 fb data "fst s" "snd s", unfolded prod.collapse, OF that])
  show "\<exists>s1 s2. srv_send ossl sh finish_datagram s = Some s1 \<and>
      srv_recv s1 = (Some (ack CMD_SEND_FINISH ACK_OK), s2) \<and> srv_finished d0 fb data s2"
    if "srv_taking d0 fb data s" "md5 fb = digest data" for fb data s
    by (rule finish_law [of fb data "fst s" "snd s", unfolded prod.collapse, OF that])
qed

context udp_session
begin

lemmas udp_sendfile = rcv.sendfile_ok

end

definition empty_disk :: fs where
  "empty_disk = \<lparr>names = (\<lambda>p. None), dirs = (\<lambda>p. p = [] \<or> p = [cs ''mnt'']), inode = (\<lambda>i. []),
     mtime = (\<lambda>i. 0), fresh = 0, room = 1000, fds = replicate 8 Free\<rparr>"

interpretation empty_session: udp_session md5c_openssl "\<lambda>c. length (buffer c) = 64" md5_repr md5_digest
    "2 ^ 32 - 64" mv_shell empty_disk ..

section \<open>The whole transfer\<close>

lemma ucast_of_nat_32: "ucast (of_nat n :: u64) = (of_nat n :: u32)"
  by (rule bit_word_eqI) (auto simp: bit_simps)

text \<open>What the client announces for a file it can read.\<close>

lemma fill_fileblock_ok:
  assumes o: "openssl_md5 ossl okctx repr digest limit"
    and name: "good_name n" "\<forall>c \<in> set n. safe_char c"
    and src: "names c (resolve n) = Some i" "\<not> dirs c (resolve n)" "1 \<le> free_fds c" "length (inode c i) < 2 ^ 32"
  obtains fb where "fill_fileblock ossl n c = Some (fb, c)" "wf_fileblock fb" "nameable fb" "name_of fb = n"
    "md5 fb = digest (inode c i)" "unat (file_length fb) = length (inode c i)" "timestamp fb = mtime c i"
proof -
  let ?data = "inode c i"
  from name(1) have nn: "0 \<notin> set n" "length n \<le> 70" "n \<noteq> []" by (simp_all add: good_name_def)
  let ?name = "n @ 0 # drop (Suc (length n)) (bzero 128)"
  let ?fb = "\<lparr>file_name = ?name, md5 = digest ?data, file_length = of_nat (length ?data), timestamp = mtime c i\<rparr>"
  have nm: "name_of ?fb = n" using nn(1) by (simp add: name_of_def cstr_append_zero)
  show thesis
  proof
    show "fill_fileblock ossl n c = Some (?fb, c)"
      using openssl_md5.MD5_file_ossl_ok [OF o nn(3) src(1-3), of "bzero 16"] nn(2) src(1)
      by (simp add: fill_fileblock_def strcpy_eq get_file_size_def get_file_mtime_def ucast_of_nat_32)
    show "wf_fileblock ?fb"
      using nn(2) openssl_md5.digest_length [OF o] by (simp add: wf_fileblock_def)
    show "nameable ?fb" unfolding nameable_def nm using name by (simp add: terminated_def)
  qed (use nm src(4) in \<open>simp_all add: unat_of_nat\<close>)
qed

text \<open>It can be opened.\<close>

lemma open_rdonly_ok:
  assumes "n \<noteq> []" "names c (resolve n) = Some i" "\<not> dirs c (resolve n)" "1 \<le> free_fds c"
  obtains k c' where "open_rdonly n c = (int k, c')" "fd_of c' (int k) = File i 0" "inode c' = inode c"
proof -
  have "0 < free_fds c" using assms(4) by simp
  then obtain k where k: "new_fd (File i 0) c = (int k, c\<lparr>fds := (fds c)[k := File i 0]\<rparr>)" "k < length (fds c)"
    by (rule new_fd_ok [where e = "File i 0"]) auto
  show thesis
    by (rule that [of k "c\<lparr>fds := (fds c)[k := File i 0]\<rparr>"])
      (use assms k in \<open>simp_all add: open_rdonly_def fd_of_def\<close>)
qed

text \<open>One run of the client against a server that is not in the middle of a transfer.\<close>

lemma transfer_once:
  assumes env: "udp_environment ossl okctx repr digest limit sh"
    and name: "good_name n" "\<forall>c \<in> set n. safe_char c"
    and src: "names c (resolve n) = Some i" "\<not> dirs c (resolve n)" "1 \<le> free_fds c"
      "inode c i \<noteq> []" "length (inode c i) < 2 ^ 32"
    and server: "cleared s0" "disk_ready n (length (inode c i)) (disk s0)"
  shows "\<exists>s fb. sendfile ossl (srv_send ossl sh) srv_recv n c (s0, length (sent s0)) =
      Some (0, Some Send_ok, s, length (sent s)) \<and> stored (disk s0) n fb (inode c i) s \<and> timestamp fb = mtime c i"
proof -
  have o: "openssl_md5 ossl okctx repr digest limit" using env by (rule udp_environment.axioms)
  have sess: "udp_session ossl okctx repr digest limit sh" using env by (rule udp_session.intro)
  obtain fb where fb: "fill_fileblock ossl n c = Some (fb, c)" "wf_fileblock fb" "nameable fb" "name_of fb = n"
    "md5 fb = digest (inode c i)" "unat (file_length fb) = length (inode c i)" "timestamp fb = mtime c i"
    by (rule fill_fileblock_ok [OF o name src(1-3,5)])
  have "n \<noteq> []" using name(1) by (simp add: good_name_def)
  then obtain k c' where k: "open_rdonly n c = (int k, c')" "fd_of c' (int k) = File i 0" "inode c' = inode c"
    using src(1-3) by (rule open_rdonly_ok)
  have idle: "srv_idle (disk s0) fb (s0, length (sent s0))" using server fb by (simp add: srv_idle_def)
  have "\<exists>s'. sendfile ossl (srv_send ossl sh) srv_recv n c (s0, length (sent s0)) = Some (0, Some Send_ok, s') \<and>
      srv_finished (disk s0) fb (inode c i) s'"
    by (rule udp_session.udp_sendfile [OF sess fb(1,2,5,6) src(4) k(1,2) _ idle]) (simp add: k(3))
  then show ?thesis by (auto simp: srv_finished_def fb(4,7) intro!: exI [of _ fb])
qed

text \<open>C2. End to end: over a network that loses nothing, sendfile on the client ends with success and
  leaves the bytes of the file under /mnt on the server, with the time of the original, no
  temporary file, and every other file of the server unchanged. It needs: OpenSSL computes a
  digest and the shell's mv renames; the name is relative to plain directories and short enough;
  the file is not empty; the server's disk has no older part file and enough room.\<close>

theorem udp_transfer:
  assumes env: "udp_environment ossl okctx repr digest limit sh"
    and name: "good_name n" "\<forall>c \<in> set n. safe_char c"
    and src: "names c (resolve n) = Some i" "\<not> dirs c (resolve n)" "1 \<le> free_fds c"
      "inode c i \<noteq> []" "length (inode c i) < 2 ^ 32"
    and disk: "disk_ready n (length (inode c i)) d0"
  shows "\<exists>s k. sendfile ossl (srv_send ossl sh) srv_recv n c (init_server d0, 0) = Some (0, Some Send_ok, s, k) \<and>
    file_at (disk s) (resolve (final_path n)) = Some (inode c i) \<and>
    (\<exists>j. names (disk s) (resolve (final_path n)) = Some j \<and> mtime (disk s) j = mtime c i) \<and>
    names (disk s) (resolve (part_path n)) = None \<and>
    (\<forall>p. p \<noteq> resolve (final_path n) \<longrightarrow> p \<noteq> resolve (part_path n) \<longrightarrow>
       file_at (disk s) p = file_at d0 p)"
proof -
  have s0: "cleared (init_server d0)" "disk_ready n (length (inode c i)) (disk (init_server d0))"
    "length (sent (init_server d0)) = 0" "disk (init_server d0) = d0"
    using disk by (simp_all add: init_server_def cleared_def)
  from transfer_once [OF env name src s0(1,2)] show ?thesis
    by (auto simp: s0(3,4) stored_def)
qed

definition client_disk :: fs where
  "client_disk = empty_disk\<lparr>names := (\<lambda>p. if p = [cs ''p'', cs ''a''] then Some 0 else None),
     inode := (\<lambda>i. [1, 2, 3]), mtime := (\<lambda>i. 7), fresh := 1\<rparr>"

lemma small_name:
  "tokens [slash] (cs ''p/a'') = [cs ''p'', cs ''a'']" "good_name (cs ''p/a'')"
  "resolve (cs ''p/a'') = [cs ''p'', cs ''a'']"
proof -
  show t: "tokens [slash] (cs ''p/a'') = [cs ''p'', cs ''a'']"
    by (simp add: tokens.simps cs_def of_char_def)
  have p: "plain (cs ''p'')" "plain (cs ''a'')" by (simp_all add: plain_def cs_def of_char_def)
  then show "good_name (cs ''p/a'')"
    by (simp add: good_name_def t) (simp add: cs_def of_char_def)
  show "resolve (cs ''p/a'') = [cs ''p'', cs ''a'']"
    using p by (simp add: resolve_def t resolve_step_plain)
qed

theorem udp_transfer_witness:
  "\<exists>s k. sendfile md5c_openssl (srv_send md5c_openssl mv_shell) srv_recv (cs ''p/a'') client_disk
       (init_server empty_disk, 0) = Some (0, Some Send_ok, s, k) \<and>
     file_at (disk s) [cs ''mnt'', cs ''p'', cs ''a''] = Some [1, 2, 3]"
proof -
  have e: "udp_environment md5c_openssl (\<lambda>c. length (buffer c) = 64) md5_repr md5_digest (2 ^ 32 - 64) mv_shell"
    by (rule md5_udp.udp_environment_axioms)
  have safe: "\<forall>c \<in> set (cs ''p/a''). safe_char c"
    by (simp add: cs_def of_char_def safe_char_def)
  note r = resolve_good [OF small_name(2), folded final_path_def part_path_def]
  have ready: "disk_ready (cs ''p/a'') (length (inode client_disk 0)) empty_disk"
    by (simp add: client_disk_def disk_ready_def small_name r empty_disk_def wf_fs_def free_fds_def Let_def)
  have f: "names client_disk (resolve (cs ''p/a'')) = Some 0" "\<not> dirs client_disk (resolve (cs ''p/a''))"
    "1 \<le> free_fds client_disk" "inode client_disk 0 = [1, 2, 3]"
    by (simp_all add: client_disk_def empty_disk_def small_name free_fds_def)
  have "\<exists>s k. sendfile md5c_openssl (srv_send md5c_openssl mv_shell) srv_recv (cs ''p/a'') client_disk
       (init_server empty_disk, 0) = Some (0, Some Send_ok, s, k) \<and>
     file_at (disk s) (resolve (final_path (cs ''p/a''))) = Some (inode client_disk 0)"
    using udp_transfer [OF e small_name(2) safe f(1-3) _ _ ready] by (auto simp: f(4))
  then show ?thesis by (simp add: f(4) r small_name)
qed

end
