(* ===== verification/UdpProps.thy ===== *)
theory UdpProps
  imports UdpTransfer
begin

text \<open>
  Properties of single handlers of the udp server: what they do to the path buffers, and the cases in
  which the server goes wrong.
\<close>

section \<open>The path buffers\<close>

definition path_buffers_ok :: "server \<Rightarrow> bool" where
  "path_buffers_ok s \<longleftrightarrow>
     length (file_path s) = FILE_NAME_MAX_LEN \<and> terminated (file_path s) \<and>
     length (file_path_back s) = FILE_NAME_MAX_LEN \<and> terminated (file_path_back s)"

lemma path_buffers_ok_simps [simp]:
  "path_buffers_ok (reply m t s) = path_buffers_ok s"
  "path_buffers_ok (s\<lparr>disk := d\<rparr>) = path_buffers_ok s"
  "path_buffers_ok (s\<lparr>file_path_back := bzero 128, file_path := bzero 128\<rparr>)"
  "path_buffers_ok (s\<lparr>file_path_back := bzero 128, file_path := bzero 128, disk := d\<rparr>)"
  by (simp_all add: path_buffers_ok_def)

lemma cmd_reqsend_deel_cases:
  assumes "cmd_reqsend_deel m s = Some s'"
  obtains fb p1 p2 b1 b2 b3 r nm d f d' where
    "fileblock_of (m_buf m) = Some fb" "terminated (file_name fb)"
    "strcat (file_path s) PICTUREPATH = Some p1" "strcat p1 (cstr (file_name fb)) = Some p2"
    "strcat (file_path_back s) PICTUREPATH = Some b1" "strcat b1 (cstr (file_name fb)) = Some b2"
    "strcat b2 (cs ''.filepart'') = Some b3" "access_dir (file_name fb) (disk s) = Some (r, nm, d)"
    "open_wronly_creat (cstr b3) d = (f, d')"
    "s' = reply m (if f < 0 then ACK_FAIL else ACK_OK)
       (s\<lparr>Filemsg := fb, file_creattime := timestamp fb, file_path := p2,
          file_path_back := b3, fd := f, disk := d'\<rparr>)"
  using assms unfolding cmd_reqsend_deel_def
  by (auto simp: Let_def elim!: bind_SomeE split: if_splits prod.splits)

lemma request_paths:
  assumes "cmd_reqsend_deel m s = Some s'" "fileblock_of (m_buf m) = Some fb"
  shows "cstr (file_path s') = cstr (file_path s) @ PICTUREPATH @ cstr (file_name fb) \<and>
    cstr (file_path_back s') = cstr (file_path_back s) @ PICTUREPATH @ cstr (file_name fb) @ cs ''.filepart'' \<and>
    terminated (file_path s') \<and> terminated (file_path_back s') \<and>
    length (file_path s') = length (file_path s) \<and> length (file_path_back s') = length (file_path_back s)"
  using assms filepart_facts(1,4)
  by (elim cmd_reqsend_deel_cases) (auto dest!: strcat_SomeD)

section \<open>Where the server goes wrong\<close>

text \<open>The length field of a block is trusted: a block that claims more bytes than the buffer of a
  message has makes the server read behind its receive buffer, and this is the only way in which
  the handler leaves its objects.\<close>

theorem cmd_revfile_overread_iff:
  "cmd_revfile m s = None \<longleftrightarrow> length (m_buf m) < unat (m_buf_len m)"
  by (auto simp: cmd_revfile_def mem_get_def Let_def split: prod.splits)

text \<open>An announcement is appended to the paths of the previous one: only the end of a transfer or a
  failed write clears them, so that a transfer that was given up spoils the next one.\<close>

theorem cmd_reqsend_deel_appends_paths:
  assumes "cmd_reqsend_deel m s = Some s1" "fileblock_of (m_buf m) = Some fb"
    and "cmd_reqsend_deel m' s1 = Some s2" "fileblock_of (m_buf m') = Some fb'" "cleared s"
  shows "cstr (file_path s2) =
      PICTUREPATH @ cstr (file_name fb) @ PICTUREPATH @ cstr (file_name fb')"
  using request_paths [OF assms(1,2)] request_paths [OF assms(3,4)] assms(5)
  by (simp add: cleared_def)

lemma access_dir_no_dir:
  assumes "terminated nm" "length (tokens [slash] (cstr nm)) = 1"
  shows "\<exists>nm'. access_dir nm d = Some (2, nm', d)"
proof -
  have "length (tokens [slash] (cstr nm)) \<le> length (replicate 64 (0 :: nat))" using assms(2) by simp
  from stringtoarray_udp_spec [OF assms(1) this] obtain str' out' where
    "stringtoarray_udp nm [slash] (replicate 64 0) = Some (1, str', out')"
    unfolding assms(2) by blast
  then show ?thesis by (simp add: access_dir_def)
qed

text \<open>The announcement of a file without a directory, on a server that holds paths p and b.\<close>

lemma request_single:
  assumes fb: "fileblock_of (m_buf m) = Some fb" "terminated (file_name fb)"
    and n: "length (tokens [slash] (cstr (file_name fb))) = 1"
    and ok: "path_buffers_ok s"
    and room: "length (cstr (file_path_back s)) + length (cstr (file_name fb)) + 14 < 128"
      "length (cstr (file_path s)) + length (cstr (file_name fb)) + 5 < 128"
  shows "\<exists>s'. cmd_reqsend_deel m s = Some s' \<and> path_buffers_ok s' \<and>
    (let (f, d) = open_wronly_creat (cstr (file_path_back s')) (disk s) in fd s' = f \<and> disk s' = d)"
proof -
  from ok have b: "terminated (file_path s)" "length (file_path s) = 128"
    "terminated (file_path_back s)" "length (file_path_back s) = 128"
    by (simp_all add: path_buffers_ok_def)
  obtain nm' where ad: "access_dir (file_name fb) (disk s) = Some (2, nm', disk s)"
    using access_dir_no_dir [OF fb(2) n] by blast
  obtain p1 where p1: "strcat (file_path s) PICTUREPATH = Some p1"
    "cstr p1 = cstr (file_path s) @ PICTUREPATH" "terminated p1" "length p1 = 128"
    by (rule strcat_Some [of "file_path s" PICTUREPATH]) (use b room filepart_facts in simp_all)
  obtain p2 where p2: "strcat p1 (cstr (file_name fb)) = Some p2" "terminated p2" "length p2 = 128"
    by (rule strcat_Some [of p1 "cstr (file_name fb)"]) (use p1 room filepart_facts in simp_all)
  obtain q1 where q1: "strcat (file_path_back s) PICTUREPATH = Some q1"
    "cstr q1 = cstr (file_path_back s) @ PICTUREPATH" "terminated q1" "length q1 = 128"
    by (rule strcat_Some [of "file_path_back s" PICTUREPATH]) (use b room filepart_facts in simp_all)
  obtain q2 where q2: "strcat q1 (cstr (file_name fb)) = Some q2"
    "cstr q2 = (cstr (file_path_back s) @ PICTUREPATH) @ cstr (file_name fb)" "terminated q2" "length q2 = 128"
    by (rule strcat_Some [of q1 "cstr (file_name fb)"]) (use q1 room filepart_facts in simp_all)
  obtain q3 where q3: "strcat q2 (cs ''.filepart'') = Some q3" "terminated q3" "length q3 = 128"
    by (rule strcat_Some [of q2 "cs ''.filepart''"]) (use q2 room filepart_facts in simp_all)
  obtain f d where o: "open_wronly_creat (cstr q3) (disk s) = (f, d)" by force
  have "cmd_reqsend_deel m s = Some (reply m (if f < 0 then ACK_FAIL else ACK_OK)
      (s\<lparr>Filemsg := fb, file_creattime := timestamp fb, file_path := p2, file_path_back := q3,
         fd := f, disk := d\<rparr>))"
    using fb p1(1) p2(1) q1(1) q2(1) q3(1) ad o by (simp add: cmd_reqsend_deel_def Let_def)
  then show ?thesis using p2 q3 o by (simp add: path_buffers_ok_def)
qed

definition request_for :: "bytes \<Rightarrow> Message_t" where
  "request_for n = request_message \<lparr>file_name = n @ bzero (128 - length n), md5 = bzero 16,
     file_length = 3, timestamp = 0\<rparr>"

lemma request_for_fileblock:
  assumes "length n < 128" "0 \<notin> set n"
  shows "fileblock_of (m_buf (request_for n)) = Some \<lparr>file_name = n @ bzero (128 - length n),
     md5 = bzero 16, file_length = 3, timestamp = 0\<rparr>"
    "terminated (n @ bzero (128 - length n))" "cstr (n @ bzero (128 - length n)) = n"
proof -
  show "fileblock_of (m_buf (request_for n)) = Some \<lparr>file_name = n @ bzero (128 - length n),
     md5 = bzero 16, file_length = 3, timestamp = 0\<rparr>"
    using assms by (simp add: request_for_def request_message_def fileblock_of_bytes wf_fileblock_def)
  have "bzero (128 - length n) = 0 # bzero (127 - length n)"
    using assms(1) by (simp add: bzero_def flip: replicate_Suc)
  then show "terminated (n @ bzero (128 - length n))" "cstr (n @ bzero (128 - length n)) = n"
    using assms(2) by (simp_all add: terminated_def cstr_append_zero)
qed

lemma init_server_ok: "path_buffers_ok (init_server d)" "cleared (init_server d)"
  by (simp_all add: path_buffers_ok_def init_server_def cleared_def)

lemma name_a:
  "tokens [slash] (cs ''a'') = [cs ''a'']" "length (cs ''a'') = 1" "0 \<notin> set (cs ''a'')"
  by (simp_all add: tokens.simps cs_def of_char_def)

lemma request_a:
  assumes "path_buffers_ok s" "length (cstr (file_path_back s)) < 100" "length (cstr (file_path s)) < 100"
  shows "\<exists>s'. cmd_reqsend_deel (request_for (cs ''a'')) s = Some s' \<and> path_buffers_ok s' \<and>
    (let (f, d) = open_wronly_creat (cstr (file_path_back s')) (disk s) in fd s' = f \<and> disk s' = d)"
proof (rule request_single)
  show "fileblock_of (m_buf (request_for (cs ''a''))) = Some \<lparr>file_name = cs ''a'' @ bzero (128 - length (cs ''a'')),
     md5 = bzero 16, file_length = 3, timestamp = 0\<rparr>"
    by (rule request_for_fileblock) (simp_all add: name_a)
qed (use assms request_for_fileblock(2,3) [of "cs ''a''"] name_a in simp_all)

theorem cmd_reqsend_deel_appends_paths_witness:
  "\<exists>s1 s2. cmd_reqsend_deel (request_for (cs ''a'')) (init_server empty_disk) = Some s1 \<and>
     cmd_reqsend_deel (request_for (cs ''a'')) s1 = Some s2 \<and>
     cstr (file_path s2) = cs ''/mnt/a/mnt/a''"
proof -
  have f: "fileblock_of (m_buf (request_for (cs ''a''))) = Some \<lparr>file_name = cs ''a'' @ bzero (128 - length (cs ''a'')),
     md5 = bzero 16, file_length = 3, timestamp = 0\<rparr>"
    by (rule request_for_fileblock) (simp_all add: name_a)
  have z: "cstr (cs ''a'' @ bzero (128 - length (cs ''a''))) = cs ''a''"
    by (rule request_for_fileblock) (simp_all add: name_a)
  obtain s1 where s1: "cmd_reqsend_deel (request_for (cs ''a'')) (init_server empty_disk) = Some s1"
    "path_buffers_ok s1"
    using request_a [of "init_server empty_disk"] init_server_ok by (auto simp: init_server_def)
  have "cstr (file_path s1) = PICTUREPATH @ cs ''a''"
    "cstr (file_path_back s1) = PICTUREPATH @ cs ''a'' @ cs ''.filepart''"
    using request_paths [OF s1(1) f] z by (simp_all add: init_server_def)
  then obtain s2 where s2: "cmd_reqsend_deel (request_for (cs ''a'')) s1 = Some s2"
    using request_a [OF s1(2)] name_a(2) filepart_facts by auto
  have "cstr (file_path s2) = PICTUREPATH @ cs ''a'' @ PICTUREPATH @ cs ''a''"
    using cmd_reqsend_deel_appends_paths [OF s1(1) f s2 f init_server_ok(2)] z by simp
  also have "\<dots> = cs ''/mnt/a/mnt/a''" by (simp add: PICTUREPATH_def cs_def)
  finally show ?thesis using s1 s2 by blast
qed

text \<open>A server that has received nothing at all answers an end-of-transfer datagram with success:
  MD5_file cannot open the empty path, its digest stays zero, and zero is the digest in Filemsg.
  It then runs mv without arguments.\<close>

theorem finish_without_request:
  "cmd_revfilefinsh ossl sh m (init_server d) = Some s \<longleftrightarrow>
   s = (reply m ACK_OK (init_server d))\<lparr>disk := utime [] 0 (sh (cs ''mv  '') d)\<rparr>"
proof -
  have z: "0 \<notin> set (cs ''mv '')" "0 \<notin> set (cs '' '')" "length (cs ''mv '') = 3" "length (cs '' '') = 1"
    by (simp_all add: cs_def of_char_def)
  obtain c1 where c1: "strcat (bzero 256) (cs ''mv '') = Some c1" "cstr c1 = cs ''mv ''"
    "terminated c1" "length c1 = 256"
    by (rule strcat_Some [of "bzero 256" "cs ''mv ''"]) (simp_all add: z)
  obtain c2 where c2: "strcat c1 [] = Some c2" "cstr c2 = cs ''mv ''" "terminated c2" "length c2 = 256"
    by (rule strcat_Some [of c1 "[]"]) (use c1 z in simp_all)
  obtain c3 where c3: "strcat c2 (cs '' '') = Some c3" "cstr c3 = cs ''mv '' @ cs '' ''"
    "terminated c3" "length c3 = 256"
    by (rule strcat_Some [of c2 "cs '' ''"]) (use c2 z in simp_all)
  obtain c4 where c4: "strcat c3 [] = Some c4" "cstr c4 = cs ''mv '' @ cs '' ''"
    by (rule strcat_Some [of c3 "[]"]) (use c3 z in simp_all)
  have mv: "cs ''mv '' @ cs '' '' = cs ''mv  ''" by (simp add: cs_def)
  have "MD5_file_ossl ossl [] (bzero 16) d = Some (- 1, bzero 16, d)"
    by (simp add: MD5_file_ossl_def open_rdonly_def)
  then have "cmd_revfilefinsh ossl sh m (init_server d) =
      Some ((reply m ACK_OK (init_server d))\<lparr>disk := utime [] 0 (sh (cs ''mv  '') d)\<rparr>)"
    using c1(1) c2(1) c3(1) c4 mv
    by (simp add: cmd_revfilefinsh_def init_server_def reply_def udpsend_def Let_def)
  then show ?thesis by auto
qed

text \<open>The effect of the operations on the number of free descriptors.\<close>

lemma MD5_file_ossl_free_fds:
  assumes "MD5_file_ossl ossl p out d = Some (r, out', d')"
  shows "free_fds d' = free_fds d"
proof (cases "open_rdonly p d")
  case (Pair f d1)
  show ?thesis
  proof (cases "f < 0")
    case True
    then have "d1 = d"
      using Pair by (auto simp: open_rdonly_def new_fd_def split: if_splits option.splits)
    then show ?thesis using assms True Pair by (simp add: MD5_file_ossl_def)
  next
    case False
    then obtain e k where k: "f = int k" "d1 = d\<lparr>fds := (fds d)[k := e]\<rparr>" "first_free (fds d) = Some k"
      using Pair by (auto simp: open_rdonly_def new_fd_def split: if_splits option.splits)
    have "fds d ! k = Free" using first_free_SomeD [OF k(3), of Free] by simp
    then have "close_fd f d1 = d"
      using k by (simp add: close_fd_def list_update_id flip: \<open>fds d ! k = Free\<close>)
    then show ?thesis using assms False Pair
      by (auto simp: MD5_file_ossl_def Let_def elim!: bind_SomeE)
  qed
qed

lemma open_wronly_creat_free_fds:
  assumes "open_wronly_creat p d = (f, d')" "0 \<le> f"
  shows "Suc (free_fds d') = free_fds d"
  using assms first_free_SomeD [of "fds d"]
  by (fastforce simp: open_wronly_creat_def new_fd_def free_fds_def Let_def split: if_splits option.splits)

lemma access_dir_free_fds:
  assumes "access_dir nm d = Some (r, nm', d')"
  shows "free_fds d' \<le> free_fds d"
proof -
  have new: "free_fds d2 \<le> free_fds d1" if "new_fd Dir d1 = (g, d2)" for g d1 d2
    using that first_free_SomeD [of "fds d1" _ Dir]
    by (fastforce simp: new_fd_def free_fds_def split: option.splits)
  have step: "free_fds (ensure_dir p d1) \<le> free_fds d1" for p d1
  proof -
    obtain g d2 where g: "opendir p d1 = (g, d2)" by force
    then have "free_fds d2 \<le> free_fds d1" using new by (auto simp: opendir_def split: if_splits)
    moreover have "free_fds (snd (mkdir p d2)) = free_fds d2"
      by (simp add: mkdir_def Let_def free_fds_def)
    ultimately show ?thesis using g by (simp add: ensure_dir_def)
  qed
  have "access_dir_loop ts dp d1 = Some (dp', d2) \<Longrightarrow> free_fds d2 \<le> free_fds d1" for ts dp d1 dp' d2
  proof (induction ts arbitrary: dp d1)
    case (Cons t ts)
    then show ?case using step order_trans by (fastforce elim!: bind_SomeE)
  qed simp
  then show ?thesis using assms
    by (fastforce simp: access_dir_def elim!: bind_SomeE split: if_splits)
qed

text \<open>The descriptor of the received file is never closed: after an accepted announcement and the
  end of the transfer the server has fewer free descriptors than before (the shell is a process
  of its own and leaves them alone).\<close>

theorem transfer_leaks_descriptor:
  assumes "cmd_reqsend_deel m s = Some s1" "0 \<le> fd s1"
    and "cmd_revfilefinsh ossl sh m' s1 = Some s2" "\<And>c d. free_fds (sh c d) = free_fds d"
  shows "free_fds (disk s2) < free_fds (disk s)"
proof -
  have "Suc (free_fds (disk s1)) \<le> free_fds (disk s)"
    using assms(1)
  proof (rule cmd_reqsend_deel_cases)
    fix fb p2 b3 r nm d f d'
    assume ad: "access_dir (file_name fb) (disk s) = Some (r, nm, d)"
      and op: "open_wronly_creat (cstr b3) d = (f, d')"
      and s1: "s1 = reply m (if f < 0 then ACK_FAIL else ACK_OK)
       (s\<lparr>Filemsg := fb, file_creattime := timestamp fb, file_path := p2,
          file_path_back := b3, fd := f, disk := d'\<rparr>)"
    from s1 assms(2) have "0 \<le> f" by simp
    from open_wronly_creat_free_fds [OF op this] access_dir_free_fds [OF ad] s1
    show ?thesis by simp
  qed
  moreover have "free_fds (utime p t d) = free_fds d" for p t d
    by (simp add: utime_def free_fds_def split: option.splits)
  then have "free_fds (disk s2) = free_fds (disk s1)"
    using assms(3,4) MD5_file_ossl_free_fds
    by (fastforce simp: cmd_revfilefinsh_def Let_def elim!: bind_SomeE split: if_splits)
  ultimately show ?thesis by simp
qed

lemma mv_shell_free_fds: "free_fds (mv_shell c d) = free_fds d"
  by (auto simp: mv_shell_def rename_def free_fds_def split: list.splits option.splits)

theorem transfer_leaks_descriptor_witness:
  "\<exists>s1 s2. cmd_reqsend_deel (request_for (cs ''a'')) (init_server empty_disk) = Some s1 \<and>
     cmd_revfilefinsh \<lparr>ctx0 = (), MD5_Init = id, MD5_Update = (\<lambda>c b n. Some c),
         MD5_Final = (\<lambda>c. Some (c, replicate 16 1))\<rparr> mv_shell (request_for (cs ''a'')) s1 = Some s2 \<and>
     free_fds (disk s2) < free_fds empty_disk"
proof -
  let ?ossl = "\<lparr>ctx0 = (), MD5_Init = id, MD5_Update = (\<lambda>c b n. Some c),
         MD5_Final = (\<lambda>c. Some (c, replicate 16 1))\<rparr>"
  let ?fb = "\<lparr>file_name = cs ''a'' @ bzero (128 - length (cs ''a'')), md5 = bzero 16,
       file_length = 3, timestamp = 0\<rparr>"
  have f: "fileblock_of (m_buf (request_for (cs ''a''))) = Some ?fb"
    "cstr (cs ''a'' @ bzero (128 - length (cs ''a''))) = cs ''a''"
    by (rule request_for_fileblock; simp add: name_a)+
  obtain s1 where s1: "cmd_reqsend_deel (request_for (cs ''a'')) (init_server empty_disk) = Some s1"
    "path_buffers_ok s1" "(let (f, d) = open_wronly_creat (cstr (file_path_back s1)) empty_disk
      in fd s1 = f \<and> disk s1 = d)"
    using request_a [of "init_server empty_disk"] init_server_ok by (auto simp: init_server_def)
  have good: "good_name (cs ''a'')"
    by (simp add: good_name_def name_a plain_def) (simp add: cs_def of_char_def)
  have p: "cstr (file_path_back s1) = part_path (cs ''a'')"
    using request_paths [OF s1(1) f(1)] f(2) by (simp add: init_server_def part_path_def)
  have r: "resolve (part_path (cs ''a'')) = [cs ''mnt'', cs ''a'' @ cs ''.filepart'']"
    using resolve_good(2) [OF good] by (simp add: part_path_def name_a)
  have fd1: "fd s1 = 0" "names (disk s1) (resolve (part_path (cs ''a''))) = Some 0"
    "\<not> dirs (disk s1) (resolve (part_path (cs ''a'')))" "fds (disk s1) = File 0 0 # replicate 7 Free"
    "inode (disk s1) 0 = []"
    using s1(3) paths_of_good_name(6,7) [OF good]
    by (simp_all add: p open_wronly_creat_def r empty_disk_def new_fd_def numeral_eq_Suc)
  have ff: "first_free (fds (disk s1)) = Some 1" by (simp add: fd1(4) numeral_eq_Suc)
  have fds_id: "(disk s1)\<lparr>fds := [File 0 0, Free, Free, Free, Free, Free, Free, Free]\<rparr> = disk s1"
    using fd1(4) by (cases "disk s1") (simp add: numeral_eq_Suc)
  have m5: "Filemsg s1 = ?fb"
    using s1(1) f(1) by (elim cmd_reqsend_deel_cases) simp
  have "MD5_file_ossl ?ossl (part_path (cs ''a'')) (bzero 16) (disk s1) =
      Some (0, replicate 16 1, disk s1)"
    using paths_of_good_name(6) [OF good] ff
    by (simp add: MD5_file_ossl_def open_rdonly_def fd1(2,3,5) new_fd_def fd_of_def fd1(4)
        file_reads.simps mem_put_def close_fd_def)
      (simp add: numeral_eq_Suc fds_id)
  moreover have "replicate 16 1 \<noteq> bzero 16" by (simp add: bzero_def numeral_eq_Suc)
  ultimately have "\<exists>s2. cmd_revfilefinsh ?ossl mv_shell (request_for (cs ''a'')) s1 = Some s2"
    using s1(2) by (simp add: cmd_revfilefinsh_def p m5 path_buffers_ok_def)
  then obtain s2 where s2: "cmd_revfilefinsh ?ossl mv_shell (request_for (cs ''a'')) s1 = Some s2" by blast
  have "0 \<le> fd s1" by (simp add: fd1(1))
  from transfer_leaks_descriptor [OF s1(1) this s2 mv_shell_free_fds] s1(1) s2
  show ?thesis by (auto simp: init_server_def)
qed

end
