(* ===== verification/UdpClientProps.thy ===== *)
theory UdpClientProps
  imports UdpTransfer
begin

text \<open>
  Properties of the udp client with peers that do not answer as the server does: a network that
  records what is sent and answers from a script.
\<close>

type_synonym script = "bytes list \<times> bytes option list"

definition log_send :: "bytes \<Rightarrow> script \<Rightarrow> script option" where
  "log_send d = (\<lambda>(log, answers). Some (log @ [d], answers))"

definition script_recv :: "script \<Rightarrow> bytes option \<times> script" where
  "script_recv = (\<lambda>(log, answers).
     case answers of [] \<Rightarrow> (None, log, []) | a # as \<Rightarrow> (a, log, as))"

lemma script_simps [simp]:
  "log_send d (xs, as) = Some (xs @ [d], as)"
  "script_recv (xs, []) = (None, xs, [])"
  "script_recv (xs, a # as) = (a, xs, as)"
  by (simp_all add: log_send_def script_recv_def)

lemma udprev_script:
  "udprev script_recv buf (xs, []) = (- 1, buf, xs, [])"
  "udprev script_recv buf (xs, None # as) = (- 1, buf, xs, as)"
  "udprev script_recv buf (xs, Some (ack c t) # as) = (8, ack c t @ drop 8 buf, xs, as)"
  by (simp_all add: udprev_def Let_def length_ack)

lemma send_loop_datagram:
  assumes "length bs \<le> BUF_MAX_LEN" "length mbuf = BUF_MAX_LEN" "take (length bs) mbuf = bs"
  shows "take (length bs + MESG_HEAD_LEN) (bytes_of_message \<lparr>m_cmd = of_nat (cmd_code CMD_SEND_FILE),
      m_type = of_nat (type_code REQ_NORE), m_buf_len = of_nat (length bs), m_buf = mbuf\<rparr>) = block_datagram bs"
  using assms by (simp add: block_datagram_def bytes_of_message_def add.commute)

text \<open>C38. recvbuf is not cleared before udprev, and the result of udprev is not looked at: once a block
  has been acknowledged, a peer that never answers again does not stop the client, which goes on
  to the end of the file as if every block had arrived.\<close>

theorem send_loop_ignores_silence:
  assumes "message_of recvbuf = Some r" "is_ack CMD_SEND_FILE r"
  shows "\<exists>xs. send_loop log_send script_recv mbuf len (file_reads BUF_MAX_LEN rest) recvbuf (log, []) =
    Some (None, log @ xs, []) \<and> length xs = 1 + (length rest + (BUF_MAX_LEN - 1)) div BUF_MAX_LEN"
proof (induction "length rest" arbitrary: rest mbuf len log rule: less_induct)
  case less
  let ?dg = "take (len + MESG_HEAD_LEN) (bytes_of_message \<lparr>m_cmd = of_nat (cmd_code CMD_SEND_FILE),
      m_type = of_nat (type_code REQ_NORE), m_buf_len = of_nat len, m_buf = mbuf\<rparr>)"
  note step = send_loop_eq [of log_send script_recv mbuf len _ recvbuf "(log, [])",
      unfolded Let_def script_simps bind.bind_lunit udprev_script prod.case assms(1)]
  show ?case
  proof (cases "rest = []")
    case True
    then have "file_reads BUF_MAX_LEN rest = [Read []]" by (simp add: file_reads.simps)
    then show ?thesis using assms(2) True by (intro exI [of _ "[?dg]"]) (simp add: step)
  next
    case False
    let ?c = "take BUF_MAX_LEN rest" and ?rest = "drop BUF_MAX_LEN rest"
    have fr: "file_reads BUF_MAX_LEN rest = Read ?c # file_reads BUF_MAX_LEN ?rest"
      using False by (simp add: file_reads.simps [of _ rest])
    have "length ?rest < length rest" using False by (cases rest) simp_all
    from less [OF this] obtain xs where
      xs: "send_loop log_send script_recv (?c @ drop (length ?c) mbuf) (length ?c) (file_reads BUF_MAX_LEN ?rest)
        recvbuf (log @ [?dg], []) = Some (None, (log @ [?dg]) @ xs, [])"
      "length xs = 1 + (length ?rest + (BUF_MAX_LEN - 1)) div BUF_MAX_LEN" by blast
    have "?c \<noteq> []" using False by simp
    then have "send_loop log_send script_recv mbuf len (file_reads BUF_MAX_LEN rest) recvbuf (log, []) =
        Some (None, log @ (?dg # xs), [])"
      using assms(2) xs(1) unfolding step fr by simp
    moreover have "length (?dg # xs) = 1 + (length rest + (BUF_MAX_LEN - 1)) div BUF_MAX_LEN"
    proof (cases "length rest \<le> BUF_MAX_LEN")
      case True
      have "1 \<le> length rest" using False by (cases rest) simp_all
      with True have "(length rest + (BUF_MAX_LEN - 1)) div BUF_MAX_LEN = 1"
        unfolding BUF_MAX_LEN_def by (intro div_nat_eqI) simp_all
      then show ?thesis using xs(2) True by simp
    next
      case False
      then have "length rest + (BUF_MAX_LEN - 1) = (length ?rest + (BUF_MAX_LEN - 1)) + BUF_MAX_LEN" by simp
      then show ?thesis using xs(2) by (simp only: length_Cons) simp
    qed
    ultimately show ?thesis by blast
  qed
qed

theorem send_loop_ignores_silence_witness:
  "\<exists>xs. send_loop log_send script_recv (bzero 4096) 3 (file_reads BUF_MAX_LEN [])
     (ack CMD_SEND_FILE ACK_OK @ bzero 4096) ([], []) = Some (None, [] @ xs, []) \<and> length xs = 1"
proof -
  obtain r where "message_of (ack CMD_SEND_FILE ACK_OK @ bzero 4096) = Some r" "is_ack CMD_SEND_FILE r"
    using message_of_ack [of CMD_SEND_FILE "bzero 4096"] by blast
  from send_loop_ignores_silence [OF this, of "bzero 4096" 3 "[]" "[]"] show ?thesis by simp
qed

lemma message_of_zero: "message_of (bzero MAXLINE) = Some \<lparr>m_cmd = 0, m_type = 0, m_buf_len = 0, m_buf = bzero 4096\<rparr>"
proof -
  have z: "bzero MAXLINE = bytes_of_message \<lparr>m_cmd = 0, m_type = 0, m_buf_len = 0, m_buf = bzero 4096\<rparr>"
    by (simp add: bytes_of_message_def le16_def le32_def bzero_def numeral_eq_Suc)
  show ?thesis unfolding z by (rule message_of_bytes)
qed

text \<open>k turns of the loop, less when it is left before.\<close>

fun send_turns :: "nat \<Rightarrow> (bytes \<Rightarrow> 'n \<Rightarrow> 'n option) \<Rightarrow> ('n \<Rightarrow> bytes option \<times> 'n) \<Rightarrow>
   bytes \<times> nat \<times> read_result list \<times> bytes \<times> 'n \<Rightarrow>
   ((int option \<times> 'n) + (bytes \<times> nat \<times> read_result list \<times> bytes \<times> 'n)) option" where
  "send_turns 0 usend urecv st = Some (Inr st)"
| "send_turns (Suc k) usend urecv (mbuf, len, reads, recvbuf, net) =
     Option.bind (send_turn usend urecv mbuf len reads recvbuf net) (\<lambda>t.
       case t of Inl r \<Rightarrow> Some (Inl r) | Inr st \<Rightarrow> send_turns k usend urecv st)"

lemma send_turn_silent:
  assumes "message_of recvbuf = Some r" "\<not> is_ack CMD_SEND_FILE r" "m_type r \<noteq> of_nat (type_code ACK_NOSP)"
    and "length bs \<le> BUF_MAX_LEN" "length mbuf = BUF_MAX_LEN" "take (length bs) mbuf = bs"
  shows "send_turn log_send script_recv mbuf (length bs) reads recvbuf (log, []) =
    Some (Inr (mbuf, length bs, reads, recvbuf, log @ [block_datagram bs, block_datagram bs], []))"
  unfolding send_turn_def Let_def send_loop_datagram [OF assms(4-6)] script_simps bind.bind_lunit
    udprev_script prod.case assms(1)
  using assms(2,3) by simp

text \<open>A loop that comes back to the same place in every turn never ends.\<close>

lemma send_loop_diverges:
  assumes "\<And>net. P net \<Longrightarrow> \<exists>net'. send_turn usend urecv mbuf len reads recvbuf net =
      Some (Inr (mbuf, len, reads, recvbuf, net')) \<and> P net'"
  shows "P net \<Longrightarrow> send_loop usend urecv mbuf len reads recvbuf net = None"
proof (rule ccontr)
  assume "P net" "send_loop usend urecv mbuf len reads recvbuf net \<noteq> None"
  then obtain y where "send_loop usend urecv mbuf len reads recvbuf net = Some y" by blast
  then have "\<not> (usend = usend \<and> urecv = urecv \<and> (mbuf, len, reads, recvbuf) = (mbuf, len, reads, recvbuf) \<and> P net)"
    by (rule send_loop.raw_induct [rotated, where P = "\<lambda>us ur mb l rd rb net y.
        \<not> (us = usend \<and> ur = urecv \<and> (mb, l, rd, rb) = (mbuf, len, reads, recvbuf) \<and> P net)"])
      (use assms in fastforce)
  with \<open>P net\<close> show False by simp
qed

text \<open>C40. Before the first acknowledgement silence has the opposite effect: each turn of the loop sends the block
  twice and comes back to where it was, so that a client whose server vanishes after the
  announcement sends for ever; no turn of it is undefined behaviour.\<close>

theorem send_loop_silent_server:
  assumes "message_of recvbuf = Some r" "\<not> is_ack CMD_SEND_FILE r" "m_type r \<noteq> of_nat (type_code ACK_NOSP)"
    and "length bs \<le> BUF_MAX_LEN" "length mbuf = BUF_MAX_LEN" "take (length bs) mbuf = bs"
  shows "send_loop log_send script_recv mbuf (length bs) reads recvbuf (log, []) = None \<and>
    send_turns k log_send script_recv (mbuf, length bs, reads, recvbuf, log, []) =
      Some (Inr (mbuf, length bs, reads, recvbuf, log @ replicate (2 * k) (block_datagram bs), []))"
proof
  show "send_loop log_send script_recv mbuf (length bs) reads recvbuf (log, []) = None"
    by (rule send_loop_diverges [where P = "\<lambda>net. snd net = []"]) (use send_turn_silent [OF assms] in auto)
  show "send_turns k log_send script_recv (mbuf, length bs, reads, recvbuf, log, []) =
      Some (Inr (mbuf, length bs, reads, recvbuf, log @ replicate (2 * k) (block_datagram bs), []))"
    by (induction k arbitrary: log) (simp_all add: send_turn_silent [OF assms])
qed

theorem send_loop_silent_server_witness:
  "send_loop log_send script_recv ([5] @ bzero 4095) (length [5 :: u8]) [Read []] (bzero MAXLINE) ([], []) = None"
  using send_loop_silent_server [OF message_of_zero, of "[5]" "[5] @ bzero 4095" "[Read []]" "[]" 1]
  by (simp add: is_ack_def)

text \<open>A block whose acknowledgement does not come is sent two more times before the next answer is
  looked at: once in the branch for the failure and once at the head of the loop.\<close>

theorem send_loop_resends_twice:
  assumes "length bs \<le> BUF_MAX_LEN" "length mbuf = BUF_MAX_LEN" "take (length bs) mbuf = bs"
  shows "send_loop log_send script_recv mbuf (length bs) [Read []] (bzero MAXLINE)
      (log, [None, Some (ack CMD_SEND_FILE ACK_OK)]) =
    Some (None, log @ [block_datagram bs, block_datagram bs, block_datagram bs], [])"
proof -
  obtain r where r: "message_of (ack CMD_SEND_FILE ACK_OK @ drop 8 (bzero MAXLINE)) = Some r"
    "is_ack CMD_SEND_FILE r"
    using message_of_ack [of CMD_SEND_FILE] by blast
  note dg = send_loop_datagram [OF assms]
  have last: "send_loop log_send script_recv mbuf (length bs) [Read []] (bzero MAXLINE)
      (xs, [Some (ack CMD_SEND_FILE ACK_OK)]) = Some (None, xs @ [block_datagram bs], [])" for xs
    unfolding send_loop_eq [of _ _ _ _ _ _ "(xs, _)"] Let_def dg script_simps bind.bind_lunit
      udprev_script prod.case r(1)
    using r(2) by simp
  show ?thesis
    unfolding send_loop_eq [of _ _ _ _ _ _ "(log, _)"] Let_def dg script_simps bind.bind_lunit
      udprev_script prod.case message_of_zero
    by (simp add: is_ack_def last del: net_sizes)
qed

theorem send_loop_resends_twice_witness:
  "send_loop log_send script_recv ([5] @ bzero 4095) (length [5 :: u8]) [Read []] (bzero MAXLINE)
     ([], [None, Some (ack CMD_SEND_FILE ACK_OK)]) =
   Some (None, [] @ [block_datagram [5], block_datagram [5], block_datagram [5]], [])"
  by (rule send_loop_resends_twice) simp_all

text \<open>An empty file is announced and then given up: sendfile returns -1 without the end-of-transfer
  message, and the server keeps the paths of the announcement.\<close>

theorem sendfile_empty_file:
  assumes "fill_fileblock ossl path d = Some (fb, d')"
    and "open_rdonly path d' = (int k, d'')" "fd_of d'' (int k) = File i 0" "inode d'' i = []"
  shows "sendfile ossl log_send script_recv path d (log, [Some (ack CMD_SEND_FILEMSG_REQ ACK_OK)]) =
    Some (- 1, None, log @ [request_datagram fb], [])"
proof -
  obtain r where r: "message_of (ack CMD_SEND_FILEMSG_REQ ACK_OK @ drop 8 (bzero MAXLINE)) = Some r"
    "is_ack CMD_SEND_FILEMSG_REQ r"
    using message_of_ack [of CMD_SEND_FILEMSG_REQ] by blast
  have "file_reads BUF_MAX_LEN [] = [Read []]" by (simp add: file_reads.simps)
  then show ?thesis
    unfolding sendfile_def assms(1) bind.bind_lunit prod.case Let_def script_simps udprev_script r(1)
    using r(2) assms(2-4) by simp
qed

definition empty_file_disk :: fs where
  "empty_file_disk = client_disk\<lparr>inode := (\<lambda>i. [])\<rparr>"

theorem sendfile_empty_file_witness:
  "\<exists>fb. sendfile md5c_openssl log_send script_recv (cs ''p/a'') empty_file_disk
      ([], [Some (ack CMD_SEND_FILEMSG_REQ ACK_OK)]) = Some (- 1, None, [] @ [request_datagram fb], [])"
proof -
  have f: "names empty_file_disk (resolve (cs ''p/a'')) = Some 0" "\<not> dirs empty_file_disk (resolve (cs ''p/a''))"
    "1 \<le> free_fds empty_file_disk" "inode empty_file_disk 0 = []" "first_free (fds empty_file_disk) = Some 0"
    "0 < length (fds empty_file_disk)"
    by (simp_all add: empty_file_disk_def client_disk_def empty_disk_def small_name free_fds_def numeral_eq_Suc)
  have n: "cs ''p/a'' \<noteq> []" "length (cs ''p/a'') < 128" by (simp_all add: cs_def)
  obtain fb where fb: "fill_fileblock md5c_openssl (cs ''p/a'') empty_file_disk = Some (fb, empty_file_disk)"
    using md5o.MD5_file_ossl_ok [OF n(1) f(1-3), of "bzero 16"] n(2)
    by (simp add: fill_fileblock_def strcpy_eq)
  have o: "open_rdonly (cs ''p/a'') empty_file_disk =
      (int 0, empty_file_disk\<lparr>fds := (fds empty_file_disk)[0 := File 0 0]\<rparr>)"
    using f n by (simp add: open_rdonly_def new_fd_def)
  from sendfile_empty_file [OF fb o, of 0 "[]"] f show ?thesis by (auto simp: fd_of_def)
qed

end
