(* ===== verification/TcpServer.thy ===== *)
theory TcpServer
  imports UdpServer_Proof
begin

text \<open>
  filesend/tcpfilesend: the file transfer over TCP (server.c, and the sending side of client.c).
  The server announces nothing in between: after the request it reads the bytes of the file from
  the stream until file_length of them have been written.

  The stream is the list of what successive calls of recv return (an error, bytes, or no bytes
  when the peer has closed). When the list is used up the next recv blocks: the outcome of a
  handler is then Blocked. The file system and the parameters for OpenSSL and the shell are
  those of the udp server.
\<close>

definition TCP_BUF_MAX_LEN :: nat where "TCP_BUF_MAX_LEN = 2048"
definition TCP_MAXLINE :: nat where "TCP_MAXLINE = TCP_BUF_MAX_LEN + 8"
definition TCP_NAME_LEN :: nat where "TCP_NAME_LEN = 64"

lemmas tcp_sizes [simp] = TCP_BUF_MAX_LEN_def TCP_MAXLINE_def TCP_NAME_LEN_def

section \<open>net_file.h\<close>

record tcp_fileblock =
  t_file_name :: bytes
  t_md5 :: bytes
  t_file_length :: u32

definition tcp_fileblock_of :: "bytes \<Rightarrow> tcp_fileblock option" where
  "tcp_fileblock_of b = do {
     n \<leftarrow> of_le32 (take 4 (drop 80 b));
     Some \<lparr>t_file_name = take 64 b, t_md5 = take 16 (drop 64 b), t_file_length = n\<rparr>
   }"

definition bytes_of_tcp_fileblock :: "tcp_fileblock \<Rightarrow> bytes" where
  "bytes_of_tcp_fileblock f = t_file_name f @ t_md5 f @ le32 (t_file_length f)"

lemma tcp_fileblock_roundtrip:
  "length (t_file_name f) = 64 \<Longrightarrow> length (t_md5 f) = 16 \<Longrightarrow>
   tcp_fileblock_of (bytes_of_tcp_fileblock f @ rest) = Some f"
  by (simp add: tcp_fileblock_of_def bytes_of_tcp_fileblock_def)

section \<open>The globals\<close>

record tcp_server =
  t_Filemsg :: tcp_fileblock
  t_fd :: int
  t_file_path :: bytes
  t_file_path_back :: bytes
  t_buf :: bytes
  t_disk :: fs
  t_sent :: "bytes list"

definition TCP_PICTUREPATH :: bytes where
  "TCP_PICTUREPATH = cs ''./picture/''"

text \<open>
  The message is an overlay on the global buf. send_head sends its first 8 bytes after the
  assignments to type and buf_len (and, at the end of a transfer, to cmd).
\<close>

definition set_head :: "u16 \<Rightarrow> Type \<Rightarrow> bytes \<Rightarrow> bytes" where
  "set_head c t buf = le16 c @ le16 (of_nat (type_code t)) @ le32 0 @ drop 8 buf"

definition send_head :: "tcp_server \<Rightarrow> tcp_server" where
  "send_head s = s\<lparr>t_sent := t_sent s @ [take 8 (t_buf s)]\<rparr>"

section \<open>The handlers of server.c\<close>

text \<open>
  The loop \<open>while (recv_len = recv(link_id, buf, MAXLINE, 0))\<close> of cmd_reqsend_deel. len is an
  int, file_length is unsigned: the comparison is one of unsigned numbers. Every write fails
  when the file could not be opened; len then counts down.
\<close>

fun recv_file :: "read_result list \<Rightarrow> int \<Rightarrow> tcp_server \<Rightarrow> (tcp_server \<times> read_result list) outcome" where
  "recv_file [] len s = Blocked"
| "recv_file (Read_error # rs) len s = Done (s, rs)"
| "recv_file (Read bs # rs) len s =
     (if bs = [] then Done (s, rs)
      else
        let (n, d) = write_fd (t_fd s) bs (t_disk s);
            s = s\<lparr>t_disk := d, t_buf := bzero TCP_MAXLINE\<rparr>
        in if t_file_length (t_Filemsg s) \<le> of_int (len + n) then Done (s, rs)
           else recv_file rs (len + n) s)"

text \<open>The command line for mv, put together in systemcmd (64 bytes).\<close>

definition tcp_systemcmd :: "bytes \<Rightarrow> bytes \<Rightarrow> bytes option" where
  "tcp_systemcmd path_back path = do {
     cmd \<leftarrow> strcat (bzero TCP_NAME_LEN) (cs ''mv '');
     cmd \<leftarrow> strcat cmd path_back;
     cmd \<leftarrow> strcat cmd (cs '' '');
     strcat cmd path
   }"

text \<open>The check at the end of a transfer, common to two handlers; the result is the type of the answer.\<close>

definition check_and_move :: "'c openssl \<Rightarrow> shell \<Rightarrow> tcp_server \<Rightarrow> (Type \<times> tcp_server) option" where
  "check_and_move ossl sh s = do {
     guard (terminated (t_file_path_back s) \<and> terminated (t_file_path s));
     (_, md5output, d) \<leftarrow> MD5_file_ossl ossl (cstr (t_file_path_back s)) (bzero 16) (t_disk s);
     let s = s\<lparr>t_disk := d\<rparr>;
     if md5output \<noteq> t_md5 (t_Filemsg s) then Some (ACK_FAIL, s)
     else do {
       cmd \<leftarrow> tcp_systemcmd (cstr (t_file_path_back s)) (cstr (t_file_path s));
       Some (ACK_OK, s\<lparr>t_disk := sh (cstr cmd) (t_disk s)\<rparr>)
     }
   }"

definition tcp_cmd_reqsend_deel :: "'c openssl \<Rightarrow> shell \<Rightarrow> read_result list \<Rightarrow> tcp_server \<Rightarrow>
    (tcp_server \<times> read_result list) outcome option" where
  "tcp_cmd_reqsend_deel ossl sh rs s = do {
     m \<leftarrow> message_of (t_buf s);
     fb \<leftarrow> tcp_fileblock_of (m_buf m);
     guard (terminated (t_file_name fb));
     path \<leftarrow> strcat (t_file_path s) TCP_PICTUREPATH;
     back \<leftarrow> strcat (t_file_path_back s) TCP_PICTUREPATH;
     path \<leftarrow> strcat path (cstr (t_file_name fb));
     back \<leftarrow> strcat back (cstr (t_file_name fb));
     back \<leftarrow> strcat back (cs ''.filepart'');
     let (f, d) = open_wronly_creat (cstr back) (t_disk s);
     let s = send_head (s\<lparr>t_Filemsg := fb, t_file_path := path, t_file_path_back := back, t_fd := f,
               t_disk := d, t_buf := set_head (m_cmd m) ACK_OK (t_buf s)\<rparr>);
     case recv_file rs 0 s of
       Blocked \<Rightarrow> Some Blocked
     | Done (s, rs) \<Rightarrow> do {
         (t, s) \<leftarrow> check_and_move ossl sh (s\<lparr>t_disk := close_fd (t_fd s) (t_disk s)\<rparr>);
         let s = send_head (s\<lparr>t_file_path_back := bzero TCP_NAME_LEN, t_file_path := bzero TCP_NAME_LEN,
                   t_buf := set_head (of_nat (cmd_code CMD_SEND_FINISH)) t (t_buf s)\<rparr>);
         Some (Done (s, rs))
       }
   }"

definition tcp_cmd_revfile :: "read_result list \<Rightarrow> tcp_server \<Rightarrow>
    (tcp_server \<times> read_result list) outcome option" where
  "tcp_cmd_revfile rs s = do {
     m \<leftarrow> message_of (t_buf s);
     src \<leftarrow> mem_get (m_buf m) 0 (unat (m_buf_len m));
     let (len, d) = write_fd (t_fd s) src (t_disk s);
     Some (Done (s\<lparr>t_disk := d\<rparr>, rs))
   }"

definition tcp_cmd_revfilefinsh :: "'c openssl \<Rightarrow> shell \<Rightarrow> read_result list \<Rightarrow> tcp_server \<Rightarrow>
    (tcp_server \<times> read_result list) outcome option" where
  "tcp_cmd_revfilefinsh ossl sh rs s = do {
     m \<leftarrow> message_of (t_buf s);
     (t, s) \<leftarrow> check_and_move ossl sh s;
     let s = send_head (s\<lparr>t_file_path_back := bzero TCP_NAME_LEN, t_file_path := bzero TCP_NAME_LEN,
               t_buf := set_head (m_cmd m) t (t_buf s)\<rparr>);
     Some (Done (s, rs))
   }"

section \<open>The receive loop\<close>

type_synonym tcp_ops = "read_result list \<Rightarrow> tcp_server \<Rightarrow> (tcp_server \<times> read_result list) outcome option"

definition tcp_cmd_repose :: "'c openssl \<Rightarrow> shell \<Rightarrow> (u8 \<times> u8 \<times> tcp_ops) list" where
  "tcp_cmd_repose ossl sh = [
     (of_nat (cmd_code CMD_SEND_FILEMSG_REQ), of_nat (type_code REQ_NOR), tcp_cmd_reqsend_deel ossl sh),
     (of_nat (cmd_code CMD_SEND_FILE), of_nat (type_code REQ_NORE), tcp_cmd_revfile),
     (of_nat (cmd_code CMD_SEND_FINISH), of_nat (type_code REQ_NOR), tcp_cmd_revfilefinsh ossl sh)]"

fun tcp_dispatch :: "(u8 \<times> u8 \<times> tcp_ops) list \<Rightarrow> u16 \<Rightarrow> u16 \<Rightarrow> tcp_ops" where
  "tcp_dispatch [] c t rs s = Some (Done (s, rs))"
| "tcp_dispatch ((c', t', ops) # table) c t rs s =
     (if ucast c' = c \<and> ucast t' = t then ops rs s else tcp_dispatch table c t rs s)"

text \<open>
  The inner loop of ReceiveThread for one connection. The result is Done when the connection
  is closed and Blocked when the next recv waits; the whole value None is undefined behaviour.
\<close>

partial_function (option) receive_loop :: "'c openssl \<Rightarrow> shell \<Rightarrow> read_result list \<Rightarrow> tcp_server \<Rightarrow>
    tcp_server outcome option" where
  "receive_loop ossl sh rs s =
     (case rs of
        [] \<Rightarrow> Some Blocked
      | Read_error # rs \<Rightarrow> Some (Done s)
      | Read bs # rs \<Rightarrow>
          if bs = [] then Some (Done s)
          else Option.bind (mem_put (bzero TCP_MAXLINE) 0 bs) (\<lambda>buf.
               Option.bind (message_of buf) (\<lambda>m.
               Option.bind (tcp_dispatch (tcp_cmd_repose ossl sh) (m_cmd m) (m_type m) rs (s\<lparr>t_buf := buf\<rparr>))
                 (\<lambda>r. case r of
                    Blocked \<Rightarrow> Some Blocked
                  | Done (s, rs) \<Rightarrow> receive_loop ossl sh rs (s\<lparr>t_buf := bzero TCP_MAXLINE\<rparr>)))))"

section \<open>client.c\<close>

text \<open>
  What request_sendfile sends after the server has accepted the announcement: the file in
  pieces of at most BUF_MAX_LEN bytes, without headers.
\<close>

fun send_pieces :: "read_result list \<Rightarrow> bytes list" where
  "send_pieces (Read bs # rs) = (if bs = [] then [] else bs # send_pieces rs)"
| "send_pieces _ = []"

definition tcp_request :: "'c openssl \<Rightarrow> bytes \<Rightarrow> fs \<Rightarrow> (bytes \<times> fs) option" where
  "tcp_request ossl path d = do {
     name \<leftarrow> strcpy (bzero TCP_NAME_LEN) path;
     (_, digest, d) \<leftarrow> MD5_file_ossl ossl path (bzero 16) d;
     let n = (case names d (resolve path) of None \<Rightarrow> - 1 | Some i \<Rightarrow> of_nat (length (inode d i)));
     Some (bytes_of_message \<lparr>m_cmd = of_nat (cmd_code CMD_SEND_FILEMSG_REQ),
             m_type = of_nat (type_code REQ_NOR), m_buf_len = 84,
             m_buf = bytes_of_tcp_fileblock \<lparr>t_file_name = name, t_md5 = digest, t_file_length = n\<rparr>\<rparr>, d)
   }"

text \<open>
  request_sendfile: answers is what its two calls of recv deliver. The first of them allows
  BUFSIZ (8192) bytes for a buffer of 2056: a longer answer is undefined behaviour. The result is
  the return value, if one is given, whether success is printed, and the data passed to send.
\<close>

definition request_sendfile :: "'c openssl \<Rightarrow> bytes \<Rightarrow> bytes \<Rightarrow> bytes \<Rightarrow> fs \<Rightarrow>
    (int option \<times> bool option \<times> bytes list) option" where
  "request_sendfile ossl answer1 answer2 path d = do {
     (req, d) \<leftarrow> tcp_request ossl path d;
     buf \<leftarrow> mem_put (bzero TCP_MAXLINE) 0 (take 8192 answer1);
     r \<leftarrow> message_of buf;
     if m_cmd r = of_nat (cmd_code CMD_SEND_FILEMSG_REQ) \<and> m_type r = of_nat (type_code ACK_OK)
     then (let (fd, d) = open_rdonly path d in
       if fd < 0 then Some (Some (- 1), None, [req])
       else do {
         let pieces = send_pieces (case fd_of d fd of
               File i off \<Rightarrow> file_reads TCP_BUF_MAX_LEN (drop off (inode d i)) | _ \<Rightarrow> [Read_error]);
         buf \<leftarrow> mem_put (bzero TCP_MAXLINE) 0 (take TCP_MAXLINE answer2);
         r \<leftarrow> message_of buf;
         Some (None, Some (m_cmd r = of_nat (cmd_code CMD_SEND_FINISH) \<and>
                           m_type r = of_nat (type_code ACK_OK)), req # pieces)
       })
     else Some (None, None, [req])
   }"

end
