(* ===== verification/TcpProps.thy ===== *)
theory TcpProps
  imports TcpServer UdpTransfer
begin

text \<open>
  Properties of the file transfer over TCP: a transfer whose bytes arrive in any pieces ends with
  the file in place; the buffer for the mv command limits the length of names; the client sends
  exactly the bytes of the file.
\<close>

lemma write_fd_append:
  assumes "fd_of d f = File ino (length data)" "inode d ino = data" "length src \<le> room d"
  shows "write_fd f src d = (int (length src), d\<lparr>inode := (inode d)(ino := data @ src),
     room := room d - length src, fds := (fds d)[nat f := File ino (length data + length src)]\<rparr>)"
  using assms by (auto simp: write_fd_def Let_def bzero_def)

section \<open>Reading the file from the stream\<close>

text \<open>The open file holds data; everything else on the disk is as in d0.\<close>

definition filling :: "fs \<Rightarrow> nat \<Rightarrow> int \<Rightarrow> bytes \<Rightarrow> fs \<Rightarrow> bool" where
  "filling d0 ino f data d \<longleftrightarrow>
     fd_of d f = File ino (length data) \<and> inode d ino = data \<and> 0 \<le> f \<and>
     names d = names d0 \<and> dirs d = dirs d0 \<and> free_fds d = free_fds d0 \<and> fresh d = fresh d0 \<and>
     room d + length data = room d0 \<and> (\<forall>i. i \<noteq> ino \<longrightarrow> inode d i = inode d0 i)"

lemma filling_write:
  assumes f: "filling d0 ino f data d" and l: "length data + length src \<le> room d0"
  obtains d' where "write_fd f src d = (int (length src), d')" "filling d0 ino f (data @ src) d'"
proof -
  from f have r: "length src \<le> room d" using l by (simp add: filling_def)
  let ?d = "d\<lparr>inode := (inode d)(ino := data @ src),
     room := room d - length src, fds := (fds d)[nat f := File ino (length data + length src)]\<rparr>"
  have fo: "fd_of d f = File ino (length data)" "inode d ino = data" using f by (simp_all add: filling_def)
  then have i: "nat f < length (fds d)" "fds d ! nat f = File ino (length data)"
    by (auto simp: fd_of_def split: if_splits)
  then have "free_fds ?d = free_fds d" by (simp add: free_fds_def length_filter_update)
  with f i r have "filling d0 ino f (data @ src) ?d" by (auto simp: filling_def fd_of_def)
  then show thesis using that write_fd_append [OF fo r] by blast
qed

lemma u32_le_of_int:
  "0 \<le> k \<Longrightarrow> k < 2 ^ 32 \<Longrightarrow> (n :: u32) \<le> of_int k \<longleftrightarrow> uint n \<le> k"
  by (simp add: word_le_def uint_word_of_int)

text \<open>
  What the server takes from the stream for an announced length n: pieces until there are n bytes, which
  can be more than n; less when recv fails or the peer closes; None when it waits for more.
\<close>

fun stream_data :: "nat \<Rightarrow> read_result list \<Rightarrow> (bytes \<times> read_result list) option" where
  "stream_data n [] = None"
| "stream_data n (Read_error # rs) = Some ([], rs)"
| "stream_data n (Read bs # rs) =
     (if bs = [] then Some ([], rs)
      else if n \<le> length bs then Some (bs, rs)
      else map_option (\<lambda>(x, rs). (bs @ x, rs)) (stream_data (n - length bs) rs))"

lemma stream_data_pieces:
  "[] \<notin> set bss \<Longrightarrow> bss \<noteq> [] \<Longrightarrow> length (concat bss) = n \<Longrightarrow> stream_data n (map Read bss @ rest) = Some (concat bss, rest)"
proof (induction bss arbitrary: n)
  case (Cons b bss)
  then have ne: "b \<noteq> []" by auto
  show ?case
  proof (cases bss)
    case Nil
    then show ?thesis using Cons.prems ne by simp
  next
    case (Cons c bss')
    then have "concat bss \<noteq> []" using Cons.prems(1) by auto
    then have "length b < n" using Cons.prems(3) by (cases "concat bss") auto
    moreover have "stream_data (n - length b) (map Read bss @ rest) = Some (concat bss, rest)"
      using Cons.IH [of "n - length b"] Cons.prems Cons by simp
    ultimately show ?thesis using ne by simp
  qed
qed simp

lemma recv_file_stream:
  assumes "filling d0 ino (t_fd s) data (t_disk s)"
    and "stream_data (unat (t_file_length (t_Filemsg s)) - length data) rs = Some (x, rest)"
    and "length data + length x \<le> room d0" "length data + length x < 2 ^ 32"
  shows "\<exists>d b. recv_file rs (int (length data)) s = Done (s\<lparr>t_disk := d, t_buf := b\<rparr>, rest) \<and>
    filling d0 ino (t_fd s) (data @ x) d"
  using assms
proof (induction rs arbitrary: s data x)
  case (Cons rd rs)
  let ?n = "unat (t_file_length (t_Filemsg s))"
  show ?case
  proof (cases "rd = Read_error \<or> rd = Read []")
    case True
    then have "recv_file (rd # rs) (int (length data)) s = Done (s, rest)" "x = []" using Cons.prems(2) by auto
    then show ?thesis using Cons.prems(1) by (intro exI [of _ "t_disk s"] exI [of _ "t_buf s"]) simp
  next
    case False
    then obtain bs where bs: "rd = Read bs" "bs \<noteq> []" by (cases rd) auto
    have bx: "length bs \<le> length x" using Cons.prems(2) bs by (auto split: if_splits)
    then have l: "length data + length bs \<le> room d0" using Cons.prems(3) by simp
    from filling_write [OF Cons.prems(1) l] obtain d1 where
      w: "write_fd (t_fd s) bs (t_disk s) = (int (length bs), d1)"
      and f1: "filling d0 ino (t_fd s) (data @ bs) d1" .
    let ?s = "s\<lparr>t_disk := d1, t_buf := bzero TCP_MAXLINE\<rparr>"
    let ?k = "int (length data) + int (length bs)"
    have k: "0 \<le> ?k" "?k < 2 ^ 32" using Cons.prems(4) bx by simp_all
    have cmp: "t_file_length (t_Filemsg s) \<le> of_int ?k \<longleftrightarrow> ?n \<le> length data + length bs"
      unfolding u32_le_of_int [OF k] by (simp only: uint_nat of_nat_add [symmetric] of_nat_le_iff)
    show ?thesis
    proof (cases "?n \<le> length data + length bs")
      case True
      then have "x = bs" "rest = rs" using Cons.prems(2) bs by (auto split: if_splits)
      moreover have "recv_file (rd # rs) (int (length data)) s = Done (?s, rs)"
        using True w bs cmp by (simp add: Let_def)
      ultimately show ?thesis using f1 by (intro exI [of _ d1] exI [of _ "bzero TCP_MAXLINE"]) simp
    next
      case False
      then have step: "recv_file (rd # rs) (int (length data)) s = recv_file rs (int (length (data @ bs))) ?s"
        using w bs cmp by (simp add: Let_def)
      obtain y where y: "stream_data (?n - length data - length bs) rs = Some (y, rest)" "x = bs @ y"
        using Cons.prems(2) bs False by (auto split: if_splits)
      have "\<exists>d b. recv_file rs (int (length (data @ bs))) ?s = Done (?s\<lparr>t_disk := d, t_buf := b\<rparr>, rest) \<and>
          filling d0 ino (t_fd ?s) ((data @ bs) @ y) d"
        using f1 y Cons.prems(3,4) by (intro Cons.IH) simp_all
      then show ?thesis unfolding step y(2) by auto
    qed
  qed
qed simp

section \<open>A whole transfer\<close>

definition tcp_final :: "bytes \<Rightarrow> bytes" where
  "tcp_final n = TCP_PICTUREPATH @ n"

definition tcp_part :: "bytes \<Rightarrow> bytes" where
  "tcp_part n = TCP_PICTUREPATH @ n @ cs ''.filepart''"

lemma tcp_path_facts:
  "0 \<notin> set TCP_PICTUREPATH" "length TCP_PICTUREPATH = 10" "TCP_PICTUREPATH = cs ''.'' @ slash # cs ''picture'' @ [slash]"
  by (simp_all add: TCP_PICTUREPATH_def cs_def of_char_def)

lemma resolve_picture:
  assumes "plain t"
  shows "resolve (TCP_PICTUREPATH @ t) = [cs ''picture'', t]"
proof -
  have m: "tokens [slash] (cs ''.'') = [cs ''.'']" "tokens [slash] (cs ''picture'') = [cs ''picture'']"
    by (rule tokens_single; simp add: cs_def of_char_def)+
  have t: "tokens [slash] t = [t]" by (rule tokens_single) (use assms in \<open>auto simp: plain_def\<close>)
  have "tokens [slash] (cs ''.'' @ slash # (cs ''picture'' @ slash # t)) =
      tokens [slash] (cs ''.'') @ tokens [slash] (cs ''picture'' @ slash # t)"
    by (rule tokens_append_delim) simp
  also have "tokens [slash] (cs ''picture'' @ slash # t) = tokens [slash] (cs ''picture'') @ tokens [slash] t"
    by (rule tokens_append_delim) simp
  finally have "tokens [slash] (TCP_PICTUREPATH @ t) = [cs ''.'', cs ''picture'', t]"
    by (simp add: tcp_path_facts(3) m t)
  moreover have "cs ''picture'' \<noteq> cs ''.''" "cs ''picture'' \<noteq> cs ''..''" by (simp_all add: cs_def)
  ultimately show ?thesis
    using assms by (simp add: resolve_def resolve_step_plain) (simp add: resolve_step_def)
qed

text \<open>The disk can take a file of L bytes under the simple name n.\<close>

definition tcp_disk_ready :: "bytes \<Rightarrow> nat \<Rightarrow> fs \<Rightarrow> bool" where
  "tcp_disk_ready n L d \<longleftrightarrow>
     dirs d [cs ''picture''] \<and> names d (resolve (tcp_part n)) = None \<and>
     \<not> dirs d (resolve (tcp_part n)) \<and> \<not> dirs d (resolve (tcp_final n)) \<and> 1 \<le> free_fds d \<and> L \<le> room d"

text \<open>
  What a transfer leaves on the disk d that was d0: the file, and everything else as before.
\<close>

definition tcp_stored :: "fs \<Rightarrow> bytes \<Rightarrow> bytes \<Rightarrow> fs \<Rightarrow> bool" where
  "tcp_stored d0 n x d \<longleftrightarrow>
     names d = (names d0)(resolve (tcp_final n) \<mapsto> fresh d0) \<and> inode d (fresh d0) = x \<and>
     (\<forall>i. i \<noteq> fresh d0 \<longrightarrow> inode d i = inode d0 i) \<and> fresh d = Suc (fresh d0) \<and>
     dirs d = dirs d0 \<and> free_fds d = free_fds d0 \<and> room d + length x = room d0"

lemma tcp_stored_file: "tcp_stored d0 n x d \<Longrightarrow> file_at d (resolve (tcp_final n)) = Some x"
  by (simp add: tcp_stored_def file_at_def)

lemma tcp_stored_wf: "tcp_stored d0 n x d \<Longrightarrow> wf_fs d0 \<Longrightarrow> wf_fs d"
  by (auto simp: tcp_stored_def wf_fs_def less_SucI)

lemma tcp_stored_other:
  assumes "tcp_stored d0 n x d" "wf_fs d0" "p \<noteq> resolve (tcp_final n)"
  shows "file_at d p = file_at d0 p"
proof (cases "names d0 p")
  case (Some i)
  with assms(2) have "i \<noteq> fresh d0" by (auto simp: wf_fs_def)
  with Some assms show ?thesis by (simp add: tcp_stored_def file_at_def)
qed (use assms in \<open>simp add: tcp_stored_def file_at_def\<close>)

text \<open>strcat on a buffer that holds x and is zero behind it.\<close>

lemma strcat_canon:
  assumes "0 \<notin> set x" "length x < N"
  shows "strcat (x @ bzero (N - length x)) y =
    (if length x + length y < N then Some ((x @ y) @ bzero (N - length (x @ y))) else None)"
proof -
  have z: "bzero (N - length x) = 0 # bzero (N - Suc (length x))"
    using assms(2) by (simp add: bzero_def Suc_diff_Suc flip: replicate_Suc)
  have c: "cstr (x @ bzero (N - length x)) = x" unfolding z by (rule cstr_append_zero) fact
  have t: "terminated (x @ bzero (N - length x))" unfolding z by (simp add: terminated_def)
  have l: "length (x @ bzero (N - length x)) = N" using assms(2) by simp
  have "0 # drop (Suc (length x + length y)) (x @ bzero (N - length x)) = bzero (N - length (x @ y))"
    if "length x + length y < N"
  proof -
    have "drop (Suc (length x + length y)) (x @ bzero (N - length x)) = bzero (N - Suc (length x + length y))"
      by (simp add: bzero_def)
    then show ?thesis using that by (simp add: bzero_def Suc_diff_Suc flip: replicate_Suc)
  qed
  then show ?thesis unfolding strcat_eq c l using t by simp
qed

text \<open>Building the mv command in a buffer of 64 bytes.\<close>

lemma mv_command:
  assumes "0 \<notin> set a" "0 \<notin> set b"
  shows "tcp_systemcmd a b =
    (if length a + length b < 60
     then Some ((cs ''mv '' @ a @ cs '' '' @ b) @ bzero (60 - (length a + length b))) else None)"
proof -
  have z: "0 \<notin> set (cs ''mv '')" "0 \<notin> set (cs '' '')" "length (cs ''mv '') = 3" "length (cs '' '') = 1"
    by (simp_all add: cs_def of_char_def)
  have s1: "strcat (bzero 64) (cs ''mv '') = Some (cs ''mv '' @ bzero (64 - length (cs ''mv '')))"
    using strcat_canon [of "[]" 64 "cs ''mv ''"] z by simp
  note s2 = strcat_canon [of "cs ''mv ''" 64 a]
  note s3 = strcat_canon [of "cs ''mv '' @ a" 64 "cs '' ''"]
  note s4 = strcat_canon [of "(cs ''mv '' @ a) @ cs '' ''" 64 b]
  consider "length a < 60" | "length a = 60" | "60 < length a" by linarith
  then show ?thesis
    by cases (use s2 s3 s4 z assms in \<open>auto simp: tcp_systemcmd_def s1\<close>)
qed

text \<open>The disk with the temporary file, opened with descriptor i; and when it has been filled and closed.\<close>

definition tcp_open_disk :: "bytes \<Rightarrow> nat \<Rightarrow> fs \<Rightarrow> fs" where
  "tcp_open_disk n i d = d\<lparr>names := (names d)(resolve (tcp_part n) \<mapsto> fresh d), inode := (inode d)(fresh d := []),
     fresh := Suc (fresh d), fds := (fds d)[i := File (fresh d) 0]\<rparr>"

definition tcp_received :: "fs \<Rightarrow> bytes \<Rightarrow> bytes \<Rightarrow> fs \<Rightarrow> bool" where
  "tcp_received d0 n x d \<longleftrightarrow>
     names d = (names d0)(resolve (tcp_part n) \<mapsto> fresh d0) \<and> inode d (fresh d0) = x \<and>
     (\<forall>i. i \<noteq> fresh d0 \<longrightarrow> inode d i = inode d0 i) \<and> fresh d = Suc (fresh d0) \<and>
     dirs d = dirs d0 \<and> free_fds d = free_fds d0 \<and> room d + length x = room d0"

definition tcp_paths :: "bytes \<Rightarrow> tcp_server \<Rightarrow> bool" where
  "tcp_paths n s \<longleftrightarrow> terminated (t_file_path s) \<and> cstr (t_file_path s) = tcp_final n \<and>
     terminated (t_file_path_back s) \<and> cstr (t_file_path_back s) = tcp_part n"

lemma tcp_resolve_paths:
  assumes "plain n"
  shows "resolve (tcp_part n) = [cs ''picture'', n @ cs ''.filepart'']" "resolve (tcp_final n) = [cs ''picture'', n]"
    "n @ cs ''.filepart'' \<noteq> n" "tcp_part n \<noteq> []" "last (tcp_part n) \<noteq> slash"
  using resolve_picture [OF assms] resolve_picture [OF plain_filepart [OF assms]]
  by (simp_all add: tcp_part_def tcp_final_def) (simp_all add: cs_def of_char_def)

lemma tcp_received_other:
  assumes "tcp_received d0 n x d" "wf_fs d0" "p \<noteq> resolve (tcp_part n)"
  shows "file_at d p = file_at d0 p"
proof (cases "names d0 p")
  case (Some i)
  with assms(2) have "i \<noteq> fresh d0" by (auto simp: wf_fs_def)
  with Some assms show ?thesis by (simp add: tcp_received_def file_at_def)
qed (use assms in \<open>simp add: tcp_received_def file_at_def\<close>)

lemma tcp_opened:
  assumes "plain n" "tcp_disk_ready n L d"
  obtains i where "open_wronly_creat (tcp_part n) d = (int i, tcp_open_disk n i d)"
    "filling (tcp_open_disk n i d) (fresh d) (int i) [] (tcp_open_disk n i d)"
    "Suc (free_fds (tcp_open_disk n i d)) = free_fds d"
proof -
  note rp = tcp_resolve_paths [OF assms(1)]
  let ?ino = "fresh d" and ?part = "[cs ''picture'', n @ cs ''.filepart'']"
  let ?d1 = "d\<lparr>names := (names d)(?part \<mapsto> ?ino), inode := (inode d)(?ino := []), fresh := Suc ?ino\<rparr>"
  have rd: "dirs d [cs ''picture'']" "names d ?part = None" "\<not> dirs d ?part" "1 \<le> free_fds d"
    using assms(2) by (simp_all add: tcp_disk_ready_def rp)
  have "0 < free_fds ?d1" using rd(4) by (simp add: free_fds_def del: length_greater_0_conv)
  then obtain i where nf: "new_fd (File ?ino 0) ?d1 = (int i, ?d1\<lparr>fds := (fds ?d1)[i := File ?ino 0]\<rparr>)"
    "i < length (fds ?d1)" "Suc (free_fds (?d1\<lparr>fds := (fds ?d1)[i := File ?ino 0]\<rparr>)) = free_fds ?d1"
    by (rule new_fd_ok [where e = "File ?ino 0"]) auto
  have e: "?d1\<lparr>fds := (fds ?d1)[i := File ?ino 0]\<rparr> = tcp_open_disk n i d" by (simp add: tcp_open_disk_def rp(1))
  have "0 < length (filter (\<lambda>e. e = Free) (fds d))" using rd(4) unfolding free_fds_def by linarith
  from first_free_ex [OF this] have "first_free (fds d) \<noteq> None" by blast
  then have "open_wronly_creat (tcp_part n) d = (int i, tcp_open_disk n i d)"
    using rp rd nf(1) unfolding e by (simp add: open_wronly_creat_def)
  moreover have "filling (tcp_open_disk n i d) (fresh d) (int i) [] (tcp_open_disk n i d)"
    using nf(2) by (simp add: filling_def fd_of_def tcp_open_disk_def)
  moreover have "Suc (free_fds (tcp_open_disk n i d)) = free_fds d" using nf(3) unfolding e by (simp add: free_fds_def)
  ultimately show thesis by (rule that)
qed

lemma filter_free_update:
  "i < length xs \<Longrightarrow> xs ! i \<noteq> Free \<Longrightarrow>
   length (filter (\<lambda>e. e = Free) (xs[i := Free])) = Suc (length (filter (\<lambda>e. e = Free) xs))"
proof (induction xs arbitrary: i)
  case (Cons x xs)
  then show ?case by (cases i) auto
qed simp

lemma tcp_closed:
  assumes f: "filling (tcp_open_disk n i d0) (fresh d0) k x d" and free: "Suc (free_fds (tcp_open_disk n i d0)) = free_fds d0"
  shows "tcp_received d0 n x (close_fd k d)"
proof -
  have "fd_of d k = File (fresh d0) (length x)" "0 \<le> k" using f by (simp_all add: filling_def)
  then have "nat k < length (fds d)" "fds d ! nat k \<noteq> Free" "0 \<le> k" by (auto simp: fd_of_def split: if_splits)
  then have "free_fds (close_fd k d) = Suc (free_fds d)"
    by (simp add: close_fd_def free_fds_def filter_free_update)
  with f free show ?thesis
    by (simp add: tcp_received_def filling_def close_fd_def free_fds_def) (simp add: tcp_open_disk_def)
qed

text \<open>What the handler does when the bytes of the file have been received.\<close>

definition tcp_after_stream :: "'c openssl \<Rightarrow> shell \<Rightarrow> (tcp_server \<times> read_result list) outcome \<Rightarrow>
    (tcp_server \<times> read_result list) outcome option" where
  "tcp_after_stream ossl sh r = (case r of
     Blocked \<Rightarrow> Some Blocked
   | Done (s, rs) \<Rightarrow> do {
       (t, s) \<leftarrow> check_and_move ossl sh (s\<lparr>t_disk := close_fd (t_fd s) (t_disk s)\<rparr>);
       let s = send_head (s\<lparr>t_file_path_back := bzero TCP_NAME_LEN, t_file_path := bzero TCP_NAME_LEN,
                 t_buf := set_head (of_nat (cmd_code CMD_SEND_FINISH)) t (t_buf s)\<rparr>);
       Some (Done (s, rs))
     })"

text \<open>The announcement: the temporary file is opened and the answer sent; the rest depends on the stream.\<close>

lemma tcp_announced:
  assumes paths: "t_file_path s = bzero 64" "t_file_path_back s = bzero 64"
    and m: "message_of (t_buf s) = Some m" "m_cmd m = of_nat (cmd_code CMD_SEND_FILEMSG_REQ)"
    and fb: "tcp_fileblock_of (m_buf m) = Some fb" "terminated (t_file_name fb)" "cstr (t_file_name fb) = n"
    and n: "plain n" "length n \<le> 15" and disk: "tcp_disk_ready n L (t_disk s)"
  obtains s1 i where "tcp_cmd_reqsend_deel ossl sh rs s = tcp_after_stream ossl sh (recv_file rs 0 s1)"
    "tcp_paths n s1" "t_Filemsg s1 = fb" "t_sent s1 = t_sent s @ [ack CMD_SEND_FILEMSG_REQ ACK_OK]"
    "filling (tcp_open_disk n i (t_disk s)) (fresh (t_disk s)) (t_fd s1) [] (t_disk s1)"
    "Suc (free_fds (tcp_open_disk n i (t_disk s))) = free_fds (t_disk s)"
proof -
  from n(1) have n0: "0 \<notin> set n" by (simp add: plain_def)
  obtain p1 where p1: "strcat (bzero 64) TCP_PICTUREPATH = Some p1" "cstr p1 = TCP_PICTUREPATH"
    "terminated p1" "length p1 = 64"
    by (rule strcat_Some [of "bzero 64" TCP_PICTUREPATH]) (simp_all add: tcp_path_facts(1,2))
  obtain p2 where p2: "strcat p1 n = Some p2" "cstr p2 = tcp_final n" "terminated p2" "length p2 = 64"
    by (rule strcat_Some [of p1 n]) (use p1 n n0 in \<open>simp_all add: tcp_path_facts(1,2) tcp_final_def\<close>)
  obtain p3 where p3: "strcat p2 (cs ''.filepart'') = Some p3" "cstr p3 = tcp_part n" "terminated p3"
    by (rule strcat_Some [of p2 "cs ''.filepart''"])
      (use p2 n filepart_facts in \<open>simp_all add: tcp_path_facts(1,2) tcp_final_def tcp_part_def\<close>)
  obtain i where o: "open_wronly_creat (tcp_part n) (t_disk s) = (int i, tcp_open_disk n i (t_disk s))"
    "filling (tcp_open_disk n i (t_disk s)) (fresh (t_disk s)) (int i) [] (tcp_open_disk n i (t_disk s))"
    "Suc (free_fds (tcp_open_disk n i (t_disk s))) = free_fds (t_disk s)"
    by (rule tcp_opened [OF n(1) disk])
  define s1 where "s1 = send_head (s\<lparr>t_Filemsg := fb, t_file_path := p2, t_file_path_back := p3, t_fd := int i,
               t_disk := tcp_open_disk n i (t_disk s), t_buf := set_head (m_cmd m) ACK_OK (t_buf s)\<rparr>)"
  show thesis
  proof (rule that [of s1 i])
    show "t_sent s1 = t_sent s @ [ack CMD_SEND_FILEMSG_REQ ACK_OK]"
      using m(2) by (simp add: send_head_def s1_def set_head_def ack_def header_eq)
    show "tcp_cmd_reqsend_deel ossl sh rs s = tcp_after_stream ossl sh (recv_file rs 0 s1)"
      unfolding s1_def tcp_after_stream_def using paths m(1) fb p1(1) p2(1) p3(1,2) o(1)
      by (simp add: tcp_cmd_reqsend_deel_def del: tcp_sizes)
  qed (use p2(2,3) p3(2,3) o(2,3) in \<open>simp_all add: s1_def send_head_def tcp_paths_def\<close>)
qed

context udp_environment
begin

text \<open>The command that the shell gets.\<close>

lemma tcp_mv:
  assumes n: "plain n" "\<forall>c \<in> set n. safe_char c" "length n \<le> 15"
    and d: "names d (resolve (tcp_part n)) = Some ino" "dirs d [cs ''picture'']" "\<not> dirs d (resolve (tcp_part n))"
      "\<not> dirs d (resolve (tcp_final n))"
  obtains cmd where "tcp_systemcmd (tcp_part n) (tcp_final n) = Some cmd"
    "sh (cstr cmd) d = d\<lparr>names := ((names d)(resolve (tcp_part n) := None))(resolve (tcp_final n) \<mapsto> ino)\<rparr>"
proof -
  note rp = tcp_resolve_paths [OF n(1)]
  from n(1) have n0: "0 \<notin> set n" by (simp add: plain_def)
  have lens: "length (tcp_part n) + length (tcp_final n) < 60" "0 \<notin> set (tcp_part n)" "0 \<notin> set (tcp_final n)"
    using n n0 filepart_facts tcp_path_facts by (simp_all add: tcp_part_def tcp_final_def)
  define cmd where "cmd = (cs ''mv '' @ tcp_part n @ cs '' '' @ tcp_final n) @
      bzero (60 - (length (tcp_part n) + length (tcp_final n)))"
  have c: "tcp_systemcmd (tcp_part n) (tcp_final n) = Some cmd"
    using mv_command [OF lens(2,3)] lens(1) by (simp only: cmd_def if_True)
  have "bzero (60 - (length (tcp_part n) + length (tcp_final n))) =
      0 # bzero (59 - (length (tcp_part n) + length (tcp_final n)))"
    using lens(1) by (simp add: bzero_def Suc_diff_Suc flip: replicate_Suc)
  then have cc: "cstr cmd = cs ''mv '' @ tcp_part n @ cs '' '' @ tcp_final n"
    unfolding cmd_def using lens(2,3)
    by (simp only: cstr_append_zero) (rule cstr_append_zero, simp add: cs_def of_char_def)
  have sp: "safe_path (tcp_part n)" "safe_path (tcp_final n)"
    using n(2) by (auto simp: safe_path_def tcp_part_def tcp_final_def TCP_PICTUREPATH_def cs_def
        of_char_def safe_char_def)
  have "snd (rename (tcp_part n) (tcp_final n) d) =
      d\<lparr>names := ((names d)(resolve (tcp_part n) := None))(resolve (tcp_final n) \<mapsto> ino)\<rparr>"
    using d rp by (simp add: rename_def)
  then show thesis using that [OF c] mv [OF sp d(4)] cc by simp
qed

lemma tcp_checked:
  assumes r: "tcp_received d0 n x (t_disk s)" and p: "tcp_paths n s"
    and n: "plain n" "\<forall>c \<in> set n. safe_char c" "length n \<le> 15" and disk: "tcp_disk_ready n L d0"
  shows "\<exists>d. check_and_move ossl sh s = Some (if digest x = t_md5 (t_Filemsg s) then (ACK_OK, s\<lparr>t_disk := d\<rparr>) else (ACK_FAIL, s)) \<and>
    tcp_stored d0 n x d"
proof -
  note rp = tcp_resolve_paths [OF n(1)]
  let ?d = "t_disk s" and ?part = "resolve (tcp_part n)" and ?final = "resolve (tcp_final n)"
  from r disk have D: "1 \<le> free_fds ?d" "names ?d ?part = Some (fresh d0)" "\<not> dirs ?d ?part" "\<not> dirs ?d ?final"
    "inode ?d (fresh d0) = x" "dirs ?d [cs ''picture'']"
    by (simp_all add: tcp_received_def tcp_disk_ready_def)
  have md: "MD5_file_ossl ossl (tcp_part n) (bzero 16) ?d = Some (0, digest x, ?d)"
    using MD5_file_ossl_ok [of "tcp_part n" ?d "fresh d0" "bzero 16"] D rp(4) by simp
  obtain cmd where c: "tcp_systemcmd (tcp_part n) (tcp_final n) = Some cmd"
    "sh (cstr cmd) ?d = ?d\<lparr>names := ((names ?d)(?part := None))(?final \<mapsto> fresh d0)\<rparr>"
    by (rule tcp_mv [OF n D(2,6,3,4)])
  let ?d5 = "?d\<lparr>names := ((names ?d)(?part := None))(?final \<mapsto> fresh d0)\<rparr>"
  have "check_and_move ossl sh s =
      Some (if digest x = t_md5 (t_Filemsg s) then (ACK_OK, s\<lparr>t_disk := ?d5\<rparr>) else (ACK_FAIL, s))"
    using md c p by (simp add: check_and_move_def tcp_paths_def Let_def)
  moreover have "names d0 ?part = None" using disk by (simp add: tcp_disk_ready_def)
  then have "((names ?d)(?part := None))(?final \<mapsto> fresh d0) = (names d0)(?final \<mapsto> fresh d0)"
    using r rp(1-3) by (auto simp: tcp_received_def fun_eq_iff)
  then have "tcp_stored d0 n x ?d5" using r by (simp add: tcp_stored_def tcp_received_def free_fds_def)
  ultimately show ?thesis by blast
qed

lemma tcp_decided:
  assumes paths: "t_file_path s = bzero 64" "t_file_path_back s = bzero 64"
    and m: "message_of (t_buf s) = Some m" "m_cmd m = of_nat (cmd_code CMD_SEND_FILEMSG_REQ)"
    and fb: "tcp_fileblock_of (m_buf m) = Some fb" "terminated (t_file_name fb)" "cstr (t_file_name fb) = n"
    and n: "plain n" "\<forall>c \<in> set n. safe_char c" "length n \<le> 15"
    and rs: "stream_data (unat (t_file_length fb)) rs = Some (x, rest)" "length x < 2 ^ 32"
    and disk: "tcp_disk_ready n (length x) (t_disk s)"
  shows "\<exists>s'. tcp_cmd_reqsend_deel ossl sh rs s = Some (Done (s', rest)) \<and>
    (if digest x = t_md5 fb then tcp_stored (t_disk s) n x (t_disk s') else tcp_received (t_disk s) n x (t_disk s')) \<and>
    t_sent s' = t_sent s @ [ack CMD_SEND_FILEMSG_REQ ACK_OK, ack CMD_SEND_FINISH (if digest x = t_md5 fb then ACK_OK else ACK_FAIL)] \<and>
    t_file_path s' = bzero 64 \<and> t_file_path_back s' = bzero 64"
proof -
  obtain s1 i where s1: "tcp_cmd_reqsend_deel ossl sh rs s = tcp_after_stream ossl sh (recv_file rs 0 s1)"
    "tcp_paths n s1" "t_Filemsg s1 = fb" "t_sent s1 = t_sent s @ [ack CMD_SEND_FILEMSG_REQ ACK_OK]"
    "filling (tcp_open_disk n i (t_disk s)) (fresh (t_disk s)) (t_fd s1) [] (t_disk s1)"
    "Suc (free_fds (tcp_open_disk n i (t_disk s))) = free_fds (t_disk s)"
    by (rule tcp_announced [OF paths m fb n(1,3) disk])
  have "length ([] :: bytes) + length x \<le> room (tcp_open_disk n i (t_disk s))" "length ([] :: bytes) + length x < 2 ^ 32"
    using disk rs(2) by (simp_all add: tcp_disk_ready_def tcp_open_disk_def)
  from recv_file_stream [OF s1(5) _ this, of rs rest] rs(1) obtain d b where
    rf: "recv_file rs 0 s1 = Done (s1\<lparr>t_disk := d, t_buf := b\<rparr>, rest)"
    "filling (tcp_open_disk n i (t_disk s)) (fresh (t_disk s)) (t_fd s1) x d"
    by (auto simp: s1(3))
  let ?s2 = "s1\<lparr>t_disk := close_fd (t_fd s1) d, t_buf := b\<rparr>"
  have s2: "(s1\<lparr>t_disk := d, t_buf := b\<rparr>)\<lparr>t_disk := close_fd (t_fd (s1\<lparr>t_disk := d, t_buf := b\<rparr>)) (t_disk (s1\<lparr>t_disk := d, t_buf := b\<rparr>))\<rparr> = ?s2"
    by simp
  have "tcp_received (t_disk s) n x (t_disk ?s2)" "tcp_paths n ?s2"
    using tcp_closed [OF rf(2) s1(6)] s1(2) by (simp_all add: tcp_paths_def)
  from tcp_checked [OF this n disk] obtain d' where
    ck: "check_and_move ossl sh ?s2 = Some (if digest x = t_md5 fb then (ACK_OK, ?s2\<lparr>t_disk := d'\<rparr>) else (ACK_FAIL, ?s2))"
    "tcp_stored (t_disk s) n x d'"
    by (auto simp: s1(3))
  show ?thesis
    unfolding s1(1) rf(1) tcp_after_stream_def outcome.case prod.case s2 ck(1)
    using ck(2) tcp_closed [OF rf(2) s1(6)] s1(4)
    by (cases "digest x = t_md5 fb") (simp_all add: send_head_def set_head_def ack_def header_eq)
qed

lemma tcp_transfer_ok:
  assumes paths: "t_file_path s = bzero 64" "t_file_path_back s = bzero 64"
    and m: "message_of (t_buf s) = Some m" "m_cmd m = of_nat (cmd_code CMD_SEND_FILEMSG_REQ)"
    and fb: "tcp_fileblock_of (m_buf m) = Some fb" "terminated (t_file_name fb)" "cstr (t_file_name fb) = n"
    and n: "plain n" "\<forall>c \<in> set n. safe_char c" "length n \<le> 15"
    and disk: "tcp_disk_ready n (unat (t_file_length fb)) (t_disk s)"
    and data: "[] \<notin> set bss" "bss \<noteq> []" "length (concat bss) = unat (t_file_length fb)"
    and m5: "t_md5 fb = digest (concat bss)"
  shows "\<exists>s'. tcp_cmd_reqsend_deel ossl sh (map Read bss @ rest) s = Some (Done (s', rest)) \<and>
    tcp_stored (t_disk s) n (concat bss) (t_disk s') \<and>
    t_sent s' = t_sent s @ [ack CMD_SEND_FILEMSG_REQ ACK_OK, ack CMD_SEND_FINISH ACK_OK] \<and>
    t_file_path s' = bzero 64 \<and> t_file_path_back s' = bzero 64"
proof -
  have "length (concat bss) < 2 ^ 32" unfolding data(3) by (rule u32_bound)
  from tcp_decided [OF paths m fb n stream_data_pieces [OF data, of rest] this disk [folded data(3)]] m5
  show ?thesis by simp
qed

end

section \<open>Properties\<close>

text \<open>A file announced to the tcp server and sent in any non-empty pieces, whose lengths add up to the
  announced length and whose digest is the announced one, is stored under its name; the
  descriptor is closed, the part file is gone and the path buffers are clear for the next file.
  The name is one plain component of at most 15 characters.\<close>

theorem tcp_transfer:
  assumes env: "udp_environment ossl okctx repr digest limit sh"
    and paths: "t_file_path s = bzero 64" "t_file_path_back s = bzero 64"
    and m: "message_of (t_buf s) = Some m" "m_cmd m = of_nat (cmd_code CMD_SEND_FILEMSG_REQ)"
    and fb: "tcp_fileblock_of (m_buf m) = Some fb" "terminated (t_file_name fb)" "cstr (t_file_name fb) = n"
    and n: "plain n" "\<forall>c \<in> set n. safe_char c" "length n \<le> 15"
    and disk: "tcp_disk_ready n (unat (t_file_length fb)) (t_disk s)"
    and data: "[] \<notin> set bss" "bss \<noteq> []" "length (concat bss) = unat (t_file_length fb)"
    and m5: "t_md5 fb = digest (concat bss)"
  shows "\<exists>s'. tcp_cmd_reqsend_deel ossl sh (map Read bss @ rest) s = Some (Done (s', rest)) \<and>
    file_at (t_disk s') (resolve (tcp_final n)) = Some (concat bss) \<and>
    names (t_disk s') (resolve (tcp_part n)) = None \<and> free_fds (t_disk s') = free_fds (t_disk s) \<and>
    t_file_path s' = bzero 64 \<and> t_file_path_back s' = bzero 64"
proof -
  have "names (t_disk s) (resolve (tcp_part n)) = None" "resolve (tcp_part n) \<noteq> resolve (tcp_final n)"
    using disk resolve_picture [OF n(1)] resolve_picture [OF plain_filepart [OF n(1)]]
    by (simp_all add: tcp_disk_ready_def tcp_part_def tcp_final_def) (simp add: cs_def)
  then show ?thesis
    using udp_environment.tcp_transfer_ok [OF assms, of rest]
    by (auto simp: tcp_stored_def tcp_stored_file)
qed

definition picture_disk :: fs where
  "picture_disk = \<lparr>names = (\<lambda>p. None), dirs = (\<lambda>p. p = [cs ''picture'']), inode = (\<lambda>i. []),
     mtime = (\<lambda>i. 0), fresh = 0, room = 1000, fds = replicate 8 Free\<rparr>"

text \<open>A server that has just received the announcement of three bytes with the digest dg.\<close>

definition announced_block :: "bytes \<Rightarrow> tcp_fileblock" where
  "announced_block dg = \<lparr>t_file_name = cs ''a'' @ bzero 63, t_md5 = dg, t_file_length = 3\<rparr>"

definition announced_message :: "bytes \<Rightarrow> Message_t" where
  "announced_message dg = \<lparr>m_cmd = of_nat (cmd_code CMD_SEND_FILEMSG_REQ), m_type = of_nat (type_code REQ_NOR),
     m_buf_len = 84, m_buf = bytes_of_tcp_fileblock (announced_block dg) @ bzero 1964\<rparr>"

definition announced_with :: "bytes \<Rightarrow> tcp_server" where
  "announced_with dg = \<lparr>t_Filemsg = announced_block dg, t_fd = 0, t_file_path = bzero 64, t_file_path_back = bzero 64,
      t_buf = bytes_of_message (announced_message dg), t_disk = picture_disk, t_sent = []\<rparr>"

abbreviation announced :: tcp_server where
  "announced \<equiv> announced_with (md5_digest [1, 2, 3])"

lemma name_a_facts:
  "0 \<notin> set (cs ''a'')" "length (cs ''a'') = 1" "plain (cs ''a'')" "\<forall>c \<in> set (cs ''a''). safe_char c"
  by (simp_all add: cs_def of_char_def plain_def safe_char_def)

lemma path_a:
  "resolve (tcp_final (cs ''a'')) = [cs ''picture'', cs ''a'']"
  "resolve (tcp_part (cs ''a'')) = [cs ''picture'', cs ''a'' @ cs ''.filepart'']"
  using tcp_resolve_paths [OF name_a_facts(3)] by simp_all

lemma announced_ok:
  assumes "length dg = 16"
  shows "t_file_path (announced_with dg) = bzero 64" "t_file_path_back (announced_with dg) = bzero 64"
    "message_of (t_buf (announced_with dg)) = Some (announced_message dg)"
    "m_cmd (announced_message dg) = of_nat (cmd_code CMD_SEND_FILEMSG_REQ)"
    "tcp_fileblock_of (m_buf (announced_message dg)) = Some (announced_block dg)"
    "terminated (t_file_name (announced_block dg))" "cstr (t_file_name (announced_block dg)) = cs ''a''"
    "unat (t_file_length (announced_block dg)) = 3" "t_md5 (announced_block dg) = dg"
    "tcp_disk_ready (cs ''a'') 3 (t_disk (announced_with dg))" "t_disk (announced_with dg) = picture_disk"
proof -
  note a = name_a_facts
  have z: "bzero 63 = 0 # bzero 62" by (simp add: bzero_def numeral_eq_Suc)
  show "message_of (t_buf (announced_with dg)) = Some (announced_message dg)"
    by (simp add: announced_with_def announced_message_def message_of_bytes)
  have "length (t_file_name (announced_block dg)) = 64" "length (t_md5 (announced_block dg)) = 16"
    using a(2) assms by (simp_all add: announced_block_def)
  then show "tcp_fileblock_of (m_buf (announced_message dg)) = Some (announced_block dg)"
    by (simp add: announced_message_def tcp_fileblock_roundtrip)
  show "terminated (t_file_name (announced_block dg))" "cstr (t_file_name (announced_block dg)) = cs ''a''"
    using a(1) by (simp_all add: announced_block_def terminated_def z cstr_append_zero)
  show "tcp_disk_ready (cs ''a'') 3 (t_disk (announced_with dg))"
    by (simp add: tcp_disk_ready_def path_a announced_with_def picture_disk_def free_fds_def)
qed (simp_all add: announced_with_def announced_message_def announced_block_def)

theorem tcp_transfer_witness:
  "\<exists>s'. tcp_cmd_reqsend_deel md5c_openssl mv_shell (map Read [[1], [2, 3]] @ []) announced = Some (Done (s', [])) \<and>
     file_at (t_disk s') [cs ''picture'', cs ''a''] = Some [1, 2, 3]"
proof -
  have l: "length (md5_digest [1, 2, 3]) = 16" by (rule md5o.digest_length)
  note ok = announced_ok [OF l]
  have d: "length (cs ''a'') \<le> 15" "[] \<notin> set [[1], [2, 3 :: u8]]" "[[1], [2, 3 :: u8]] \<noteq> []"
    "length (concat [[1], [2, 3 :: u8]]) = unat (t_file_length (announced_block (md5_digest [1, 2, 3])))"
    "t_md5 (announced_block (md5_digest [1, 2, 3])) = md5_digest (concat [[1], [2, 3]])"
    by (simp_all add: ok(8,9) name_a_facts(2))
  from tcp_transfer [OF md5_udp.udp_environment_axioms ok(1-7) name_a_facts(3,4) d(1) ok(10) [folded ok(8)] d(2-5), of "[]"]
  show ?thesis by (auto simp: path_a)
qed

text \<open>C37. The integrity of a transfer over tcp. x are the bytes that the server takes from the stream: pieces
  until there are as many bytes as announced, and so more when a piece goes beyond them, or fewer when
  the peer closes or recv fails before. When their digest is the announced one, exactly they are put in
  place; otherwise the temporary file stays, every other file, an older one of the same name included,
  is as it was, and the answer says so. The descriptor is closed and the paths are clear in both cases.\<close>

theorem tcp_integrity:
  assumes env: "udp_environment ossl okctx repr digest limit sh"
    and paths: "t_file_path s = bzero 64" "t_file_path_back s = bzero 64"
    and m: "message_of (t_buf s) = Some m" "m_cmd m = of_nat (cmd_code CMD_SEND_FILEMSG_REQ)"
    and fb: "tcp_fileblock_of (m_buf m) = Some fb" "terminated (t_file_name fb)" "cstr (t_file_name fb) = n"
    and n: "plain n" "\<forall>c \<in> set n. safe_char c" "length n \<le> 15"
    and rs: "stream_data (unat (t_file_length fb)) rs = Some (x, rest)" "length x < 2 ^ 32"
    and disk: "tcp_disk_ready n (length x) (t_disk s)" "wf_fs (t_disk s)"
  shows "\<exists>s'. tcp_cmd_reqsend_deel ossl sh rs s = Some (Done (s', rest)) \<and>
    (let final = resolve (tcp_final n); part = resolve (tcp_part n) in
     (if digest x = t_md5 fb
      then file_at (t_disk s') final = Some x \<and> file_at (t_disk s') part = None \<and>
        last (t_sent s') = ack CMD_SEND_FINISH ACK_OK
      else file_at (t_disk s') final = file_at (t_disk s) final \<and> file_at (t_disk s') part = Some x \<and>
        last (t_sent s') = ack CMD_SEND_FINISH ACK_FAIL) \<and>
     (\<forall>p. p \<noteq> final \<longrightarrow> p \<noteq> part \<longrightarrow> file_at (t_disk s') p = file_at (t_disk s) p)) \<and>
    free_fds (t_disk s') = free_fds (t_disk s) \<and> t_file_path s' = bzero 64 \<and> t_file_path_back s' = bzero 64"
proof -
  have ne: "resolve (tcp_part n) \<noteq> resolve (tcp_final n)" using tcp_resolve_paths [OF n(1)] by simp
  have none: "names (t_disk s) (resolve (tcp_part n)) = None" using disk(1) by (simp add: tcp_disk_ready_def)
  from udp_environment.tcp_decided [OF env paths m fb n rs disk(1)] obtain s' where
    s': "tcp_cmd_reqsend_deel ossl sh rs s = Some (Done (s', rest))"
    "if digest x = t_md5 fb then tcp_stored (t_disk s) n x (t_disk s') else tcp_received (t_disk s) n x (t_disk s')"
    "t_sent s' = t_sent s @ [ack CMD_SEND_FILEMSG_REQ ACK_OK, ack CMD_SEND_FINISH (if digest x = t_md5 fb then ACK_OK else ACK_FAIL)]"
    "t_file_path s' = bzero 64" "t_file_path_back s' = bzero 64" by blast
  show ?thesis
  proof (cases "digest x = t_md5 fb")
    case True
    then have st: "tcp_stored (t_disk s) n x (t_disk s')" using s'(2) by simp
    have "file_at (t_disk s') (resolve (tcp_part n)) = None" "free_fds (t_disk s') = free_fds (t_disk s)"
      using st ne none by (simp_all add: tcp_stored_def file_at_def)
    then show ?thesis using True s' tcp_stored_file [OF st] tcp_stored_other [OF st disk(2)] by (simp add: Let_def)
  next
    case False
    then have st: "tcp_received (t_disk s) n x (t_disk s')" using s'(2) by simp
    have "file_at (t_disk s') (resolve (tcp_part n)) = Some x" "free_fds (t_disk s') = free_fds (t_disk s)"
      using st by (simp_all add: tcp_received_def file_at_def)
    then show ?thesis using False s' tcp_received_other [OF st disk(2)] ne by (simp add: Let_def)
  qed
qed

text \<open>Two runs: the bytes arrive in two pieces; and the peer closes after the first.\<close>

theorem tcp_integrity_witness:
  "\<exists>s1 s2. tcp_cmd_reqsend_deel md5c_openssl mv_shell [Read [1], Read [2, 3], Read [9]] announced = Some (Done (s1, [Read [9]])) \<and>
     file_at (t_disk s1) [cs ''picture'', cs ''a''] = Some [1, 2, 3] \<and>
     tcp_cmd_reqsend_deel md5c_openssl mv_shell [Read [1], Read []] (announced_with (map ((+) 1) (md5_digest [1]))) = Some (Done (s2, [])) \<and>
     file_at (t_disk s2) [cs ''picture'', cs ''a''] = None \<and> last (t_sent s2) = ack CMD_SEND_FINISH ACK_FAIL"
proof -
  let ?bad = "map ((+) 1) (md5_digest [1])"
  have l: "length (md5_digest [1, 2, 3]) = 16" "length ?bad = 16" using md5o.digest_length by simp_all
  have bad: "md5_digest [1] \<noteq> ?bad"
  proof
    assume e: "md5_digest [1] = ?bad"
    have "0 < length (md5_digest [1])" using md5o.digest_length [of "[1]"] by simp
    then have "md5_digest [1] ! 0 = 1 + md5_digest [1] ! 0" using arg_cong [OF e, of "\<lambda>l. l ! 0"] by simp
    then show False by simp
  qed
  have wf: "wf_fs picture_disk" by (simp add: wf_fs_def picture_disk_def)
  have n: "length (cs ''a'') \<le> 15" by (simp add: name_a_facts(2))
  note ok1 = announced_ok [OF l(1)] and ok2 = announced_ok [OF l(2)]
  have r: "stream_data (unat (t_file_length (announced_block (md5_digest [1, 2, 3])))) [Read [1], Read [2, 3], Read [9]] =
      Some ([1, 2, 3], [Read [9]])"
    "stream_data (unat (t_file_length (announced_block ?bad))) [Read [1], Read []] = Some ([1], [])"
    unfolding ok1(8) ok2(8) by simp_all
  have d: "tcp_disk_ready (cs ''a'') (length [1, 2, 3 :: u8]) (t_disk announced)"
    "tcp_disk_ready (cs ''a'') (length [1 :: u8]) (t_disk (announced_with ?bad))"
    using ok1(10) ok2(10) by (simp_all add: tcp_disk_ready_def numeral_3_eq_3)
  have w: "wf_fs (t_disk announced)" "wf_fs (t_disk (announced_with ?bad))" "length [1, 2, 3 :: u8] < 2 ^ 32" "length [1 :: u8] < 2 ^ 32"
    using wf by (simp_all add: ok1(11) ok2(11))
  have old: "file_at picture_disk p = None" for p by (simp add: file_at_def picture_disk_def)
  note run = tcp_integrity [OF md5_udp.udp_environment_axioms]
  from run [OF ok1(1-7) name_a_facts(3,4) n r(1) w(3) d(1) w(1)]
    run [OF ok2(1-7) name_a_facts(3,4) n r(2) w(4) d(2) w(2)] bad
  show ?thesis by (auto simp: Let_def path_a ok1(9) ok2(9,11) old)
qed

text \<open>C39. The command line for mv is put together in a buffer of 64 bytes: for a file that arrived intact
  the server writes behind that buffer exactly when the name has more than 15 characters,
  although the path buffers take names of up to 44.\<close>

theorem tcp_name_limit:
  assumes "MD5_file_ossl ossl (tcp_part n) (bzero 16) (t_disk s) = Some (r, t_md5 (t_Filemsg s), d)"
    and "terminated (t_file_path_back s)" "cstr (t_file_path_back s) = tcp_part n"
    and "terminated (t_file_path s)" "cstr (t_file_path s) = tcp_final n"
  shows "check_and_move ossl sh s = None \<longleftrightarrow> 15 < length n"
proof -
  have z: "0 \<notin> set (tcp_part n)" "0 \<notin> set (tcp_final n)"
    using cstr_no_zero [of "t_file_path_back s"] cstr_no_zero [of "t_file_path s"] assms(3,5) by auto
  have "length (tcp_part n) + length (tcp_final n) = 29 + 2 * length n"
    using tcp_path_facts(2) filepart_facts(3) by (simp add: tcp_part_def tcp_final_def)
  then show ?thesis
    using assms mv_command [OF z] by (auto simp: check_and_move_def Let_def)
qed

theorem tcp_name_limit_witness:
  "check_and_move md5c_openssl mv_shell
     (announced\<lparr>t_Filemsg := \<lparr>t_file_name = [], t_md5 = bzero 16, t_file_length = 0\<rparr>,
        t_file_path := TCP_PICTUREPATH @ replicate 16 0x61 @ bzero 38,
        t_file_path_back := TCP_PICTUREPATH @ replicate 16 0x61 @ cs ''.filepart'' @ bzero 29\<rparr>) = None"
proof -
  let ?n = "replicate 16 0x61 :: bytes"
  let ?s = "announced\<lparr>t_Filemsg := \<lparr>t_file_name = [], t_md5 = bzero 16, t_file_length = 0\<rparr>,
        t_file_path := TCP_PICTUREPATH @ replicate 16 0x61 @ bzero 38,
        t_file_path_back := TCP_PICTUREPATH @ replicate 16 0x61 @ cs ''.filepart'' @ bzero 29\<rparr>"
  have "length ?n = 16" by simp
  then have p: "plain ?n" by (auto simp: plain_def cs_def simp del: length_replicate)
  have r: "resolve (tcp_part ?n) = [cs ''picture'', ?n @ cs ''.filepart'']"
    using resolve_picture [OF plain_filepart [OF p]] by (simp add: tcp_part_def)
  have "open_rdonly (tcp_part ?n) picture_disk = (- 1, picture_disk)"
    by (simp add: open_rdonly_def r picture_disk_def)
  then have md: "MD5_file_ossl md5c_openssl (tcp_part ?n) (bzero 16) (t_disk ?s) =
      Some (- 1, t_md5 (t_Filemsg ?s), picture_disk)"
    by (simp add: MD5_file_ossl_def announced_with_def)
  have z: "bzero 38 = 0 # bzero 37" "bzero 29 = 0 # bzero 28" by (simp_all add: bzero_def numeral_eq_Suc)
  have "cstr ((TCP_PICTUREPATH @ ?n) @ 0 # bzero 37) = TCP_PICTUREPATH @ ?n"
    "cstr ((TCP_PICTUREPATH @ ?n @ cs ''.filepart'') @ 0 # bzero 28) = TCP_PICTUREPATH @ ?n @ cs ''.filepart''"
    by (rule cstr_append_zero; simp add: tcp_path_facts(1) filepart_facts(1))+
  then have "terminated (t_file_path_back ?s)" "cstr (t_file_path_back ?s) = tcp_part ?n"
    "terminated (t_file_path ?s)" "cstr (t_file_path ?s) = tcp_final ?n"
    by (simp_all add: tcp_part_def tcp_final_def z terminated_def)
  from tcp_name_limit [OF md this] show ?thesis by simp
qed

lemma send_pieces_file_reads:
  "0 < k \<Longrightarrow> concat (send_pieces (file_reads k d)) = d \<and>
    (\<forall>p \<in> set (send_pieces (file_reads k d)). p \<noteq> [] \<and> length p \<le> k)"
proof (induction k d rule: file_reads.induct)
  case (1 n d)
  show ?case
  proof (cases "d = []")
    case True
    then show ?thesis by (simp add: file_reads.simps)
  next
    case False
    then have "file_reads n d = Read (take n d) # file_reads n (drop n d)" "take n d \<noteq> []"
      using "1.prems" by (simp_all add: file_reads.simps [of n d])
    then show ?thesis using "1.IH" False "1.prems" by simp
  qed
qed

lemma request_sendfile_ok:
  assumes "tcp_request ossl path d = Some (req, d')" "open_rdonly path d' = (int k, d'')"
    and "fd_of d'' (int k) = File i 0"
  shows "\<exists>pieces. request_sendfile ossl (ack CMD_SEND_FILEMSG_REQ ACK_OK) (ack CMD_SEND_FINISH t) path d =
      Some (None, Some (t = ACK_OK), req # pieces) \<and>
    concat pieces = inode d'' i \<and> (\<forall>p \<in> set pieces. p \<noteq> [] \<and> length p \<le> 2048) \<and>
    (inode d'' i = [] \<longrightarrow> recv_file (map Read pieces) 0 s = Blocked)"
proof -
  let ?pieces = "send_pieces (file_reads TCP_BUF_MAX_LEN (inode d'' i))"
  have p: "concat ?pieces = inode d'' i \<and> (\<forall>p \<in> set ?pieces. p \<noteq> [] \<and> length p \<le> 2048)"
    using send_pieces_file_reads [of TCP_BUF_MAX_LEN "inode d'' i"] by simp
  have a: "\<exists>r. message_of (ack c t @ drop 8 (bzero TCP_MAXLINE)) = Some r \<and> m_cmd r = of_nat (cmd_code c) \<and>
      m_type r = of_nat (type_code t)" for c t
  proof -
    have "ack c t @ drop 8 (bzero TCP_MAXLINE) = bytes_of_message \<lparr>m_cmd = of_nat (cmd_code c),
        m_type = of_nat (type_code t), m_buf_len = 0, m_buf = drop 8 (bzero TCP_MAXLINE)\<rparr>"
      by (simp add: ack_def header_eq bytes_of_message_def)
    then show ?thesis by (simp add: message_of_bytes)
  qed
  have put: "mem_put (bzero TCP_MAXLINE) 0 (ack c t) = Some (ack c t @ drop 8 (bzero TCP_MAXLINE))" for c t
    using length_ack [of c t] by (simp add: mem_put_def)
  obtain r1 where r1: "message_of (ack CMD_SEND_FILEMSG_REQ ACK_OK @ drop 8 (bzero TCP_MAXLINE)) = Some r1"
    "m_cmd r1 = of_nat (cmd_code CMD_SEND_FILEMSG_REQ)" "m_type r1 = of_nat (type_code ACK_OK)"
    using a by blast
  obtain r2 where r2: "message_of (ack CMD_SEND_FINISH t @ drop 8 (bzero TCP_MAXLINE)) = Some r2"
    "m_cmd r2 = of_nat (cmd_code CMD_SEND_FINISH)" "m_type r2 = of_nat (type_code t)"
    using a by blast
  have code: "(of_nat (type_code t) :: u16) = of_nat (type_code ACK_OK) \<longleftrightarrow> t = ACK_OK"
    by (cases t) simp_all
  have tk: "take n (ack c t) = ack c t" if "8 \<le> n" for n c t
    using that length_ack [of c t] by simp
  have "request_sendfile ossl (ack CMD_SEND_FILEMSG_REQ ACK_OK) (ack CMD_SEND_FINISH t) path d =
      Some (None, Some (t = ACK_OK), req # ?pieces)"
    unfolding request_sendfile_def assms(1) bind.bind_lunit prod.case
    using assms(2,3) r1 r2 put code by (simp add: tk del: tcp_sizes) (simp add: tk put)
  moreover have "?pieces = []" if "inode d'' i = []" using that by (simp add: file_reads.simps)
  ultimately show ?thesis using p by (intro exI [of _ ?pieces]) auto
qed

text \<open>After the acknowledged announcement the tcp client sends exactly the bytes of the file, in non-empty
  pieces of at most 2048 bytes. For an empty file it sends nothing, and the server, which looks at
  the length only after a piece has arrived, waits for ever.\<close>

theorem tcp_client_sends_file:
  assumes "tcp_request ossl path d = Some (req, d')" "open_rdonly path d' = (int k, d'')"
    and "fd_of d'' (int k) = File i 0"
  shows "\<exists>pieces. request_sendfile ossl (ack CMD_SEND_FILEMSG_REQ ACK_OK) (ack CMD_SEND_FINISH t) path d =
      Some (None, Some (t = ACK_OK), req # pieces) \<and>
    concat pieces = inode d'' i \<and> (\<forall>p \<in> set pieces. p \<noteq> [] \<and> length p \<le> 2048) \<and>
    (inode d'' i = [] \<longrightarrow> recv_file (map Read pieces) 0 s = Blocked)"
  by (rule request_sendfile_ok) fact+

theorem tcp_client_sends_file_witness:
  "\<exists>req pieces. request_sendfile md5c_openssl (ack CMD_SEND_FILEMSG_REQ ACK_OK) (ack CMD_SEND_FINISH ACK_OK)
      (cs ''p/a'') client_disk = Some (None, Some True, req # pieces) \<and> concat pieces = [1, 2, 3]"
proof -
  have f: "names client_disk (resolve (cs ''p/a'')) = Some 0" "\<not> dirs client_disk (resolve (cs ''p/a''))"
    "1 \<le> free_fds client_disk" "inode client_disk 0 = [1, 2, 3]" "first_free (fds client_disk) = Some 0"
    "0 < length (fds client_disk)"
    by (simp_all add: client_disk_def empty_disk_def small_name free_fds_def numeral_eq_Suc)
  have n: "cs ''p/a'' \<noteq> []" "length (cs ''p/a'') < 64" by (simp_all add: cs_def)
  obtain req where req: "tcp_request md5c_openssl (cs ''p/a'') client_disk = Some (req, client_disk)"
    using md5o.MD5_file_ossl_ok [OF n(1) f(1-3), of "bzero 16"] n(2)
    by (simp add: tcp_request_def strcpy_eq Let_def)
  have o: "open_rdonly (cs ''p/a'') client_disk = (int 0, client_disk\<lparr>fds := (fds client_disk)[0 := File 0 0]\<rparr>)"
    using f n by (simp add: open_rdonly_def new_fd_def)
  from tcp_client_sends_file [OF req o, of 0 ACK_OK] f show ?thesis by (auto simp: fd_of_def)
qed

end
