(* ===== verification/Delivery.thy ===== *)
theory Delivery
  imports UdpTransfer UdpProps CString
begin

text \<open>
  Several files: successive runs of the udp client against one server.
\<close>

section \<open>Successive runs of the client\<close>

fun client_runs :: "'c openssl \<Rightarrow> (bytes \<Rightarrow> 'n \<Rightarrow> 'n option) \<Rightarrow> ('n \<Rightarrow> bytes option \<times> 'n) \<Rightarrow>
    fs \<Rightarrow> bytes list \<Rightarrow> 'n \<Rightarrow> 'n option" where
  "client_runs ossl usend urecv c [] net = Some net"
| "client_runs ossl usend urecv c (n # ns) net = do {
     (_, net) \<leftarrow> udp_client_main ossl usend urecv [cs ''udp-client'', n] c net;
     client_runs ossl usend urecv c ns net
   }"

text \<open>A name without directories that does not look like a temporary file.\<close>

definition simple_name :: "bytes \<Rightarrow> bool" where
  "simple_name n \<longleftrightarrow> good_name n \<and> slash \<notin> set n \<and> (\<forall>c \<in> set n. safe_char c) \<and>
     strstr n (cs ''filepart'') = None"

definition has_file :: "fs \<Rightarrow> bytes \<Rightarrow> bytes \<Rightarrow> bool" where
  "has_file c n x \<longleftrightarrow> (\<exists>i. names c (resolve n) = Some i \<and> \<not> dirs c (resolve n) \<and> inode c i = x) \<and>
     x \<noteq> [] \<and> length x < 2 ^ 32"

text \<open>The disk of the server can take the files ns with the contents f: every file costs a descriptor.\<close>

definition can_take :: "(bytes \<Rightarrow> bytes) \<Rightarrow> bytes list \<Rightarrow> fs \<Rightarrow> bool" where
  "can_take f ns d \<longleftrightarrow> wf_fs d \<and> dirs d [cs ''mnt''] \<and>
     (\<forall>n \<in> set ns. \<not> dirs d [cs ''mnt'', n] \<and> \<not> dirs d [cs ''mnt'', n @ cs ''.filepart''] \<and>
        names d [cs ''mnt'', n @ cs ''.filepart''] = None) \<and>
     length ns + 1 \<le> free_fds d \<and> sum_list (map (\<lambda>n. length (f n)) ns) \<le> room d"

lemma simple_tokens: "simple_name n \<Longrightarrow> tokens [slash] n = [n]"
  by (rule tokens_single) (auto simp: simple_name_def good_name_def)

lemma simple_resolve:
  assumes "simple_name n"
  shows "resolve (final_path n) = [cs ''mnt'', n]"
    and "resolve (part_path n) = [cs ''mnt'', n @ cs ''.filepart'']"
  using assms resolve_good [of n] simple_tokens [OF assms]
  by (simp_all add: simple_name_def final_path_def part_path_def)

lemma simple_not_part: "simple_name n \<Longrightarrow> n \<noteq> m @ cs ''.filepart''"
  using strstr_found [of "m @ cs ''.''" "cs ''filepart''" "[]"]
  by (auto simp: simple_name_def cs_def)

lemma can_take_ready:
  assumes "can_take f (n # ns) d" "simple_name n"
  shows "disk_ready n (length (f n)) d"
  using assms by (auto simp: can_take_def disk_ready_def simple_resolve simple_tokens)

lemma can_take_next:
  assumes "can_take f (n # ns) d" "simple_name n" "\<forall>m \<in> set ns. simple_name m" "stored d n fb (f n) s"
  shows "can_take f ns (disk s)"
proof -
  have d: "dirs (disk s) = dirs d" "free_fds d \<le> 1 + free_fds (disk s)" "room d \<le> length (f n) + room (disk s)"
    using assms(4) by (auto simp: stored_def resources_def simple_tokens [OF assms(2)] Let_def)
  have n: "names (disk s) [cs ''mnt'', m @ cs ''.filepart''] = None" if "m \<in> set ns" for m
  proof (cases "m = n")
    case True
    then show ?thesis using assms(4) by (simp add: stored_def simple_resolve [OF assms(2)])
  next
    case False
    have "m @ cs ''.filepart'' \<noteq> n" using simple_not_part [OF assms(2)] by metis
    with False assms(1,4) that show ?thesis
      by (simp add: stored_def simple_resolve [OF assms(2)] can_take_def)
  qed
  have w: "wf_fs (disk s)" using assms(4) by (simp add: stored_def)
  show ?thesis
    unfolding can_take_def d(1) using assms(1) n w d(2,3) by (auto simp: can_take_def)
qed

lemma client_runs_ok:
  assumes env: "udp_environment ossl okctx repr digest limit sh" and c: "1 \<le> free_fds c"
    and "\<forall>n \<in> set ns. simple_name n \<and> has_file c n (f n)"
    and "cleared s0" "can_take f ns (disk s0)"
  shows "\<exists>s. client_runs ossl (srv_send ossl sh) srv_recv c ns (s0, length (sent s0)) = Some (s, length (sent s)) \<and>
    cleared s \<and> (\<forall>n \<in> set ns. file_at (disk s) [cs ''mnt'', n] = Some (f n)) \<and>
    (\<forall>p. (\<forall>n \<in> set ns. p \<noteq> [cs ''mnt'', n] \<and> p \<noteq> [cs ''mnt'', n @ cs ''.filepart'']) \<longrightarrow>
       file_at (disk s) p = file_at (disk s0) p)"
  using assms(3-5)
proof (induction ns arbitrary: s0)
  case (Cons n ns)
  from Cons.prems(1) have n: "simple_name n" "has_file c n (f n)"
    and ns: "\<forall>m \<in> set ns. simple_name m" "\<forall>m \<in> set ns. simple_name m \<and> has_file c m (f m)" by simp_all
  from n(2) obtain i where i: "names c (resolve n) = Some i" "\<not> dirs c (resolve n)" "inode c i = f n"
    "f n \<noteq> []" "length (f n) < 2 ^ 32" by (auto simp: has_file_def)
  have g: "good_name n" "\<forall>c \<in> set n. safe_char c" using n(1) by (simp_all add: simple_name_def)
  obtain s1 fb where s1: "sendfile ossl (srv_send ossl sh) srv_recv n c (s0, length (sent s0)) =
      Some (0, Some Send_ok, s1, length (sent s1))" and st: "stored (disk s0) n fb (f n) s1"
    using transfer_once [OF env g i(1,2) c, unfolded i(3), OF i(4,5) Cons.prems(2)
        can_take_ready [OF Cons.prems(3) n(1)]] by blast
  have "cleared s1" using st by (simp add: stored_def)
  from Cons.IH [OF ns(2) this can_take_next [OF Cons.prems(3) n(1) ns(1) st]] obtain s where
    s: "client_runs ossl (srv_send ossl sh) srv_recv c ns (s1, length (sent s1)) = Some (s, length (sent s))"
    "cleared s" "\<forall>m \<in> set ns. file_at (disk s) [cs ''mnt'', m] = Some (f m)"
    "\<forall>p. (\<forall>m \<in> set ns. p \<noteq> [cs ''mnt'', m] \<and> p \<noteq> [cs ''mnt'', m @ cs ''.filepart'']) \<longrightarrow>
       file_at (disk s) p = file_at (disk s1) p" by blast
  have one: "file_at (disk s1) [cs ''mnt'', n] = Some (f n)"
    "\<forall>p. p \<noteq> [cs ''mnt'', n] \<longrightarrow> p \<noteq> [cs ''mnt'', n @ cs ''.filepart''] \<longrightarrow>
       file_at (disk s1) p = file_at (disk s0) p"
    using st by (simp_all add: stored_def simple_resolve [OF n(1)])
  have "file_at (disk s) [cs ''mnt'', n] = Some (f n)"
  proof (cases "n \<in> set ns")
    case False
    then have "file_at (disk s) [cs ''mnt'', n] = file_at (disk s1) [cs ''mnt'', n]"
      using simple_not_part [OF n(1)] by (intro s(4) [rule_format]) auto
    then show ?thesis by (simp add: one(1))
  qed (use s(3) in blast)
  moreover have "client_runs ossl (srv_send ossl sh) srv_recv c (n # ns) (s0, length (sent s0)) =
      Some (s, length (sent s))"
    using s(1) s1 by (simp add: udp_client_main_def)
  ultimately show ?case using s(2-4) one(2) by (intro exI [of _ s]) auto
qed simp

text \<open>A client with two files.\<close>

definition two_files :: fs where
  "two_files = empty_disk\<lparr>names := (\<lambda>p. if p = [cs ''a''] then Some 0 else if p = [cs ''b''] then Some 1 else None),
     inode := (\<lambda>i. [1, 2, 3]), fresh := 2\<rparr>"

lemma two_files_ready:
  "\<forall>n \<in> set [cs ''a'', cs ''b'']. simple_name n \<and> has_file two_files n [1, 2, 3]"
  "1 \<le> free_fds two_files"
proof -
  have t: "tokens [slash] (cs ''a'') = [cs ''a'']" "tokens [slash] (cs ''b'') = [cs ''b'']"
    by (rule tokens_single; simp add: cs_def of_char_def)+
  have n: "simple_name (cs ''a'')" "simple_name (cs ''b'')"
    by (simp_all add: simple_name_def good_name_def plain_def t)
      (simp_all add: safe_char_def strstr.simps cs_def of_char_def)
  have r: "resolve (cs ''a'') = [cs ''a'']" "resolve (cs ''b'') = [cs ''b'']"
    unfolding resolve_def t by (simp_all add: resolve_step_def cs_def of_char_def)
  have ne: "cs ''a'' \<noteq> cs ''mnt''" "cs ''b'' \<noteq> cs ''mnt''" "cs ''a'' \<noteq> cs ''b''" by (simp_all add: cs_def of_char_def)
  show "\<forall>n \<in> set [cs ''a'', cs ''b'']. simple_name n \<and> has_file two_files n [1, 2, 3]"
    using n ne by (auto simp: has_file_def two_files_def r empty_disk_def)
  show "1 \<le> free_fds two_files" by (simp add: two_files_def empty_disk_def free_fds_def)
qed

end
