(* ===== verification/TcpTransfer.thy ===== *)
theory TcpTransfer
  imports TcpProps Delivery
begin

text \<open>
  The tcp programs put together: the thread of the server (ReceiveThread of server.c), which accepts
  one connection after the other, and the main function of the client. The bytes that a client
  passes to send arrive in arbitrary pieces; only the announcement, which the client sends alone
  and then waits for the answer, arrives at once.
\<close>

section \<open>The thread of the server and the main function of the client\<close>

text \<open>
  The loop around accept. A connection is the stream that recv delivers; None is a call of accept that
  fails: recv on the descriptor -1 fails then too, and the loop goes on. The result Done is the
  state in which the thread waits for the next connection.
\<close>

primrec tcp_ReceiveThread :: "'c openssl \<Rightarrow> shell \<Rightarrow> read_result list option list \<Rightarrow> tcp_server \<Rightarrow>
    tcp_server outcome option" where
  "tcp_ReceiveThread ossl sh [] s = Some (Done s)"
| "tcp_ReceiveThread ossl sh (link # links) s =
     Option.bind (receive_loop ossl sh (case link of None \<Rightarrow> [Read_error] | Some rs \<Rightarrow> rs)
         (s\<lparr>t_buf := bzero TCP_MAXLINE\<rparr>))
       (\<lambda>r. case r of Blocked \<Rightarrow> Some Blocked | Done s \<Rightarrow> tcp_ReceiveThread ossl sh links s)"

text \<open>
  The result of main, for a client whose connection stands: the exit code, what is printed at the end
  (if anything), and the data passed to send.
\<close>

definition tcp_client_main :: "'c openssl \<Rightarrow> bytes list \<Rightarrow> bytes \<Rightarrow> bytes \<Rightarrow> fs \<Rightarrow>
    (int \<times> bool option \<times> bytes list) option" where
  "tcp_client_main ossl argv answer1 answer2 d =
     (if length argv \<noteq> 2 then Some (1, None, [])
      else do {
        (_, printed, sent) \<leftarrow> request_sendfile ossl answer1 answer2 (argv ! 1) d;
        Some (0, printed, sent)
      })"

section \<open>The network\<close>

text \<open>What a client that gets positive answers sends, and how it can arrive.\<close>

definition tcp_sends :: "'c openssl \<Rightarrow> fs \<Rightarrow> bytes \<Rightarrow> bytes list" where
  "tcp_sends ossl c n =
     (case tcp_client_main ossl [cs ''client'', n] (ack CMD_SEND_FILEMSG_REQ ACK_OK) (ack CMD_SEND_FINISH ACK_OK) c of
        Some (_, _, ms) \<Rightarrow> ms | None \<Rightarrow> [])"

definition arrives :: "bytes list \<Rightarrow> read_result list \<Rightarrow> bool" where
  "arrives ms rs \<longleftrightarrow> (\<exists>bss. ms \<noteq> [] \<and> [] \<notin> set bss \<and> concat bss = concat (tl ms) \<and>
     rs = Read (hd ms) # map Read bss @ [Read []])"

definition tcp_can_take :: "(bytes \<Rightarrow> bytes) \<Rightarrow> bytes list \<Rightarrow> fs \<Rightarrow> bool" where
  "tcp_can_take f ns d \<longleftrightarrow> wf_fs d \<and> dirs d [cs ''picture''] \<and>
     (\<forall>n \<in> set ns. \<not> dirs d [cs ''picture'', n] \<and> \<not> dirs d [cs ''picture'', n @ cs ''.filepart''] \<and>
        names d [cs ''picture'', n @ cs ''.filepart''] = None) \<and>
     1 \<le> free_fds d \<and> sum_list (map (\<lambda>n. length (f n)) ns) \<le> room d"

lemma simple_plain:
  assumes "simple_name n"
  shows "plain n"
proof -
  have "\<forall>t \<in> set (tokens [slash] n). plain t" using assms unfolding simple_name_def good_name_def by blast
  then show ?thesis unfolding simple_tokens [OF assms] by simp
qed

lemma tcp_resolve:
  assumes "simple_name n"
  shows "resolve (tcp_final n) = [cs ''picture'', n]"
    and "resolve (tcp_part n) = [cs ''picture'', n @ cs ''.filepart'']"
  using resolve_picture [OF simple_plain [OF assms]]
    resolve_picture [OF plain_filepart [OF simple_plain [OF assms]]]
  by (simp_all add: tcp_part_def tcp_final_def)

lemma tcp_can_take_ready:
  assumes "tcp_can_take f (n # ns) d" "simple_name n"
  shows "tcp_disk_ready n (length (f n)) d"
  using assms by (auto simp: tcp_can_take_def tcp_disk_ready_def tcp_resolve)

lemma tcp_can_take_next:
  assumes "tcp_can_take f (n # ns) d" "simple_name n" "tcp_stored d n (f n) d'"
  shows "tcp_can_take f ns d'"
proof -
  have d: "dirs d' = dirs d" "free_fds d' = free_fds d" "room d' + length (f n) = room d"
    "names d' = (names d)([cs ''picture'', n] \<mapsto> fresh d)"
    using assms(3) by (simp_all add: tcp_stored_def tcp_resolve [OF assms(2)])
  have "wf_fs d'" using tcp_stored_wf [OF assms(3)] assms(1) by (simp add: tcp_can_take_def)
  moreover have "names d' [cs ''picture'', m @ cs ''.filepart''] = names d [cs ''picture'', m @ cs ''.filepart'']" for m
    using simple_not_part [OF assms(2), of m] by (simp add: d(4))
  ultimately show ?thesis
    using assms(1) d(3) unfolding tcp_can_take_def d(1,2) by simp
qed

section \<open>One connection\<close>

lemma tcp_dispatch_request:
  "m_cmd m = of_nat (cmd_code CMD_SEND_FILEMSG_REQ) \<Longrightarrow> m_type m = of_nat (type_code REQ_NOR) \<Longrightarrow>
   tcp_dispatch (tcp_cmd_repose ossl sh) (m_cmd m) (m_type m) rs s = tcp_cmd_reqsend_deel ossl sh rs s"
  by (simp add: tcp_cmd_repose_def)

lemma receive_loop_closed: "receive_loop ossl sh (Read [] # rs) s = Some (Done s)"
  "receive_loop ossl sh (Read_error # rs) s = Some (Done s)"
  by (simp_all add: receive_loop.simps)

lemma receive_loop_message:
  assumes "bs \<noteq> []" "length bs \<le> TCP_MAXLINE"
    and "message_of (bs @ drop (length bs) (bzero TCP_MAXLINE)) = Some m"
    and "tcp_dispatch (tcp_cmd_repose ossl sh) (m_cmd m) (m_type m) rs
      (s\<lparr>t_buf := bs @ drop (length bs) (bzero TCP_MAXLINE)\<rparr>) = Some (Done (s', rs'))"
  shows "receive_loop ossl sh (Read bs # rs) s = receive_loop ossl sh rs' (s'\<lparr>t_buf := bzero TCP_MAXLINE\<rparr>)"
  using assms by (subst receive_loop.simps) (simp add: mem_put_def)

context udp_environment
begin

lemma tcp_request_ok:
  assumes "simple_name n" "length n \<le> 15" "has_file c n x" "1 \<le> free_fds c"
  shows "tcp_request ossl n c = Some (bytes_of_message \<lparr>m_cmd = of_nat (cmd_code CMD_SEND_FILEMSG_REQ),
    m_type = of_nat (type_code REQ_NOR), m_buf_len = 84,
    m_buf = bytes_of_tcp_fileblock \<lparr>t_file_name = n @ 0 # bzero (63 - length n), t_md5 = digest x,
      t_file_length = of_nat (length x)\<rparr>\<rparr>, c)"
proof -
  from assms(3) obtain i where i: "names c (resolve n) = Some i" "\<not> dirs c (resolve n)" "inode c i = x"
    by (auto simp: has_file_def)
  have n: "n \<noteq> []" using assms(1) by (simp add: simple_name_def good_name_def)
  have s: "strcpy (bzero 64) n = Some (n @ 0 # bzero (63 - length n))"
    using assms(2) by (simp add: strcpy_eq bzero_def)
  from MD5_file_ossl_ok [OF n i(1,2) assms(4), of "bzero 16"] show ?thesis
    by (simp add: tcp_request_def s i)
qed

text \<open>The client reports success and has sent its file.\<close>

lemma tcp_client_ok:
  assumes "simple_name n" "length n \<le> 15" "has_file c n x" "1 \<le> free_fds c"
  shows "\<exists>req pieces. tcp_request ossl n c = Some (req, c) \<and> concat pieces = x \<and>
    tcp_client_main ossl [cs ''client'', n] (ack CMD_SEND_FILEMSG_REQ ACK_OK) (ack CMD_SEND_FINISH ACK_OK) c =
      Some (0, Some True, req # pieces)"
proof -
  from assms(3) obtain i where i: "names c (resolve n) = Some i" "\<not> dirs c (resolve n)" "inode c i = x"
    by (auto simp: has_file_def)
  have n: "n \<noteq> []" using assms(1) by (simp add: simple_name_def good_name_def)
  have "0 < free_fds c" using assms(4) by simp
  then obtain k where nf: "new_fd (File i 0) c = (int k, c\<lparr>fds := (fds c)[k := File i 0]\<rparr>)" "k < length (fds c)"
    by (rule new_fd_ok [where e = "File i 0"]) auto
  have o: "open_rdonly n c = (int k, c\<lparr>fds := (fds c)[k := File i 0]\<rparr>)" using n i nf by (simp add: open_rdonly_def)
  have f: "fd_of (c\<lparr>fds := (fds c)[k := File i 0]\<rparr>) (int k) = File i 0" using nf(2) by (simp add: fd_of_def)
  obtain req where r: "tcp_request ossl n c = Some (req, c)" using tcp_request_ok [OF assms] by simp
  from request_sendfile_ok [OF r o f, of ACK_OK] obtain pieces where
    "request_sendfile ossl (ack CMD_SEND_FILEMSG_REQ ACK_OK) (ack CMD_SEND_FINISH ACK_OK) n c =
       Some (None, Some True, req # pieces)" "concat pieces = x" using i(3) by auto
  with r show ?thesis by (auto simp: tcp_client_main_def)
qed

lemma tcp_connection:
  assumes n: "simple_name n" "length n \<le> 15" and c: "has_file c n x" "1 \<le> free_fds c"
    and s: "t_file_path s = bzero 64" "t_file_path_back s = bzero 64" "tcp_disk_ready n (length x) (t_disk s)"
    and rs: "arrives (tcp_sends ossl c n) rs"
  shows "\<exists>s'. receive_loop ossl sh rs s = Some (Done s') \<and> tcp_stored (t_disk s) n x (t_disk s') \<and>
    t_sent s' = t_sent s @ [ack CMD_SEND_FILEMSG_REQ ACK_OK, ack CMD_SEND_FINISH ACK_OK] \<and>
    t_file_path s' = bzero 64 \<and> t_file_path_back s' = bzero 64"
proof -
  let ?fb = "\<lparr>t_file_name = n @ 0 # bzero (63 - length n), t_md5 = digest x, t_file_length = of_nat (length x)\<rparr>"
  from tcp_client_ok [OF n c] obtain req pieces where r: "tcp_request ossl n c = Some (req, c)"
    "concat pieces = x" "tcp_sends ossl c n = req # pieces"
    by (auto simp: tcp_sends_def)
  from rs obtain bss where bss: "[] \<notin> set bss" "concat bss = x" "rs = Read req # map Read bss @ [Read []]"
    by (auto simp: arrives_def r)
  let ?m = "\<lparr>m_cmd = of_nat (cmd_code CMD_SEND_FILEMSG_REQ), m_type = of_nat (type_code REQ_NOR),
    m_buf_len = 84, m_buf = bytes_of_tcp_fileblock ?fb @ bzero 1964\<rparr>"
  have ld: "length (digest x) = 16" by (rule digest_length)
  have req: "req = bytes_of_message (?m\<lparr>m_buf := bytes_of_tcp_fileblock ?fb\<rparr>)"
    using tcp_request_ok [OF n c] r(1) by simp
  have len: "length (bytes_of_tcp_fileblock ?fb) = 84" using n(2) ld by (simp add: bytes_of_tcp_fileblock_def)
  then have lr: "length req = 92" "req \<noteq> []" by (auto simp: req bytes_of_message_def)
  have buf: "req @ drop (length req) (bzero TCP_MAXLINE) = bytes_of_message ?m"
    using lr(1) by (simp add: req bytes_of_message_def bzero_def)
  let ?s = "s\<lparr>t_buf := bytes_of_message ?m\<rparr>"
  have fb: "tcp_fileblock_of (m_buf ?m) = Some ?fb" "terminated (t_file_name ?fb)" "cstr (t_file_name ?fb) = n"
    using n ld by (simp_all add: tcp_fileblock_roundtrip terminated_def cstr_append_zero simple_name_def good_name_def)
  have x: "x \<noteq> []" "length x < 2 ^ 32" using c(1) by (auto simp: has_file_def)
  then have ul: "unat (t_file_length ?fb) = length x" by (simp add: unat_of_nat)
  have "\<exists>s'. tcp_cmd_reqsend_deel ossl sh (map Read bss @ [Read []]) ?s = Some (Done (s', [Read []])) \<and>
    tcp_stored (t_disk ?s) n (concat bss) (t_disk s') \<and>
    t_sent s' = t_sent ?s @ [ack CMD_SEND_FILEMSG_REQ ACK_OK, ack CMD_SEND_FINISH ACK_OK] \<and>
    t_file_path s' = bzero 64 \<and> t_file_path_back s' = bzero 64"
  proof (rule tcp_transfer_ok [where m = ?m and fb = ?fb])
    show "plain n" "\<forall>c \<in> set n. safe_char c" using simple_plain n(1) by (simp_all add: simple_name_def)
    show "bss \<noteq> []" using x(1) bss(2) by auto
    show "tcp_disk_ready n (unat (t_file_length ?fb)) (t_disk ?s)" unfolding ul using s(3) by simp
    show "length (concat bss) = unat (t_file_length ?fb)" unfolding ul by (simp only: bss(2))
    show "t_md5 ?fb = digest (concat bss)" by (simp only: bss(2)) simp
  qed (use s fb n(2) bss(1) in \<open>simp_all add: message_of_bytes\<close>)
  then obtain s' where s': "tcp_cmd_reqsend_deel ossl sh (map Read bss @ [Read []]) ?s = Some (Done (s', [Read []]))"
    "tcp_stored (t_disk s) n x (t_disk s')"
    "t_sent s' = t_sent s @ [ack CMD_SEND_FILEMSG_REQ ACK_OK, ack CMD_SEND_FINISH ACK_OK]"
    "t_file_path s' = bzero 64" "t_file_path_back s' = bzero 64"
    by (auto simp: bss(2))
  have "receive_loop ossl sh rs s = receive_loop ossl sh [Read []] (s'\<lparr>t_buf := bzero TCP_MAXLINE\<rparr>)"
    unfolding bss(3)
  proof (rule receive_loop_message [where m = ?m])
    have "tcp_dispatch (tcp_cmd_repose ossl sh) (m_cmd ?m) (m_type ?m) (map Read bss @ [Read []]) ?s =
        tcp_cmd_reqsend_deel ossl sh (map Read bss @ [Read []]) ?s"
      by (rule tcp_dispatch_request) simp_all
    then show "tcp_dispatch (tcp_cmd_repose ossl sh) (m_cmd ?m) (m_type ?m) (map Read bss @ [Read []])
        (s\<lparr>t_buf := req @ drop (length req) (bzero TCP_MAXLINE)\<rparr>) = Some (Done (s', [Read []]))"
      unfolding buf s'(1) .
    show "message_of (req @ drop (length req) (bzero TCP_MAXLINE)) = Some ?m"
      unfolding buf by (rule message_of_bytes)
  qed (use lr in simp_all)
  then show ?thesis using s'(2-5) by (simp add: receive_loop_closed)
qed

text \<open>All connections, with any failed calls of accept between them.\<close>

lemma tcp_connections:
  assumes "\<forall>n \<in> set ns. simple_name n \<and> length n \<le> 15 \<and> has_file c n (f n)" "1 \<le> free_fds c"
    and "t_file_path s = bzero 64" "t_file_path_back s = bzero 64" "tcp_can_take f ns (t_disk s)"
    and "list_all2 (\<lambda>n rs. arrives (tcp_sends ossl c n) rs) ns (List.map_filter (\<lambda>l. l) links)"
  shows "\<exists>s'. tcp_ReceiveThread ossl sh links s = Some (Done s') \<and>
    t_sent s' = t_sent s @ concat (map (\<lambda>n. [ack CMD_SEND_FILEMSG_REQ ACK_OK, ack CMD_SEND_FINISH ACK_OK]) ns) \<and>
    (\<forall>n \<in> set ns. file_at (t_disk s') [cs ''picture'', n] = Some (f n)) \<and>
    (\<forall>p. (\<forall>n \<in> set ns. p \<noteq> [cs ''picture'', n]) \<longrightarrow> file_at (t_disk s') p = file_at (t_disk s) p) \<and>
    free_fds (t_disk s') = free_fds (t_disk s) \<and> t_file_path s' = bzero 64 \<and> t_file_path_back s' = bzero 64"
  using assms(1,3-6)
proof (induction links arbitrary: ns s)
  case (Cons link links)
  show ?case
  proof (cases link)
    case None
    let ?s = "s\<lparr>t_buf := bzero TCP_MAXLINE\<rparr>"
    have "tcp_ReceiveThread ossl sh (link # links) s = tcp_ReceiveThread ossl sh links ?s"
      by (simp add: None receive_loop_closed)
    with Cons.IH [of ns ?s] Cons.prems show ?thesis
      by (simp add: None map_filter_simps)
  next
    case (Some rs)
    with Cons.prems(5) obtain n ms where ns: "ns = n # ms" "arrives (tcp_sends ossl c n) rs"
      "list_all2 (\<lambda>n rs. arrives (tcp_sends ossl c n) rs) ms (List.map_filter (\<lambda>l. l) links)"
      by (auto simp: map_filter_simps list_all2_Cons2)
    let ?s = "s\<lparr>t_buf := bzero TCP_MAXLINE\<rparr>"
    have n: "simple_name n" "length n \<le> 15" "has_file c n (f n)" using Cons.prems(1) ns(1) by simp_all
    have d: "tcp_disk_ready n (length (f n)) (t_disk ?s)"
      using tcp_can_take_ready Cons.prems(4) n(1) by (simp add: ns(1))
    from tcp_connection [OF n assms(2) _ _ d ns(2)] Cons.prems(2,3) obtain s1 where
      s1: "receive_loop ossl sh rs ?s = Some (Done s1)" "tcp_stored (t_disk s) n (f n) (t_disk s1)"
      "t_sent s1 = t_sent s @ [ack CMD_SEND_FILEMSG_REQ ACK_OK, ack CMD_SEND_FINISH ACK_OK]"
      "t_file_path s1 = bzero 64" "t_file_path_back s1 = bzero 64" by auto
    have "tcp_can_take f ms (t_disk s1)"
      using tcp_can_take_next Cons.prems(4) n(1) s1(2) by (simp add: ns(1))
    from Cons.IH [OF _ s1(4,5) this ns(3)] Cons.prems(1) obtain s' where
      s': "tcp_ReceiveThread ossl sh links s1 = Some (Done s')"
      "t_sent s' = t_sent s1 @ concat (map (\<lambda>n. [ack CMD_SEND_FILEMSG_REQ ACK_OK, ack CMD_SEND_FINISH ACK_OK]) ms)"
      "\<forall>n \<in> set ms. file_at (t_disk s') [cs ''picture'', n] = Some (f n)"
      "\<forall>p. (\<forall>n \<in> set ms. p \<noteq> [cs ''picture'', n]) \<longrightarrow> file_at (t_disk s') p = file_at (t_disk s1) p"
      "free_fds (t_disk s') = free_fds (t_disk s1)" "t_file_path s' = bzero 64" "t_file_path_back s' = bzero 64"
      by (auto simp: ns(1))
    have w: "wf_fs (t_disk s)" using Cons.prems(4) by (simp add: tcp_can_take_def)
    have one: "file_at (t_disk s1) [cs ''picture'', n] = Some (f n)"
      "\<And>p. p \<noteq> [cs ''picture'', n] \<Longrightarrow> file_at (t_disk s1) p = file_at (t_disk s) p"
      using tcp_stored_file [OF s1(2)] tcp_stored_other [OF s1(2) w] by (simp_all add: tcp_resolve(1) [OF n(1)])
    have "file_at (t_disk s') [cs ''picture'', n] = Some (f n)"
    proof (cases "n \<in> set ms")
      case False
      then have "file_at (t_disk s') [cs ''picture'', n] = file_at (t_disk s1) [cs ''picture'', n]"
        by (intro s'(4) [rule_format]) auto
      with one(1) show ?thesis by simp
    qed (use s'(3) in blast)
    moreover have "free_fds (t_disk s') = free_fds (t_disk s)" using s'(5) s1(2) by (simp add: tcp_stored_def)
    ultimately show ?thesis
      using s' s1(1,3) one(2) by (intro exI [of _ s']) (auto simp: Some ns(1))
  qed
qed simp

end

section \<open>Properties\<close>

text \<open>C6. The tcp programs put together. Clients send files with simple names of at most 15 characters, one
  connection each, and the bytes of every file arrive in any non-empty pieces; calls of accept may fail
  in between. Then every client reports success, the server sends the two answers the clients
  waited for in every connection, and every file is in the directory with its contents. The other
  files are as before, no descriptor is lost and the path buffers are clear.\<close>

theorem tcp_files_delivered:
  assumes env: "udp_environment ossl okctx repr digest limit sh"
    and client: "\<forall>n \<in> set ns. simple_name n \<and> length n \<le> 15 \<and> has_file c n (f n)" "1 \<le> free_fds c"
    and server: "t_file_path s = bzero 64" "t_file_path_back s = bzero 64" "tcp_can_take f ns (t_disk s)"
    and network: "list_all2 (\<lambda>n rs. arrives (tcp_sends ossl c n) rs) ns (List.map_filter (\<lambda>l. l) links)"
  shows "(\<forall>n \<in> set ns. \<exists>ms. tcp_client_main ossl [cs ''client'', n] (ack CMD_SEND_FILEMSG_REQ ACK_OK)
        (ack CMD_SEND_FINISH ACK_OK) c = Some (0, Some True, ms)) \<and>
    (\<exists>s'. tcp_ReceiveThread ossl sh links s = Some (Done s') \<and>
      t_sent s' = t_sent s @ concat (map (\<lambda>n. [ack CMD_SEND_FILEMSG_REQ ACK_OK, ack CMD_SEND_FINISH ACK_OK]) ns) \<and>
      (\<forall>n \<in> set ns. file_at (t_disk s') [cs ''picture'', n] = Some (f n)) \<and>
      (\<forall>p. (\<forall>n \<in> set ns. p \<noteq> [cs ''picture'', n]) \<longrightarrow> file_at (t_disk s') p = file_at (t_disk s) p) \<and>
      free_fds (t_disk s') = free_fds (t_disk s) \<and> t_file_path s' = bzero 64 \<and> t_file_path_back s' = bzero 64)"
proof
  show "\<forall>n \<in> set ns. \<exists>ms. tcp_client_main ossl [cs ''client'', n] (ack CMD_SEND_FILEMSG_REQ ACK_OK)
        (ack CMD_SEND_FINISH ACK_OK) c = Some (0, Some True, ms)"
    using udp_environment.tcp_client_ok [OF env _ _ _ client(2)] client(1) by blast
qed (rule udp_environment.tcp_connections [OF env client server network])

definition idle_server :: tcp_server where
  "idle_server = \<lparr>t_Filemsg = \<lparr>t_file_name = bzero 64, t_md5 = bzero 16, t_file_length = 0\<rparr>, t_fd = 0,
     t_file_path = bzero 64, t_file_path_back = bzero 64, t_buf = bzero TCP_MAXLINE,
     t_disk = picture_disk, t_sent = []\<rparr>"

lemma arrives_bytewise:
  "ms \<noteq> [] \<Longrightarrow> arrives ms (Read (hd ms) # map Read (map (\<lambda>b. [b]) (concat (tl ms))) @ [Read []])"
  unfolding arrives_def by (intro exI [of _ "map (\<lambda>b. [b]) (concat (tl ms))"]) auto

theorem tcp_files_delivered_witness:
  "\<exists>rs1 rs2 s'. tcp_ReceiveThread md5c_openssl mv_shell [Some rs1, None, Some rs2] idle_server = Some (Done s') \<and>
     length (t_sent s') = 4 \<and> file_at (t_disk s') [cs ''picture'', cs ''a''] = Some [1, 2, 3] \<and>
     file_at (t_disk s') [cs ''picture'', cs ''b''] = Some [1, 2, 3]"
proof -
  let ?ns = "[cs ''a'', cs ''b'']" and ?f = "\<lambda>n :: bytes. [1, 2, 3 :: u8]"
  let ?ms = "tcp_sends md5c_openssl two_files"
  let ?rs = "\<lambda>n. Read (hd (?ms n)) # map Read (map (\<lambda>b. [b]) (concat (tl (?ms n)))) @ [Read []]"
  have h: "\<forall>n \<in> set ?ns. simple_name n \<and> has_file two_files n (?f n)" "1 \<le> free_fds two_files"
    by (rule two_files_ready)+
  then have c: "\<forall>n \<in> set ?ns. simple_name n \<and> length n \<le> 15 \<and> has_file two_files n (?f n)"
    by (simp add: cs_def)
  have ne: "?ms n \<noteq> []" if "n \<in> set ?ns" for n
    using udp_environment.tcp_client_ok [OF md5_udp.udp_environment_axioms, of n two_files "?f n"] c h(2) that
    by (fastforce simp: tcp_sends_def)
  have net: "list_all2 (\<lambda>n rs. arrives (?ms n) rs) ?ns
      (List.map_filter (\<lambda>l. l) [Some (?rs (cs ''a'')), None, Some (?rs (cs ''b''))])"
    using arrives_bytewise [OF ne] by (simp add: map_filter_simps)
  have d: "tcp_can_take ?f ?ns (t_disk idle_server)" "t_file_path idle_server = bzero 64"
    "t_file_path_back idle_server = bzero 64" "t_sent idle_server = []"
    by (simp_all add: tcp_can_take_def idle_server_def picture_disk_def wf_fs_def free_fds_def)
  from tcp_files_delivered [OF md5_udp.udp_environment_axioms c h(2) d(2,3,1) net]
  obtain s' where "tcp_ReceiveThread md5c_openssl mv_shell [Some (?rs (cs ''a'')), None, Some (?rs (cs ''b''))] idle_server =
      Some (Done s')" "t_sent s' = t_sent idle_server @
        concat (map (\<lambda>n. [ack CMD_SEND_FILEMSG_REQ ACK_OK, ack CMD_SEND_FINISH ACK_OK]) ?ns)"
    "\<forall>n \<in> set ?ns. file_at (t_disk s') [cs ''picture'', n] = Some (?f n)" by blast
  then have "tcp_ReceiveThread md5c_openssl mv_shell [Some (?rs (cs ''a'')), None, Some (?rs (cs ''b''))] idle_server =
      Some (Done s') \<and> length (t_sent s') = 4 \<and> file_at (t_disk s') [cs ''picture'', cs ''a''] = Some [1, 2, 3] \<and>
     file_at (t_disk s') [cs ''picture'', cs ''b''] = Some [1, 2, 3]"
    using d(4) by simp
  then show ?thesis by blast
qed

end
