(* ===== verification/Led.thy ===== *)
theory Led
  imports Prelude Transition
begin

text \<open>
  ingenic_drv/led/led_drv.c, a character driver that drives three LEDs from a timer, and the
  older version of its timer function in ingenic_drv/second/second_drv.c. The state holds the
  globals, the static variables of LED_CORL and the levels of the three GPIO lines.
\<close>

record leds =
  LED_SYS_STATE :: u8
  LED_GPRS_STATE :: u8
  LED_UART_STATE :: u8
  COUNT :: u16
  LED_FLAG :: u16
  LED_UART_WINK_TIME :: u8
  LED_ON_DELAY_TIME :: u8
  gpio_sys :: bool
  gpio_net :: bool
  gpio_uart :: bool

definition LED_ON :: u8 where "LED_ON = 0"
definition LED_WINK_FAST :: u8 where "LED_WINK_FAST = 1"
definition LED_WINK_SLOW :: u8 where "LED_WINK_SLOW = 2"
definition LED_ON_DELAY :: u8 where "LED_ON_DELAY = 3"

lemmas led_modes = LED_ON_def LED_WINK_FAST_def LED_WINK_SLOW_def LED_ON_DELAY_def

text \<open>The initial values; the lines are requested with GPIOF_INIT_LOW.\<close>

definition led_drv_init :: leds where
  "led_drv_init = \<lparr>LED_SYS_STATE = 0, LED_GPRS_STATE = 2, LED_UART_STATE = 7, COUNT = 0, LED_FLAG = 0,
     LED_UART_WINK_TIME = 6, LED_ON_DELAY_TIME = 5, gpio_sys = False, gpio_net = False, gpio_uart = False\<rparr>"

section \<open>The timer function\<close>

definition corl_sys :: "leds \<Rightarrow> leds" where
  "corl_sys s =
     (if LED_SYS_STATE s = LED_ON then s\<lparr>gpio_sys := True\<rparr>
      else if LED_SYS_STATE s = LED_WINK_FAST then s\<lparr>gpio_sys := \<not> COUNT s mod 2 = 0\<rparr>
      else if LED_SYS_STATE s = LED_WINK_SLOW then s\<lparr>gpio_sys := \<not> COUNT s mod 5 = 0\<rparr>
      else s\<lparr>gpio_sys := False\<rparr>)"

definition corl_gprs :: "leds \<Rightarrow> leds" where
  "corl_gprs s =
     (if LED_GPRS_STATE s = LED_ON then s\<lparr>gpio_net := True\<rparr>
      else if LED_GPRS_STATE s = LED_WINK_FAST then s\<lparr>gpio_net := \<not> COUNT s mod 2 = 0\<rparr>
      else if LED_GPRS_STATE s = LED_WINK_SLOW then
        (if COUNT s mod 25 = 0 then s\<lparr>gpio_net := True, LED_FLAG := LED_FLAG s + 1\<rparr> else s)
      else s)"

text \<open>\<open>if (LED_UART_WINK_TIME--)\<close> tests the old value and decrements it in both branches.\<close>

definition corl_uart :: "leds \<Rightarrow> leds" where
  "corl_uart s =
     (if LED_UART_STATE s = LED_ON then s\<lparr>gpio_uart := True\<rparr>
      else if LED_UART_STATE s = LED_WINK_FAST then
        (let t = LED_UART_WINK_TIME s; s = s\<lparr>LED_UART_WINK_TIME := t - 1\<rparr>
         in if t \<noteq> 0 then s\<lparr>gpio_uart := \<not> COUNT s mod 2 = 0\<rparr>
            else s\<lparr>LED_UART_WINK_TIME := 6, LED_UART_STATE := 2\<rparr>)
      else if LED_UART_STATE s = LED_WINK_SLOW then s\<lparr>gpio_uart := \<not> COUNT s mod 5 = 0\<rparr>
      else if LED_UART_STATE s = LED_ON_DELAY then
        (let t = LED_ON_DELAY_TIME s; s = s\<lparr>LED_ON_DELAY_TIME := t - 1\<rparr>
         in if t \<noteq> 0 then s\<lparr>gpio_uart := True\<rparr>
            else s\<lparr>LED_ON_DELAY_TIME := 5, LED_UART_STATE := 7\<rparr>)
      else s\<lparr>gpio_uart := False\<rparr>)"

definition LED_CORL :: "leds \<Rightarrow> leds" where
  "LED_CORL s = corl_uart (corl_gprs (corl_sys (s\<lparr>COUNT := COUNT s + 1\<rparr>)))"

text \<open>timer_function runs LED_CORL and sets the timer t_10ms ticks ahead.\<close>

record led_timer =
  leds_of :: leds
  expires :: u32
  t_10ms :: u32

definition timer_init :: "u32 \<Rightarrow> u32 \<Rightarrow> leds \<Rightarrow> led_timer" where
  "timer_init jiffies timer_10ms s = \<lparr>leds_of = s, expires = jiffies + timer_10ms, t_10ms = timer_10ms\<rparr>"

definition timer_function :: "u32 \<Rightarrow> led_timer \<Rightarrow> led_timer" where
  "timer_function jiffies t = t\<lparr>leds_of := LED_CORL (leds_of t), expires := jiffies + t_10ms t\<rparr>"

section \<open>The write operation\<close>

text \<open>
  led_drv_write copies len bytes into a buffer of 4 bytes, without a check: None is a write
  behind led_buf. buf is None when the copy fails, after which the driver returns -EFAULT (-14).
  ret is not initialised in the code; its value is the parameter junk.
\<close>

definition led_drv_write :: "int \<Rightarrow> bytes option \<Rightarrow> nat \<Rightarrow> leds \<Rightarrow> (int \<times> leds) option" where
  "led_drv_write junk buf len s =
     (case buf of
        None \<Rightarrow> Some (- 14, s)
      | Some src \<Rightarrow> do {
          led_buf \<leftarrow> mem_put (bzero 4) 0 (take len src);
          let mode = led_buf ! 1 - 0x30;
          Some (junk,
            if led_buf ! 0 = 0x31 then s\<lparr>LED_GPRS_STATE := mode\<rparr>
            else if led_buf ! 0 = 0x32 then s\<lparr>LED_SYS_STATE := mode\<rparr>
            else if led_buf ! 0 = 0x33 then s\<lparr>LED_UART_STATE := mode\<rparr>
            else s)
        })"

section \<open>The driver as a state machine\<close>

inductive led_step :: "leds \<Rightarrow> leds \<Rightarrow> bool" where
  timer_tick: "led_step s (LED_CORL s)"
| dev_write: "led_drv_write junk buf len s = Some (r, t) \<Longrightarrow> led_step s t"

inductive_cases led_stepE: "led_step s t"

inductive_simps led_step_simps: "led_step s t"

text \<open>The counters of the two timed modes stay in their range.\<close>

definition led_inv :: "leds \<Rightarrow> bool" where
  "led_inv s \<longleftrightarrow> LED_UART_WINK_TIME s \<le> 6 \<and> LED_ON_DELAY_TIME s \<le> 5"

lemma corl_frame [simp]:
  "LED_UART_STATE (corl_sys s) = LED_UART_STATE s" "LED_UART_STATE (corl_gprs s) = LED_UART_STATE s"
  "LED_UART_WINK_TIME (corl_sys s) = LED_UART_WINK_TIME s"
  "LED_UART_WINK_TIME (corl_gprs s) = LED_UART_WINK_TIME s"
  "LED_ON_DELAY_TIME (corl_sys s) = LED_ON_DELAY_TIME s"
  "LED_ON_DELAY_TIME (corl_gprs s) = LED_ON_DELAY_TIME s"
  "COUNT (corl_sys s) = COUNT s" "COUNT (corl_gprs s) = COUNT s" "COUNT (corl_uart s) = COUNT s"
  "LED_SYS_STATE (corl_sys s) = LED_SYS_STATE s" "LED_SYS_STATE (corl_gprs s) = LED_SYS_STATE s"
  "LED_SYS_STATE (corl_uart s) = LED_SYS_STATE s"
  "LED_GPRS_STATE (corl_sys s) = LED_GPRS_STATE s" "LED_GPRS_STATE (corl_gprs s) = LED_GPRS_STATE s"
  "LED_GPRS_STATE (corl_uart s) = LED_GPRS_STATE s"
  "gpio_sys (corl_gprs s) = gpio_sys s" "gpio_sys (corl_uart s) = gpio_sys s"
  "gpio_net (corl_sys s) = gpio_net s" "gpio_net (corl_uart s) = gpio_net s"
  by (simp_all add: corl_sys_def corl_gprs_def corl_uart_def Let_def)

lemma u8_dec: "(t :: u8) \<noteq> 0 \<Longrightarrow> t \<le> k \<Longrightarrow> t - 1 \<le> k"
  by (simp add: word_le_nat_alt unat_minus_one)

lemma led_drv_write_cases:
  assumes "led_drv_write junk buf len s = Some (r, t)"
  obtains "t = s" | v where "t = s\<lparr>LED_GPRS_STATE := v\<rparr>" | v where "t = s\<lparr>LED_SYS_STATE := v\<rparr>"
    | v where "t = s\<lparr>LED_UART_STATE := v\<rparr>"
  using assms by (auto simp: led_drv_write_def Let_def elim!: bind_SomeE split: option.splits if_splits)

interpretation led: inductive_invariant "\<lambda>s. s = led_drv_init" led_step led_inv
proof
  show "led_inv s" if "s = led_drv_init" for s
    using that by (simp add: led_inv_def led_drv_init_def)
  show "led_inv t" if inv: "led_inv s" and st: "led_step s t" for s t
    using st
  proof (rule led_stepE)
    assume "t = LED_CORL s"
    then show ?thesis using inv u8_dec
      by (simp add: led_inv_def LED_CORL_def corl_uart_def led_modes Let_def)
  next
    fix junk buf len r assume "led_drv_write junk buf len s = Some (r, t)"
    then show ?thesis
      by (rule led_drv_write_cases) (use inv in \<open>simp_all add: led_inv_def\<close>)
  qed
qed

section \<open>Properties\<close>

lemma LED_CORL_simps:
  "COUNT (LED_CORL s) = COUNT s + 1"
  "LED_SYS_STATE (LED_CORL s) = LED_SYS_STATE s"
  "LED_GPRS_STATE (LED_CORL s) = LED_GPRS_STATE s"
  "gpio_sys (LED_CORL s) = gpio_sys (corl_sys (s\<lparr>COUNT := COUNT s + 1\<rparr>))"
  "gpio_net (LED_CORL s) = gpio_net (corl_gprs (corl_sys (s\<lparr>COUNT := COUNT s + 1\<rparr>)))"
  by (simp_all add: LED_CORL_def)

lemma ticks_frame:
  "COUNT ((LED_CORL ^^ n) s) = COUNT s + of_nat n"
  "LED_SYS_STATE ((LED_CORL ^^ n) s) = LED_SYS_STATE s"
  "LED_GPRS_STATE ((LED_CORL ^^ n) s) = LED_GPRS_STATE s"
  by (induction n) (simp_all add: LED_CORL_simps)

text \<open>C21. In every state the driver can reach by ticks and writes the counters of the two timed modes
  are in range, so that neither runs through the whole of its 8 bits.\<close>

theorem led_reachable_inv:
  assumes "reachable (\<lambda>s. s = led_drv_init) led_step s"
  shows "LED_UART_WINK_TIME s \<le> 6 \<and> LED_ON_DELAY_TIME s \<le> 5"
  using led.reachable_inv [OF assms] by (simp add: led_inv_def)

theorem led_reachable_inv_witness:
  "LED_UART_WINK_TIME (LED_CORL led_drv_init) \<le> 6 \<and> LED_ON_DELAY_TIME (LED_CORL led_drv_init) \<le> 5"
  by (rule led_reachable_inv) (auto intro: reachable.intros led_step.intros)

text \<open>One tick in the timed modes of the UART LED.\<close>

lemma uart_fast_tick:
  "LED_UART_STATE s = 1 \<Longrightarrow> LED_UART_WINK_TIME s \<noteq> 0 \<Longrightarrow>
     LED_UART_STATE (LED_CORL s) = 1 \<and> LED_UART_WINK_TIME (LED_CORL s) = LED_UART_WINK_TIME s - 1"
  "LED_UART_STATE s = 1 \<Longrightarrow> LED_UART_WINK_TIME s = 0 \<Longrightarrow>
     LED_UART_STATE (LED_CORL s) = 2 \<and> LED_UART_WINK_TIME (LED_CORL s) = 6"
  "LED_UART_STATE s = 3 \<Longrightarrow> LED_ON_DELAY_TIME s \<noteq> 0 \<Longrightarrow>
     LED_UART_STATE (LED_CORL s) = 3 \<and> LED_ON_DELAY_TIME (LED_CORL s) = LED_ON_DELAY_TIME s - 1 \<and>
     gpio_uart (LED_CORL s)"
  "LED_UART_STATE s = 3 \<Longrightarrow> LED_ON_DELAY_TIME s = 0 \<Longrightarrow>
     LED_UART_STATE (LED_CORL s) = 7 \<and> LED_ON_DELAY_TIME (LED_CORL s) = 5"
  by (simp_all add: LED_CORL_def corl_uart_def led_modes Let_def)

lemma uart_fast_ticks:
  assumes "LED_UART_STATE s = 1" "k \<le> unat (LED_UART_WINK_TIME s)"
  shows "LED_UART_STATE ((LED_CORL ^^ k) s) = 1 \<and>
    unat (LED_UART_WINK_TIME ((LED_CORL ^^ k) s)) = unat (LED_UART_WINK_TIME s) - k"
  using assms(2)
proof (induction k)
  case (Suc k)
  then have IH: "LED_UART_STATE ((LED_CORL ^^ k) s) = 1"
    "unat (LED_UART_WINK_TIME ((LED_CORL ^^ k) s)) = unat (LED_UART_WINK_TIME s) - k" by simp_all
  then have nz: "LED_UART_WINK_TIME ((LED_CORL ^^ k) s) \<noteq> 0" using Suc.prems by auto
  from uart_fast_tick(1) [OF IH(1) nz] IH(2) nz show ?case by (simp add: unat_minus_one)
qed (use assms in simp)

lemma uart_delay_ticks:
  assumes "LED_UART_STATE s = 3" "k \<le> unat (LED_ON_DELAY_TIME s)"
  shows "LED_UART_STATE ((LED_CORL ^^ k) s) = 3 \<and>
    unat (LED_ON_DELAY_TIME ((LED_CORL ^^ k) s)) = unat (LED_ON_DELAY_TIME s) - k \<and>
    (0 < k \<longrightarrow> gpio_uart ((LED_CORL ^^ k) s))"
  using assms(2)
proof (induction k)
  case (Suc k)
  then have IH: "LED_UART_STATE ((LED_CORL ^^ k) s) = 3"
    "unat (LED_ON_DELAY_TIME ((LED_CORL ^^ k) s)) = unat (LED_ON_DELAY_TIME s) - k" by simp_all
  then have nz: "LED_ON_DELAY_TIME ((LED_CORL ^^ k) s) \<noteq> 0" using Suc.prems by auto
  from uart_fast_tick(3) [OF IH(1) nz] IH(2) nz show ?case by (simp add: unat_minus_one)
qed (use assms in simp)

text \<open>Fast winking of the UART LED is limited: without a write it goes on for as many ticks as the
  counter says and the tick after that switches to slow winking, with the counter set again.\<close>

theorem uart_wink_fast_ends:
  assumes "LED_UART_STATE s = 1"
  shows "(\<forall>k \<le> unat (LED_UART_WINK_TIME s). LED_UART_STATE ((LED_CORL ^^ k) s) = 1) \<and>
    LED_UART_STATE ((LED_CORL ^^ Suc (unat (LED_UART_WINK_TIME s))) s) = 2 \<and>
    LED_UART_WINK_TIME ((LED_CORL ^^ Suc (unat (LED_UART_WINK_TIME s))) s) = 6"
proof -
  let ?n = "unat (LED_UART_WINK_TIME s)"
  have "LED_UART_STATE ((LED_CORL ^^ ?n) s) = 1" "LED_UART_WINK_TIME ((LED_CORL ^^ ?n) s) = 0"
    using uart_fast_ticks [OF assms, of ?n] by (simp_all add: unsigned_eq_0_iff)
  from uart_fast_tick(2) [OF this] uart_fast_ticks [OF assms] show ?thesis by simp
qed

theorem uart_wink_fast_ends_witness:
  "LED_UART_STATE ((LED_CORL ^^ 7) (led_drv_init\<lparr>LED_UART_STATE := 1\<rparr>)) = 2"
proof -
  have "LED_UART_STATE (led_drv_init\<lparr>LED_UART_STATE := 1\<rparr>) = 1" by simp
  from uart_wink_fast_ends [OF this] show ?thesis by (simp add: led_drv_init_def)
qed

text \<open>The delayed-off mode of the UART LED keeps it lit for as many ticks as the counter says; one tick
  later the mode is 7 and one more tick later the LED is dark.\<close>

theorem uart_on_delay_ends:
  assumes "LED_UART_STATE s = 3"
  shows "(\<forall>k. 0 < k \<and> k \<le> unat (LED_ON_DELAY_TIME s) \<longrightarrow> gpio_uart ((LED_CORL ^^ k) s)) \<and>
    LED_UART_STATE ((LED_CORL ^^ Suc (unat (LED_ON_DELAY_TIME s))) s) = 7 \<and>
    \<not> gpio_uart ((LED_CORL ^^ Suc (Suc (unat (LED_ON_DELAY_TIME s)))) s)"
proof -
  let ?n = "unat (LED_ON_DELAY_TIME s)"
  have "LED_UART_STATE ((LED_CORL ^^ ?n) s) = 3" "LED_ON_DELAY_TIME ((LED_CORL ^^ ?n) s) = 0"
    using uart_delay_ticks [OF assms, of ?n] by (simp_all add: unsigned_eq_0_iff)
  from uart_fast_tick(4) [OF this]
  have st: "LED_UART_STATE ((LED_CORL ^^ Suc ?n) s) = 7" by simp
  have "\<not> gpio_uart (LED_CORL t)" if "LED_UART_STATE t = 7" for t
    using that by (simp add: LED_CORL_def corl_uart_def led_modes)
  from this [OF st] st uart_delay_ticks [OF assms] show ?thesis by simp
qed

theorem uart_on_delay_ends_witness:
  "gpio_uart ((LED_CORL ^^ 5) (led_drv_init\<lparr>LED_UART_STATE := 3\<rparr>)) \<and>
   \<not> gpio_uart ((LED_CORL ^^ 7) (led_drv_init\<lparr>LED_UART_STATE := 3\<rparr>))"
proof -
  have "LED_UART_STATE (led_drv_init\<lparr>LED_UART_STATE := 3\<rparr>) = 3" by simp
  from uart_on_delay_ends [OF this] show ?thesis by (simp add: led_drv_init_def)
qed

text \<open>The slow mode of the GPRS LED does not wink: from the first tick that switches it on it stays
  lit for ever, because the branch that switched it off is commented out.\<close>

theorem gprs_slow_never_off:
  assumes "LED_GPRS_STATE s = 2" "gpio_net s"
  shows "gpio_net ((LED_CORL ^^ n) s)"
proof (induction n)
  case (Suc n)
  then show ?case using assms ticks_frame(3) [of n s]
    by (simp add: LED_CORL_simps corl_gprs_def led_modes)
qed (use assms in simp)

theorem gprs_slow_never_off_witness:
  "gpio_net ((LED_CORL ^^ 1000) (led_drv_init\<lparr>gpio_net := True\<rparr>))"
  by (rule gprs_slow_never_off) (simp_all add: led_drv_init_def)

text \<open>A write to the driver overflows the buffer of four bytes exactly when the caller passes more than
  four bytes; the driver does not limit the length.\<close>

theorem led_drv_write_overflow_iff:
  "led_drv_write junk (Some src) len s = None \<longleftrightarrow> 4 < min len (length src)"
  by (auto simp: led_drv_write_def mem_put_def Let_def)

text \<open>The three writes of seconddrvtest.c.\<close>

lemma seconddrvtest:
  "led_drv_write junk (Some (cs ''11'')) 2 s = Some (junk, s\<lparr>LED_GPRS_STATE := 1\<rparr>)"
  "led_drv_write junk (Some (cs ''22'')) 2 s = Some (junk, s\<lparr>LED_SYS_STATE := 2\<rparr>)"
  "led_drv_write junk (Some (cs ''32'')) 2 s = Some (junk, s\<lparr>LED_UART_STATE := 2\<rparr>)"
  by (simp_all add: led_drv_write_def mem_put_def cs_def of_char_def Let_def)

section \<open>second_drv.c\<close>

text \<open>
  The timer function of second_drv.c, on the same state (it has no LED_FLAG and no delayed-off
  mode); its globals start as 1, 0 and 0.
\<close>

definition second_init :: leds where
  "second_init = led_drv_init\<lparr>LED_SYS_STATE := 1, LED_GPRS_STATE := 0, LED_UART_STATE := 0\<rparr>"

definition second_gprs :: "leds \<Rightarrow> leds" where
  "second_gprs s =
     (if LED_GPRS_STATE s = LED_ON then s\<lparr>gpio_net := True\<rparr>
      else if LED_GPRS_STATE s = LED_WINK_FAST then s\<lparr>gpio_net := \<not> COUNT s mod 2 = 0\<rparr>
      else if LED_GPRS_STATE s = LED_WINK_SLOW then s\<lparr>gpio_net := \<not> COUNT s mod 5 = 0\<rparr>
      else s)"

definition second_uart :: "leds \<Rightarrow> leds" where
  "second_uart s =
     (if LED_UART_STATE s = LED_ON then s\<lparr>gpio_uart := True\<rparr>
      else if LED_UART_STATE s = LED_WINK_FAST then
        (let t = LED_UART_WINK_TIME s; s = s\<lparr>LED_UART_WINK_TIME := t - 1\<rparr>
         in if t \<noteq> 0 then s\<lparr>gpio_uart := \<not> COUNT s mod 2 = 0\<rparr>
            else s\<lparr>LED_UART_WINK_TIME := 6, LED_UART_STATE := 2\<rparr>)
      else if LED_UART_STATE s = LED_WINK_SLOW then s\<lparr>gpio_uart := \<not> COUNT s mod 5 = 0\<rparr>
      else s\<lparr>gpio_uart := False\<rparr>)"

definition second_LED_CORL :: "leds \<Rightarrow> leds" where
  "second_LED_CORL s = second_uart (second_gprs (corl_sys (s\<lparr>COUNT := COUNT s + 1\<rparr>)))"

text \<open>The two versions of the timer function agree outside of the two modes that were changed.\<close>

theorem second_LED_CORL_equiv:
  assumes "LED_GPRS_STATE s \<noteq> 2" "LED_UART_STATE s \<noteq> 3"
  shows "second_LED_CORL s = LED_CORL s"
proof -
  have "LED_GPRS_STATE (corl_sys t) = LED_GPRS_STATE t" "LED_UART_STATE (second_gprs t) = LED_UART_STATE t" for t
    by (simp_all add: second_gprs_def)
  then show ?thesis using assms
    by (simp add: second_LED_CORL_def LED_CORL_def second_gprs_def corl_gprs_def second_uart_def
        corl_uart_def led_modes Let_def)
qed

theorem second_LED_CORL_equiv_witness:
  "second_LED_CORL second_init = LED_CORL second_init"
  by (rule second_LED_CORL_equiv) (simp_all add: second_init_def)

end
