(* ===== verification/Timer.thy ===== *)
theory Timer
  imports Prelude "HOL-Library.Signed_Division"
begin

text \<open>
  time/time.c, the millisecond timers of the SDK, and time_substract of miscode/gettimeofday.c.
  The clock is an argument: every function gets what gettimeofday reports. Seconds are 64 bits
  wide and taken as exact; the values returned as a C int are cut to 32 bits. Division of C
  integers truncates (sdiv, smod).
\<close>

datatype timeval = Timeval (tv_sec: int) (tv_usec: int)

text \<open>timeval is ordered first by seconds, then by microseconds, as timercmp compares.\<close>

instantiation timeval :: linorder
begin

definition less_eq_timeval :: "timeval \<Rightarrow> timeval \<Rightarrow> bool" where
  "less_eq_timeval s t \<longleftrightarrow> tv_sec s < tv_sec t \<or> tv_sec s = tv_sec t \<and> tv_usec s \<le> tv_usec t"

definition less_timeval :: "timeval \<Rightarrow> timeval \<Rightarrow> bool" where
  "less_timeval s t \<longleftrightarrow> tv_sec s < tv_sec t \<or> tv_sec s = tv_sec t \<and> tv_usec s < tv_usec t"

instance
  by standard (auto simp: less_eq_timeval_def less_timeval_def intro: timeval.expand)

end

lemmas timeval_less = less_eq_timeval_def less_timeval_def

text \<open>The time in microseconds, and the values gettimeofday delivers.\<close>

definition usecs :: "timeval \<Rightarrow> int" where
  "usecs t = tv_sec t * 1000000 + tv_usec t"

definition normal :: "timeval \<Rightarrow> bool" where
  "normal t \<longleftrightarrow> 0 \<le> tv_usec t \<and> tv_usec t < 1000000"

text \<open>Conversion of a long to int.\<close>

definition to_int :: "int \<Rightarrow> int" where
  "to_int x = signed_take_bit 31 x"

section \<open>The macros of sys/time.h\<close>

definition timersub :: "timeval \<Rightarrow> timeval \<Rightarrow> timeval" where
  "timersub a b =
     (let s = tv_sec a - tv_sec b; u = tv_usec a - tv_usec b
      in if u < 0 then Timeval (s - 1) (u + 1000000) else Timeval s u)"

definition timeradd :: "timeval \<Rightarrow> timeval \<Rightarrow> timeval" where
  "timeradd a b =
     (let s = tv_sec a + tv_sec b; u = tv_usec a + tv_usec b
      in if 1000000 \<le> u then Timeval (s + 1) (u - 1000000) else Timeval s u)"

section \<open>time.c\<close>

definition aliyun_iot_timer_assignment :: "int \<Rightarrow> timeval" where
  "aliyun_iot_timer_assignment millisecond =
     Timeval (millisecond sdiv 1000) ((millisecond smod 1000) * 1000)"

definition aliyun_iot_timer_start_clock :: "timeval \<Rightarrow> timeval \<times> int" where
  "aliyun_iot_timer_start_clock now = (now, 0)"

definition aliyun_iot_timer_spend :: "timeval \<Rightarrow> timeval \<Rightarrow> int" where
  "aliyun_iot_timer_spend now start =
     (let res = timersub now start in to_int (tv_sec res * 1000 + tv_usec res sdiv 1000))"

definition aliyun_iot_timer_remain :: "timeval \<Rightarrow> timeval \<Rightarrow> int" where
  "aliyun_iot_timer_remain now end' =
     (let res = timersub end' now in to_int (tv_sec res * 1000 + tv_usec res sdiv 1000))"

definition aliyun_iot_timer_expired :: "timeval \<Rightarrow> timeval \<Rightarrow> bool" where
  "aliyun_iot_timer_expired now timer =
     (let res = timersub timer now in tv_sec res < 0 \<or> tv_sec res = 0 \<and> tv_usec res \<le> 0)"

definition aliyun_iot_timer_init :: timeval where
  "aliyun_iot_timer_init = Timeval 0 0"

definition aliyun_iot_timer_cutdown :: "timeval \<Rightarrow> u32 \<Rightarrow> timeval" where
  "aliyun_iot_timer_cutdown now millisecond =
     timeradd now (Timeval (uint (millisecond div 1000)) (uint (millisecond mod 1000 * 1000)))"

definition aliyun_iot_timer_now :: "int \<Rightarrow> u32" where
  "aliyun_iot_timer_now time = of_int (time * 1000)"

definition aliyun_iot_timer_interval :: "timeval \<Rightarrow> timeval \<Rightarrow> int" where
  "aliyun_iot_timer_interval start end' =
     to_int ((tv_sec end' - tv_sec start) * 1000 + (tv_usec end' - tv_usec start) sdiv 1000)"

section \<open>gettimeofday.c\<close>

text \<open>The return value and, when it is 0, the result.\<close>

definition time_substract :: "timeval \<Rightarrow> timeval \<Rightarrow> int \<times> timeval option" where
  "time_substract start' end' =
     (if tv_sec end' < tv_sec start' then (- 1, None)
      else if tv_sec start' = tv_sec end' \<and> tv_usec end' < tv_usec start' then (- 2, None)
      else
        let s = tv_sec end' - tv_sec start'; u = tv_usec end' - tv_usec start'
        in if u < 0 then (0, Some (Timeval (s - 1) (u + 1000000))) else (0, Some (Timeval s u)))"

section \<open>Lemmas\<close>

lemma le_usecs: "normal s \<Longrightarrow> normal t \<Longrightarrow> s \<le> t \<longleftrightarrow> usecs s \<le> usecs t"
  by (auto simp: timeval_less normal_def usecs_def)

lemma timersub_normal: "normal a \<Longrightarrow> normal b \<Longrightarrow> normal (timersub a b)"
  by (auto simp: timersub_def normal_def Let_def)

lemma timeradd_normal: "normal a \<Longrightarrow> normal b \<Longrightarrow> normal (timeradd a b)"
  by (auto simp: timeradd_def normal_def Let_def)

lemma timersub_usecs [simp]: "usecs (timersub a b) = usecs a - usecs b"
  by (auto simp: timersub_def usecs_def Let_def)

lemma timeradd_usecs [simp]: "usecs (timeradd a b) = usecs a + usecs b"
  by (auto simp: timeradd_def usecs_def Let_def)

lemma sdiv_1000: "(u :: int) sdiv 1000 = (if 0 \<le> u then u div 1000 else - (- u div 1000))"
  by (cases "0 :: int" u rule: linorder_cases) (simp_all add: signed_divide_int_def)

lemma sdiv_floor:
  "(u :: int) sdiv 1000 = u div 1000 + (if u < 0 \<and> \<not> 1000 dvd u then 1 else 0)"
  by (auto simp: sdiv_1000 zdiv_zminus1_eq_if dvd_eq_mod_eq_0)

lemma to_int_small: "- 2147483648 \<le> x \<Longrightarrow> x < 2147483648 \<Longrightarrow> to_int x = x"
  by (simp add: to_int_def signed_take_bit_int_eq_self)

text \<open>Milliseconds of a normal time are its microseconds rounded down.\<close>

lemma millis_floor: "normal t \<Longrightarrow> tv_sec t * 1000 + tv_usec t sdiv 1000 = usecs t div 1000"
proof -
  assume "normal t"
  moreover have "usecs t = tv_usec t + (tv_sec t * 1000) * 1000" by (simp add: usecs_def)
  then have "usecs t div 1000 = tv_sec t * 1000 + tv_usec t div 1000"
    by (simp only: div_mult_self1)
  ultimately show ?thesis by (simp add: sdiv_1000 normal_def)
qed

lemma cutdown_interval:
  "normal (Timeval (uint (ms div 1000)) (uint (ms mod 1000 * 1000)))"
  "usecs (Timeval (uint (ms div 1000)) (uint (ms mod 1000 * 1000))) = 1000 * uint (ms :: u32)"
proof -
  have m: "uint (ms mod 1000) = uint ms mod 1000" "uint (ms div 1000) = uint ms div 1000"
    by (simp_all add: uint_mod uint_div)
  have "uint (ms mod 1000 * 1000) = (uint (ms mod 1000) * 1000) mod 2 ^ 32"
    by (simp add: uint_word_arith_bintrs take_bit_eq_mod)
  also have "\<dots> = uint ms mod 1000 * 1000" unfolding m by (intro mod_pos_pos_trivial) auto
  finally have u: "uint (ms mod 1000 * 1000) = uint ms mod 1000 * 1000" .
  show "normal (Timeval (uint (ms div 1000)) (uint (ms mod 1000 * 1000)))"
    unfolding u normal_def by simp
  have "uint ms div 1000 * 1000 + uint ms mod 1000 = uint ms" by simp
  then show "usecs (Timeval (uint (ms div 1000)) (uint (ms mod 1000 * 1000))) = 1000 * uint ms"
    unfolding u usecs_def timeval.sel m by linarith
qed

section \<open>Properties\<close>

text \<open>C24. A timer set with cutdown to run for some milliseconds has expired at a later reading of the clock
  exactly when at least that many milliseconds have gone by; rounding never ends it early.\<close>

theorem timer_cutdown_expired_iff:
  assumes "normal start" "normal now"
  shows "aliyun_iot_timer_expired now (aliyun_iot_timer_cutdown start ms) \<longleftrightarrow>
    usecs start + 1000 * uint ms \<le> usecs now"
proof -
  let ?timer = "aliyun_iot_timer_cutdown start ms"
  have t: "normal ?timer" "usecs ?timer = usecs start + 1000 * uint ms"
    using timeradd_normal [OF assms(1) cutdown_interval(1)] cutdown_interval(2) [of ms]
    by (simp_all add: aliyun_iot_timer_cutdown_def)
  have n: "normal (timersub ?timer now)" by (rule timersub_normal [OF t(1) assms(2)])
  have "aliyun_iot_timer_expired now ?timer \<longleftrightarrow> usecs (timersub ?timer now) \<le> 0"
    using n by (auto simp: aliyun_iot_timer_expired_def Let_def normal_def usecs_def)
  then show ?thesis using t(2) by auto
qed

theorem timer_cutdown_expired_iff_witness:
  "\<not> aliyun_iot_timer_expired (Timeval 12 400) (aliyun_iot_timer_cutdown (Timeval 10 999500) 1001) \<and>
   aliyun_iot_timer_expired (Timeval 12 500) (aliyun_iot_timer_cutdown (Timeval 10 999500) 1001)"
proof -
  have n: "normal (Timeval 10 999500)" "normal (Timeval 12 400)" "normal (Timeval 12 500)"
    by (simp_all add: normal_def)
  show ?thesis
    using timer_cutdown_expired_iff [OF n(1,2), of 1001] timer_cutdown_expired_iff [OF n(1,3), of 1001]
    by (simp add: usecs_def)
qed

text \<open>spend gives the elapsed time in milliseconds, rounded down, as long as it fits an int; for longer
  spans (about 24.8 days) it wraps around to the negative numbers.\<close>

theorem timer_spend_floor:
  assumes "normal start" "normal now"
  shows "aliyun_iot_timer_spend now start = to_int ((usecs now - usecs start) div 1000) \<and>
    (usecs start \<le> usecs now \<longrightarrow> usecs now - usecs start < 2147483648000 \<longrightarrow>
       aliyun_iot_timer_spend now start = (usecs now - usecs start) div 1000)"
proof -
  have e: "aliyun_iot_timer_spend now start = to_int ((usecs now - usecs start) div 1000)"
    using millis_floor [OF timersub_normal [OF assms(2,1)]]
    by (simp add: aliyun_iot_timer_spend_def Let_def)
  moreover have "to_int ((usecs now - usecs start) div 1000) = (usecs now - usecs start) div 1000"
    if "usecs start \<le> usecs now" "usecs now - usecs start < 2147483648000"
  proof (rule to_int_small)
    show "- 2147483648 \<le> (usecs now - usecs start) div 1000"
      using that(1) pos_imp_zdiv_nonneg_iff [of 1000 "usecs now - usecs start"] by linarith
    show "(usecs now - usecs start) div 1000 < 2147483648" using that(2) by linarith
  qed
  ultimately show ?thesis by simp
qed

theorem timer_spend_floor_witness:
  "aliyun_iot_timer_spend (Timeval 2147484 0) (Timeval 0 0) = to_int 2147484000 \<and>
   to_int 2147484000 < 0"
proof -
  have n: "normal (Timeval 0 0)" "normal (Timeval 2147484 0)" by (simp_all add: normal_def)
  show ?thesis using timer_spend_floor [OF n]
    by (simp add: usecs_def to_int_def signed_take_bit_eq_if_positive signed_take_bit_def take_bit_eq_mod)
qed

text \<open>interval and spend disagree: interval divides the difference of the microseconds on its own, with
  truncation towards zero, and is one millisecond too large when that difference is negative and
  not a whole number of milliseconds.\<close>

theorem timer_interval_rounding:
  assumes "normal start" "normal end'"
  shows "aliyun_iot_timer_interval start end' =
    to_int ((usecs end' - usecs start) div 1000 +
      (if tv_usec end' < tv_usec start \<and> \<not> 1000 dvd tv_usec end' - tv_usec start then 1 else 0))"
proof -
  let ?u = "tv_usec end' - tv_usec start" and ?s = "tv_sec end' - tv_sec start"
  have "usecs end' - usecs start = ?u + (?s * 1000) * 1000" by (simp add: usecs_def algebra_simps)
  then have f: "(usecs end' - usecs start) div 1000 = ?s * 1000 + ?u div 1000"
    by (simp only: div_mult_self1)
  show ?thesis by (simp only: aliyun_iot_timer_interval_def f sdiv_floor add.assoc diff_less_0_iff_less)
qed

theorem timer_interval_rounding_witness:
  "aliyun_iot_timer_interval (Timeval 0 999999) (Timeval 1 0) = 1 \<and>
   aliyun_iot_timer_spend (Timeval 1 0) (Timeval 0 999999) = 0"
proof -
  have n: "normal (Timeval 0 999999)" "normal (Timeval 1 0)" by (simp_all add: normal_def)
  show ?thesis using timer_interval_rounding [OF n]
    by (simp add: usecs_def to_int_small aliyun_iot_timer_spend_def timersub_def sdiv_1000)
qed

text \<open>time_substract refuses exactly the intervals that end before they begin, and otherwise delivers a
  normal time with the exact difference.\<close>

theorem time_substract_spec:
  assumes "normal b" "normal e"
  shows "(case time_substract b e of
      (r, None) \<Rightarrow> r < 0 \<and> e < b
    | (r, Some d) \<Rightarrow> r = 0 \<and> b \<le> e \<and> normal d \<and> usecs d = usecs e - usecs b)"
  using assms by (auto simp: time_substract_def Let_def timeval_less normal_def usecs_def)

theorem time_substract_spec_witness:
  "time_substract (Timeval 1 900000) (Timeval 3 100000) = (0, Some (Timeval 1 200000)) \<and>
   fst (time_substract (Timeval 3 100000) (Timeval 1 900000)) < 0"
proof -
  have n: "normal (Timeval 1 900000)" "normal (Timeval 3 100000)" by (simp_all add: normal_def)
  have "time_substract (Timeval 1 900000) (Timeval 3 100000) = (0, Some (Timeval 1 200000))"
    by (simp add: time_substract_def)
  then show ?thesis
    using time_substract_spec [OF n(2,1)]
    by (cases "time_substract (Timeval 3 100000) (Timeval 1 900000)")
      (auto simp: timeval_less split: option.splits)
qed

end
