(* ===== verification/Filelist_Data.thy ===== *)
theory Filelist_Data
  imports Handout Posix
begin

text \<open>
  filelist/filelist_data.cpp: the list of names that is kept in a file of fixed-size records. An
  element of the vector has a flag and a char array of MAXLEN bytes; set_data writes the name
  into an array that was not initialised, whose contents are the parameter junk (one value for
  every length of the vector). A name that does not fit is undefined behaviour (None).
\<close>

definition MAXLEN :: nat where "MAXLEN = 64"

lemmas maxlen [simp] = MAXLEN_def

record file_path_stu =
  flag :: int
  data :: bytes

type_synonym filevect = "file_path_stu list"

definition set_data :: "(nat \<Rightarrow> bytes) \<Rightarrow> bytes \<Rightarrow> filevect \<Rightarrow> filevect option" where
  "set_data junk s v = do {
     d \<leftarrow> strcpy (junk (length v)) (cstr s);
     Some (v @ [\<lparr>flag = 0, data = d\<rparr>])
   }"

text \<open>
  readFilevect: fd is the result of open, p the buffer that is never cleared. The array p is
  turned into a string, which reads on to the first zero byte.
\<close>

fun read_records :: "(nat \<Rightarrow> bytes) \<Rightarrow> bytes \<Rightarrow> read_result list \<Rightarrow> filevect \<Rightarrow> filevect option" where
  "read_records junk p [] v = Some v"
| "read_records junk p (Read_error # rs) v = Some v"
| "read_records junk p (Read bs # rs) v =
     (if bs = [] then Some v
      else do {
        p \<leftarrow> mem_put p 0 bs;
        guard (terminated p);
        v \<leftarrow> set_data junk (cstr p) v;
        read_records junk p rs v
      })"

definition readFilevect :: "(nat \<Rightarrow> bytes) \<Rightarrow> bytes \<Rightarrow> int \<Rightarrow> read_result list \<Rightarrow> filevect \<Rightarrow> filevect option"
where
  "readFilevect junk p fd reads v = (if fd < 0 then Some v else read_records junk p reads v)"

text \<open>
  write_to_File: the new contents of the file. The result of fopen is not checked: fp is False
  when it failed, and fwrite and fclose get a null pointer.
\<close>

definition write_to_File :: "bool \<Rightarrow> filevect \<Rightarrow> bytes option" where
  "write_to_File fp v = (if fp then Some (concat (map (\<lambda>e. take MAXLEN (data e)) v)) else None)"

definition set_data_writefile :: "(nat \<Rightarrow> bytes) \<Rightarrow> bool \<Rightarrow> bytes \<Rightarrow> filevect \<Rightarrow> (filevect \<times> bytes) option"
where
  "set_data_writefile junk fp s v = do {
     v \<leftarrow> set_data junk s v;
     out \<leftarrow> write_to_File fp v;
     Some (v, out)
   }"

fun get_data :: "filevect \<Rightarrow> bytes \<times> filevect" where
  "get_data [] = ([], [])"
| "get_data (e # v) =
     (if flag e = 0 then (cstr (data e), e\<lparr>flag := 1\<rparr> # v)
      else let (s, v') = get_data v in (s, e # v'))"

fun clear_data :: "bytes \<Rightarrow> filevect \<Rightarrow> filevect" where
  "clear_data s [] = []"
| "clear_data s (e # v) = (if cstr (data e) = s then v else e # clear_data s v)"

definition clear_data_writefile :: "bool \<Rightarrow> bytes \<Rightarrow> filevect \<Rightarrow> (filevect \<times> bytes) option" where
  "clear_data_writefile fp s v = do {
     let v = clear_data s v;
     out \<leftarrow> write_to_File fp v;
     Some (v, out)
   }"

section \<open>The contract of the queue\<close>

definition record_ok :: "file_path_stu \<Rightarrow> bool" where
  "record_ok e \<longleftrightarrow> length (data e) = MAXLEN \<and> terminated (data e)"

definition tickets_of :: "filevect \<Rightarrow> tickets" where
  "tickets_of v = map (\<lambda>e. (cstr (data e), flag e \<noteq> 0)) v"

definition name_fits :: "bytes \<Rightarrow> bool" where
  "name_fits s \<longleftrightarrow> 0 \<notin> set s \<and> length s < MAXLEN"

lemma set_data_ok:
  assumes "\<forall>n. length (junk n) = MAXLEN" "name_fits s" "\<forall>e \<in> set v. record_ok e"
  shows "\<exists>d. set_data junk s v = Some (v @ [\<lparr>flag = 0, data = d\<rparr>]) \<and> cstr d = s \<and>
    record_ok \<lparr>flag = 0, data = d\<rparr>"
proof -
  have "cstr s = s" using assms(2) by (simp add: name_fits_def cstr_id)
  moreover obtain d where d: "strcpy (junk (length v)) s = Some d"
    using assms(1,2) by (simp add: strcpy_eq name_fits_def)
  moreover have "cstr d = s \<and> terminated d \<and> length d = MAXLEN"
    using strcpy_SomeD [OF d] assms(1,2) by (simp add: name_fits_def)
  ultimately show ?thesis by (simp add: set_data_def record_ok_def)
qed

lemma get_data_spec:
  "get_data v = (s, v') \<Longrightarrow> \<forall>e \<in> set v. record_ok e \<Longrightarrow>
     (\<forall>e \<in> set v'. record_ok e) \<and> hand_out (tickets_of v) = (s, tickets_of v')"
  by (induction v arbitrary: s v' rule: get_data.induct)
    (auto simp: tickets_of_def record_ok_def split: if_splits prod.splits)

lemma clear_data_spec:
  "\<forall>e \<in> set v. record_ok e \<Longrightarrow> (\<forall>e \<in> set (clear_data s v). record_ok e) \<and>
     tickets_of (clear_data s v) = remove_first s (tickets_of v)"
  by (induction s v rule: clear_data.induct) (auto simp: tickets_of_def)

text \<open>Whatever the stack holds, the class is a hand-out queue.\<close>

locale stack_junk =
  fixes junk :: "nat \<Rightarrow> bytes"
  assumes length_junk: "length (junk n) = MAXLEN"

sublocale stack_junk \<subseteq> data: handout_queue tickets_of "\<lambda>v. \<forall>e \<in> set v. record_ok e" name_fits
  "set_data junk" get_data clear_data
proof
  show "\<exists>q'. set_data junk x q = Some q' \<and> (\<forall>e \<in> set q'. record_ok e) \<and>
      tickets_of q' = tickets_of q @ [(x, False)]"
    if "\<forall>e \<in> set q. record_ok e" "name_fits x" for q x
    using set_data_ok [of junk, OF _ that(2,1)] length_junk that(1) by (auto simp: tickets_of_def)
qed (use get_data_spec clear_data_spec in \<open>blast+\<close>)

context stack_junk
begin

lemmas put_all_drain = data.put_all_drain

end

interpretation data_queue: stack_junk "\<lambda>n. replicate 64 255"
  by unfold_locales simp

section \<open>Restart\<close>

lemma file_reads_record:
  assumes "length d = MAXLEN"
  shows "file_reads MAXLEN (d @ rest) = Read d # file_reads MAXLEN rest"
  using assms by (subst file_reads.simps) auto

lemma read_records_back:
  assumes "\<forall>n. length (junk n) = MAXLEN"
  shows "length p = MAXLEN \<Longrightarrow> \<forall>e \<in> set v. record_ok e \<Longrightarrow> \<forall>e \<in> set w. record_ok e \<Longrightarrow>
    \<exists>v'. read_records junk p (file_reads MAXLEN (concat (map (\<lambda>e. take MAXLEN (data e)) v))) w =
        Some (w @ v') \<and> tickets_of v' = map (\<lambda>e. (cstr (data e), False)) v \<and> (\<forall>e \<in> set v'. record_ok e)"
proof (induction v arbitrary: p w)
  case Nil
  then show ?case by (simp add: file_reads.simps tickets_of_def)
next
  case (Cons e v)
  have e: "length (data e) = MAXLEN" "terminated (data e)" "data e \<noteq> []"
    using Cons.prems(2) by (auto simp: record_ok_def)
  have put: "mem_put p 0 (data e) = Some (data e)"
    using Cons.prems(1) e(1) by (simp add: mem_put_def)
  have fit: "name_fits (cstr (data e))"
    using cstr_length_less [OF e(2)] e(1) by (simp add: name_fits_def)
  obtain d where d: "set_data junk (cstr (data e)) w = Some (w @ [\<lparr>flag = 0, data = d\<rparr>])"
    "cstr d = cstr (data e)" "record_ok \<lparr>flag = 0, data = d\<rparr>"
    using set_data_ok [OF assms fit Cons.prems(3)] by blast
  have w': "\<forall>x \<in> set (w @ [\<lparr>flag = 0, data = d\<rparr>]). record_ok x" using Cons.prems(3) d(3) by simp
  from Cons.prems(2) have "\<forall>e \<in> set v. record_ok e" by simp
  from Cons.IH [OF e(1) this w'] obtain v' where
    v': "read_records junk (data e) (file_reads MAXLEN (concat (map (\<lambda>e. take MAXLEN (data e)) v)))
        (w @ [\<lparr>flag = 0, data = d\<rparr>]) = Some ((w @ [\<lparr>flag = 0, data = d\<rparr>]) @ v')"
    "tickets_of v' = map (\<lambda>e. (cstr (data e), False)) v" "\<forall>e \<in> set v'. record_ok e" by blast
  have "concat (map (\<lambda>e. take MAXLEN (data e)) (e # v)) =
      data e @ concat (map (\<lambda>e. take MAXLEN (data e)) v)" using e(1) by simp
  then have "read_records junk p (file_reads MAXLEN (concat (map (\<lambda>e. take MAXLEN (data e)) (e # v)))) w =
      Some (w @ (\<lparr>flag = 0, data = d\<rparr> # v'))"
    unfolding \<open>concat _ = _\<close> file_reads_record [OF e(1)] using e(2,3) put d(1) v'(1) by simp
  then show ?case using v'(2,3) d(2,3)
    by (intro exI [of _ "\<lparr>flag = 0, data = d\<rparr> # v'"]) (auto simp: tickets_of_def)
qed

section \<open>Properties\<close>

text \<open>C25. What write_to_File stores is read back by the next run of the program: the same names in the same
  order, all of them to be handed out again, since the flags are not stored.\<close>

theorem filelist_restart:
  assumes "\<forall>n. length (junk n) = MAXLEN" "length p = MAXLEN" "0 \<le> fd" "\<forall>e \<in> set v. record_ok e"
    and "write_to_File fp v = Some out"
  shows "\<exists>v'. readFilevect junk p fd (file_reads MAXLEN out) [] = Some v' \<and>
    tickets_of v' = map (\<lambda>e. (cstr (data e), False)) v"
  using read_records_back [OF assms(1,2,4), of "[]"] assms(3,5)
  by (auto simp: write_to_File_def readFilevect_def split: if_splits)

theorem filelist_restart_witness:
  "\<exists>v'. readFilevect (\<lambda>n. replicate 64 7) (replicate 64 9) 3
      (file_reads MAXLEN (cs ''/mnt/x'' @ bzero 58)) [] = Some v' \<and>
    tickets_of v' = [(cs ''/mnt/x'', False)]"
proof -
  let ?v = "[\<lparr>flag = 1, data = cs ''/mnt/x'' @ bzero 58\<rparr>]"
  have z: "bzero 58 = 0 # bzero 57" by (simp add: bzero_def numeral_eq_Suc)
  have c: "cstr (cs ''/mnt/x'' @ bzero 58) = cs ''/mnt/x''"
    unfolding z by (rule cstr_append_zero) (simp add: cs_def of_char_def)
  have "\<forall>n. length (replicate 64 (7 :: u8)) = MAXLEN" "length (replicate 64 (9 :: u8)) = MAXLEN" "(0 :: int) \<le> 3"
    "\<forall>e \<in> set ?v. record_ok e" "write_to_File True ?v = Some (cs ''/mnt/x'' @ bzero 58)"
    by (simp_all add: record_ok_def write_to_File_def terminated_def cs_def z)
  from filelist_restart [OF this] show ?thesis using c by simp
qed

text \<open>The names put into the list are handed out in their order, each of them once, after those that are
  still waiting.\<close>

theorem filelist_data_order:
  assumes "\<forall>n. length (junk n) = MAXLEN" "\<forall>e \<in> set v. record_ok e" "\<forall>x \<in> set xs. name_fits x"
  shows "\<exists>v1. put_all (set_data junk) xs v = Some v1 \<and>
    fst (get_n get_data (length (pending (tickets_of v)) + length xs + k) v1) =
      pending (tickets_of v) @ xs @ replicate k []"
  by (rule stack_junk.put_all_drain) (use assms in \<open>simp_all add: stack_junk_def\<close>)

theorem filelist_data_order_witness:
  "\<exists>v1. put_all (set_data (\<lambda>n. replicate 64 255)) [cs ''b'', cs ''c''] [\<lparr>flag = 0, data = cs ''a'' @ bzero 63\<rparr>] =
       Some v1 \<and>
     fst (get_n get_data 4 v1) = [cs ''a'', cs ''b'', cs ''c'', []]"
proof -
  let ?v = "[\<lparr>flag = 0, data = cs ''a'' @ bzero 63\<rparr>]"
  have z: "bzero 63 = 0 # bzero 62" by (simp add: bzero_def numeral_eq_Suc)
  have c: "cstr (cs ''a'' @ bzero 63) = cs ''a''"
    unfolding z by (rule cstr_append_zero) (simp add: cs_def of_char_def)
  have p: "pending (tickets_of ?v) = [cs ''a'']" by (simp add: tickets_of_def c)
  have "\<forall>n. length (replicate 64 (255 :: u8)) = MAXLEN" "\<forall>e \<in> set ?v. record_ok e"
    "\<forall>x \<in> set [cs ''b'', cs ''c'']. name_fits x"
    by (simp_all add: record_ok_def name_fits_def terminated_def cs_def of_char_def z)
  from filelist_data_order [OF this, of 1]
  have "\<exists>v1. put_all (set_data (\<lambda>n. replicate 64 255)) [cs ''b'', cs ''c''] ?v = Some v1 \<and>
      fst (get_n get_data (length (pending (tickets_of ?v)) + length [cs ''b'', cs ''c''] + 1) v1) =
        [cs ''a'', cs ''b'', cs ''c'', []]"
    unfolding p by simp
  moreover have "length (pending (tickets_of ?v)) + length [cs ''b'', cs ''c''] + 1 = 4" unfolding p by simp
  ultimately show ?thesis by metis
qed

text \<open>A name of MAXLEN or more bytes is written behind the array of the record.\<close>

theorem set_data_overflow_iff:
  assumes "length (junk (length v)) = MAXLEN"
  shows "set_data junk s v = None \<longleftrightarrow> MAXLEN \<le> length (cstr s)"
  using assms by (auto simp: set_data_def strcpy_eq)

theorem set_data_overflow_iff_witness:
  "set_data (\<lambda>n. replicate 64 0) (replicate 64 0x61) [] = None"
proof -
  have "length (replicate 64 (0 :: u8)) = MAXLEN" "cstr (replicate 64 0x61) = replicate 64 0x61"
    by (simp_all add: cstr_id)
  from set_data_overflow_iff [of "\<lambda>n. replicate 64 0" "[]" "replicate 64 0x61"] this show ?thesis by simp
qed

end
