(* ===== verification/Gps.thy ===== *)
theory Gps
  imports Complex_Main MD5_File
begin

text \<open>
  gps/gps.cpp: the thread that reads NMEA sentences byte by byte, splits them into fields and
  keeps the flag that says whether the position is known. Numbers are exact rationals: the
  rounding of double is left out. num is the number that a string stream extracts from a field.
\<close>

text \<open>signals counts the calls of pthread_cond_signal.\<close>

record gps =
  is_positioning :: bool
  signals :: nat

section \<open>Coordinates\<close>

definition trunc :: "rat \<Rightarrow> int" where
  "trunc x = (if 0 \<le> x then \<lfloor>x\<rfloor> else \<lceil>x\<rceil>)"

text \<open>The value of ddmm.mmmm in degrees; None is a conversion to int out of range.\<close>

definition degrees :: "rat \<Rightarrow> rat option" where
  "degrees v =
     (let temp = v / 100; tempint = trunc temp
      in if - (2 ^ 31) \<le> tempint \<and> tempint < 2 ^ 31
         then Some (of_int tempint + (temp - of_int tempint) * 10 / 6) else None)"

definition LongitudeToValue :: "rat \<Rightarrow> bytes \<Rightarrow> rat option" where
  "LongitudeToValue longitude ori = do {
     temp \<leftarrow> degrees longitude;
     Some (if ori = cs ''W'' then - temp else if ori = cs ''E'' then temp else 0)
   }"

definition LatitudeToValue :: "rat \<Rightarrow> bytes \<Rightarrow> rat option" where
  "LatitudeToValue latitude ori = do {
     temp \<leftarrow> degrees latitude;
     Some (if ori = cs ''S'' then - temp else if ori = cs ''N'' then temp else 0)
   }"

section \<open>One sentence\<close>

text \<open>data[i] of the C++ vector: an index outside of it is undefined behaviour.\<close>

definition elem_at :: "bytes list \<Rightarrow> nat \<Rightarrow> bytes option" where
  "elem_at d i = (if i < length d then Some (d ! i) else None)"

text \<open>
  The conversion of the coordinate in field i with the orientation in field j. Its result is not
  used: the calls that stored it are commented out.
\<close>

definition convert :: "(bytes \<Rightarrow> rat) \<Rightarrow> (rat \<Rightarrow> bytes \<Rightarrow> rat option) \<Rightarrow> nat \<Rightarrow> nat \<Rightarrow> bytes list \<Rightarrow> unit option"
where
  "convert num conv i j d = do {
     f \<leftarrow> elem_at d i;
     if f = [] then Some ()
     else do {
       ori \<leftarrow> elem_at d j;
       _ \<leftarrow> conv (num f) ori;
       Some ()
     }
   }"

definition OnGPSReceived :: "(bytes \<Rightarrow> rat) \<Rightarrow> bytes list \<Rightarrow> gps \<Rightarrow> gps option" where
  "OnGPSReceived num d g =
     (if d = [] then Some g
      else if d ! 0 = cs ''$GNGGA'' then do {
        convert num LatitudeToValue 2 3 d;
        convert num LongitudeToValue 4 5 d;
        _ \<leftarrow> elem_at d 9;
        _ \<leftarrow> elem_at d 7;
        Some g
      }
      else if d ! 0 = cs ''$GNRMC'' then do {
        status \<leftarrow> elem_at d 2;
        if status = cs ''A'' then do {
          convert num LatitudeToValue 3 4 d;
          convert num LongitudeToValue 5 6 d;
          Some (g\<lparr>is_positioning := True, signals := signals g + 1\<rparr>)
        }
        else if status = cs ''V'' then Some (g\<lparr>is_positioning := False\<rparr>)
        else Some g
      }
      else Some g)"

text \<open>
  StringToArray: the extraction of a character skips white space. Fields are appended to list.
\<close>

definition isspace :: "u8 \<Rightarrow> bool" where
  "isspace c \<longleftrightarrow> c = 0x20 \<or> (9 \<le> c \<and> c \<le> 13)"

fun split_fields :: "bytes \<Rightarrow> bytes \<Rightarrow> bytes list \<Rightarrow> bytes list" where
  "split_fields [] buf lst = lst @ [buf]"
| "split_fields (ch # iss) buf lst =
     (if isspace ch then split_fields iss buf lst
      else if ch = 0x2C then split_fields iss [] (lst @ [buf])
      else split_fields iss (buf @ [ch]) lst)"

definition StringToArray :: "bytes \<Rightarrow> bytes list \<Rightarrow> bytes list" where
  "StringToArray str lst = split_fields str [] lst"

section \<open>The thread\<close>

text \<open>
  One turn of GPSReceiveThread. read returns one byte, no byte after the timeout of three
  seconds that OpenGPS sets (VTIME), or an error. Only the error is told apart: after a timeout
  ch still holds the byte read before.
\<close>

record receiver =
  ch :: u8
  line :: bytes
  dev :: gps

definition gps_turn :: "(bytes \<Rightarrow> rat) \<Rightarrow> read_result \<Rightarrow> receiver \<Rightarrow> receiver option" where
  "gps_turn num r s =
     (case r of
        Read_error \<Rightarrow> Some s
      | Read bs \<Rightarrow>
          let c = (case bs of [] \<Rightarrow> ch s | b # _ \<Rightarrow> b); s = s\<lparr>ch := c\<rparr>
          in if c = 0x0A \<or> c = 0x0D
             then (if line s \<noteq> []
                   then do {
                     g \<leftarrow> OnGPSReceived num (StringToArray (line s) []) (dev s);
                     Some (s\<lparr>line := [], dev := g\<rparr>)
                   }
                   else Some s)
             else Some (s\<lparr>line := line s @ [c]\<rparr>))"

fun GPSReceiveThread :: "(bytes \<Rightarrow> rat) \<Rightarrow> read_result list \<Rightarrow> receiver \<Rightarrow> receiver option" where
  "GPSReceiveThread num [] s = Some s"
| "GPSReceiveThread num (r # rs) s = Option.bind (gps_turn num r s) (GPSReceiveThread num rs)"

text \<open>
  WaitPositioningComplete: whether the position is known by the time given; timedout says
  whether pthread_cond_timedwait returns an error.
\<close>

definition WaitPositioningComplete :: "bool \<Rightarrow> gps \<Rightarrow> bool" where
  "WaitPositioningComplete timedout g = (if \<not> is_positioning g then (if timedout then False else True) else True)"

section \<open>Splitting\<close>

fun join :: "bytes list \<Rightarrow> bytes" where
  "join [] = []"
| "join [f] = f"
| "join (f # fs) = f @ 0x2C # join fs"

definition clean :: "bytes \<Rightarrow> bool" where
  "clean f \<longleftrightarrow> (\<forall>c \<in> set f. \<not> isspace c \<and> c \<noteq> 0x2C)"

lemma not_space_comma: "\<not> isspace 0x2C"
  by (simp add: isspace_def)

lemma split_fields_clean:
  "clean f \<Longrightarrow> split_fields (f @ t) buf lst = split_fields t (buf @ f) lst"
  by (induction f arbitrary: buf) (simp_all add: clean_def)

lemma split_fields_join:
  "fs \<noteq> [] \<Longrightarrow> \<forall>f \<in> set fs. clean f \<Longrightarrow> split_fields (join fs) [] lst = lst @ fs"
proof (induction fs arbitrary: lst rule: join.induct)
  case (2 f)
  then show ?case using split_fields_clean [of f "[]"] by simp
next
  case (3 f g fs)
  then show ?case using split_fields_clean [of f "0x2C # join (g # fs)"] by (simp add: not_space_comma)
qed simp

text \<open>What a sentence means for the flag.\<close>

definition on_sentence :: "bytes list \<Rightarrow> gps \<Rightarrow> gps" where
  "on_sentence d g =
     (if d \<noteq> [] \<and> d ! 0 = cs ''$GNRMC'' \<and> d ! 2 = cs ''A''
      then g\<lparr>is_positioning := True, signals := signals g + 1\<rparr>
      else if d \<noteq> [] \<and> d ! 0 = cs ''$GNRMC'' \<and> d ! 2 = cs ''V'' then g\<lparr>is_positioning := False\<rparr>
      else g)"

text \<open>The sentences the code reads inside of its vector and converts in range.\<close>

definition coordinate_ok :: "(bytes \<Rightarrow> rat) \<Rightarrow> nat \<Rightarrow> bytes list \<Rightarrow> bool" where
  "coordinate_ok num i d \<longleftrightarrow> i < length d \<and>
     (d ! i = [] \<or> (Suc i < length d \<and> degrees (num (d ! i)) \<noteq> None))"

definition sentence_ok :: "(bytes \<Rightarrow> rat) \<Rightarrow> bytes list \<Rightarrow> bool" where
  "sentence_ok num d \<longleftrightarrow>
     (d \<noteq> [] \<and> d ! 0 = cs ''$GNGGA'' \<longrightarrow> coordinate_ok num 2 d \<and> coordinate_ok num 4 d \<and> 9 < length d) \<and>
     (d \<noteq> [] \<and> d ! 0 = cs ''$GNRMC'' \<longrightarrow> 2 < length d \<and>
        (d ! 2 = cs ''A'' \<longrightarrow> coordinate_ok num 3 d \<and> coordinate_ok num 5 d))"

lemma convert_Some:
  "convert num LatitudeToValue i (Suc i) d = (if coordinate_ok num i d then Some () else None)"
  "convert num LongitudeToValue i (Suc i) d = (if coordinate_ok num i d then Some () else None)"
  by (auto simp: convert_def coordinate_ok_def elem_at_def LatitudeToValue_def LongitudeToValue_def)

lemma convert_nums:
  "convert num LatitudeToValue 2 3 d = (if coordinate_ok num 2 d then Some () else None)"
  "convert num LongitudeToValue 4 5 d = (if coordinate_ok num 4 d then Some () else None)"
  "convert num LatitudeToValue 3 4 d = (if coordinate_ok num 3 d then Some () else None)"
  "convert num LongitudeToValue 5 6 d = (if coordinate_ok num 5 d then Some () else None)"
  using convert_Some [of num 2 d] convert_Some [of num 4 d] convert_Some [of num 3 d] convert_Some [of num 5 d]
  by simp_all

lemma talkers: "cs ''$GNGGA'' \<noteq> cs ''$GNRMC''" "cs ''A'' \<noteq> cs ''V''"
  by (simp_all add: cs_def of_char_def)

lemma OnGPSReceived_eq:
  "OnGPSReceived num d g = (if sentence_ok num d then Some (on_sentence d g) else None)"
  using talkers
  by (auto simp: OnGPSReceived_def sentence_ok_def on_sentence_def convert_nums elem_at_def)

lemma GPSReceiveThread_append:
  "GPSReceiveThread num (rs @ rs') s = Option.bind (GPSReceiveThread num rs s) (GPSReceiveThread num rs')"
  by (induction rs arbitrary: s) (auto split: bind_splits)

definition byte_reads :: "bytes \<Rightarrow> read_result list" where
  "byte_reads s = map (\<lambda>b. Read [b]) s"

lemma byte_reads_simps [simp]:
  "byte_reads [] = []" "byte_reads (b # s) = Read [b] # byte_reads s"
  "byte_reads (s @ t) = byte_reads s @ byte_reads t"
  by (simp_all add: byte_reads_def)

lemma thread_in_line:
  assumes "\<forall>c \<in> set s. c \<noteq> 0x0A \<and> c \<noteq> 0x0D"
  shows "GPSReceiveThread num (byte_reads s) r =
    Some (r\<lparr>ch := (if s = [] then ch r else last s), line := line r @ s\<rparr>)"
  using assms by (induction s arbitrary: r) (simp_all add: gps_turn_def Let_def)

lemma thread_sentence:
  assumes "f \<noteq> []" "\<forall>x \<in> set f. clean x" "join f \<noteq> []" "sentence_ok num f" "line r = []"
  shows "GPSReceiveThread num (byte_reads (join f @ [0x0D, 0x0A])) r =
    Some (r\<lparr>ch := 0x0A, dev := on_sentence f (dev r)\<rparr>)"
proof -
  have "\<forall>c \<in> set (join f). c \<noteq> 0x0A \<and> c \<noteq> 0x0D"
    using assms(2) by (induction f rule: join.induct) (auto simp: clean_def isspace_def)
  from thread_in_line [OF this, of num r] split_fields_join [OF assms(1,2), of "[]"] assms(3-5)
  show ?thesis
    by (simp add: GPSReceiveThread_append gps_turn_def StringToArray_def OnGPSReceived_eq Let_def)
qed

section \<open>Properties\<close>

text \<open>The fields of a sentence, put together with commas, are found again, empty ones included.\<close>

theorem StringToArray_join:
  assumes "fs \<noteq> []" "\<forall>f \<in> set fs. clean f"
  shows "StringToArray (join fs) lst = lst @ fs"
  using split_fields_join [OF assms] by (simp add: StringToArray_def)

theorem StringToArray_join_witness:
  "StringToArray (cs ''$GNRMC,,V'') [] = [cs ''$GNRMC'', [], cs ''V'']"
proof -
  have "[cs ''$GNRMC'', [], cs ''V''] \<noteq> []" "\<forall>f \<in> set [cs ''$GNRMC'', [], cs ''V'']. clean f"
    by (simp_all add: clean_def isspace_def cs_def of_char_def)
  from StringToArray_join [OF this, of "[]"] show ?thesis by (simp add: cs_def of_char_def)
qed

lemma receive_sentences:
  assumes "\<forall>f \<in> set sentences. f \<noteq> [] \<and> (\<forall>x \<in> set f. clean x) \<and> join f \<noteq> [] \<and> sentence_ok num f"
    and "line r = []"
  shows "\<exists>r'. GPSReceiveThread num (byte_reads (concat (map (\<lambda>f. join f @ [0x0D, 0x0A]) sentences))) r =
      Some r' \<and> line r' = [] \<and> dev r' = fold on_sentence sentences (dev r)"
  using assms
proof (induction sentences arbitrary: r)
  case (Cons f fs)
  then have "GPSReceiveThread num (byte_reads (join f @ [0x0D, 0x0A])) r =
      Some (r\<lparr>ch := 0x0A, dev := on_sentence f (dev r)\<rparr>)" by (intro thread_sentence) simp_all
  moreover have "concat (map (\<lambda>f. join f @ [0x0D, 0x0A]) (f # fs)) =
      (join f @ [0x0D, 0x0A]) @ concat (map (\<lambda>f. join f @ [0x0D, 0x0A]) fs)" by simp
  ultimately show ?case
    using Cons.IH [of "r\<lparr>ch := 0x0A, dev := on_sentence f (dev r)\<rparr>"] Cons.prems
    by (simp only: byte_reads_simps(3) GPSReceiveThread_append) simp
qed simp

text \<open>C14. A stream of complete sentences, however it is cut into lines of fields, leaves the receiver with the
  flag of the last position status sentence; the thread reads every sentence inside its vector.\<close>

theorem gps_stream:
  assumes "\<forall>f \<in> set sentences. f \<noteq> [] \<and> (\<forall>x \<in> set f. clean x) \<and> join f \<noteq> [] \<and> sentence_ok num f"
    and "line r = []"
  shows "\<exists>r'. GPSReceiveThread num (byte_reads (concat (map (\<lambda>f. join f @ [0x0D, 0x0A]) sentences))) r =
      Some r' \<and> line r' = [] \<and> dev r' = fold on_sentence sentences (dev r)"
  using assms by (rule receive_sentences)

theorem gps_stream_witness:
  "\<exists>r'. GPSReceiveThread (\<lambda>_. 3723) (byte_reads (cs ''$GNRMC,,A,3723,N,,'' @ [13, 10] @ cs ''$GNRMC,,V'' @ [13, 10]))
       \<lparr>ch = 7, line = [], dev = \<lparr>is_positioning = True, signals = 0\<rparr>\<rparr> = Some r' \<and>
     dev r' = \<lparr>is_positioning = False, signals = 1\<rparr>"
proof -
  let ?s = "[[cs ''$GNRMC'', [], cs ''A'', cs ''3723'', cs ''N'', [], []], [cs ''$GNRMC'', [], cs ''V'']]"
  let ?r = "\<lparr>ch = 7, line = [], dev = \<lparr>is_positioning = True, signals = 0\<rparr>\<rparr>"
  have d: "degrees 3723 \<noteq> None"
  proof -
    have "\<lfloor>3723 / 100 :: rat\<rfloor> = 37" by (rule floor_unique) simp_all
    then show ?thesis by (simp add: degrees_def trunc_def Let_def)
  qed
  have h: "\<forall>f \<in> set ?s. f \<noteq> [] \<and> (\<forall>x \<in> set f. clean x) \<and> join f \<noteq> [] \<and> sentence_ok (\<lambda>_. 3723) f"
    using d by (simp add: clean_def isspace_def sentence_ok_def coordinate_ok_def cs_def of_char_def)
  have j: "concat (map (\<lambda>f. join f @ [0x0D, 0x0A]) ?s) =
      cs ''$GNRMC,,A,3723,N,,'' @ [13, 10] @ cs ''$GNRMC,,V'' @ [13, 10]"
    by (simp add: cs_def of_char_def)
  have f: "fold on_sentence ?s (dev ?r) = \<lparr>is_positioning = False, signals = 1\<rparr>"
    by (simp add: on_sentence_def cs_def of_char_def)
  from gps_stream [OF h, of ?r] show ?thesis unfolding j f by auto
qed

text \<open>A timeout of the read is taken for one more byte: the effect is that of receiving the previous byte
  again, so that a pause inside a sentence changes the sentence.\<close>

theorem gps_timeout_repeats_byte:
  assumes "s \<noteq> []"
  shows "GPSReceiveThread num (byte_reads s @ Read [] # rs) r =
    GPSReceiveThread num (byte_reads s @ Read [last s] # rs) r"
proof -
  have ch: "GPSReceiveThread num (byte_reads s) r = Some r' \<Longrightarrow> ch r' = last s" for r'
    using assms
  proof (induction s arbitrary: r)
    case (Cons b s)
    from Cons.prems(1) obtain r1 where r1: "gps_turn num (Read [b]) r = Some r1"
      "GPSReceiveThread num (byte_reads s) r1 = Some r'" by (auto elim: bind_SomeE)
    have "ch r1 = b" using r1(1) by (auto simp: gps_turn_def Let_def elim!: bind_SomeE split: if_splits)
    then show ?case using Cons.IH [OF r1(2)] r1(2) by (cases "s = []") simp_all
  qed simp
  show ?thesis
  proof (cases "GPSReceiveThread num (byte_reads s) r")
    case (Some r')
    then show ?thesis using ch [OF Some] by (simp add: GPSReceiveThread_append gps_turn_def)
  qed (simp add: GPSReceiveThread_append)
qed

theorem gps_timeout_repeats_byte_witness:
  "map_option line (GPSReceiveThread (\<lambda>_. 0) (byte_reads (cs ''$G'') @ [Read []])
     \<lparr>ch = 7, line = [], dev = \<lparr>is_positioning = True, signals = 0\<rparr>\<rparr>) = Some (cs ''$GG'')"
proof -
  have "cs ''$G'' \<noteq> []" by (simp add: cs_def)
  from gps_timeout_repeats_byte [OF this, of "\<lambda>_. 0" "[]"] show ?thesis
    by (simp add: cs_def of_char_def gps_turn_def Let_def)
qed

text \<open>A GNGGA sentence of fewer than ten fields is read behind the end of the vector, and so is a GNRMC
  sentence of fewer than three; of the shorter sentences nothing else is checked.\<close>

theorem gps_short_sentence:
  assumes "d \<noteq> []"
    and "(d ! 0 = cs ''$GNGGA'' \<and> length d < 10) \<or> (d ! 0 = cs ''$GNRMC'' \<and> length d < 3)"
  shows "OnGPSReceived num d g = None"
  using assms talkers by (auto simp: OnGPSReceived_eq sentence_ok_def)

theorem gps_short_sentence_witness:
  "OnGPSReceived (\<lambda>_. 0) [cs ''$GNGGA'', [], [], []] \<lparr>is_positioning = True, signals = 0\<rparr> = None"
  by (rule gps_short_sentence) simp_all

text \<open>A coordinate of d degrees and m minutes, written as 100 d + m, is converted to d + m / 60 degrees, with
  the sign of the hemisphere.\<close>

theorem coordinate_value:
  assumes "0 \<le> m" "m < 100" "d < 2 ^ 31"
  shows "LatitudeToValue (100 * of_nat d + m) (cs ''N'') = Some (of_nat d + m / 60) \<and>
    LatitudeToValue (100 * of_nat d + m) (cs ''S'') = Some (- (of_nat d + m / 60)) \<and>
    LongitudeToValue (100 * of_nat d + m) (cs ''E'') = Some (of_nat d + m / 60) \<and>
    LongitudeToValue (100 * of_nat d + m) (cs ''W'') = Some (- (of_nat d + m / 60))"
proof -
  have v: "(100 * of_nat d + m) / 100 = of_nat d + m / (100 :: rat)" by (simp add: add_divide_distrib)
  have "\<lfloor>of_nat d + m / (100 :: rat)\<rfloor> = int d"
    using assms(1,2) by (intro floor_unique) simp_all
  moreover have "0 \<le> of_nat d + m / (100 :: rat)" using assms(1) by simp
  ultimately have "trunc (of_nat d + m / 100) = int d" by (simp add: trunc_def)
  then have "degrees (100 * of_nat d + m) = Some (of_nat d + m / 60)"
    using assms(3) by (simp add: degrees_def v Let_def)
  then show ?thesis
    by (simp add: LatitudeToValue_def LongitudeToValue_def cs_def of_char_def)
qed

theorem coordinate_value_witness:
  "LatitudeToValue 3730 (cs ''S'') = Some (- (75 / 2))"
proof -
  have "(0 :: rat) \<le> 30" "(30 :: rat) < 100" "(37 :: nat) < 2 ^ 31" by simp_all
  from coordinate_value [OF this] show ?thesis by simp
qed

end
