(* ===== verification/Hotplug.thy ===== *)
theory Hotplug
  imports CString
begin

text \<open>
  hotplug/hotplug.c: a daemon that mounts and unmounts an SD card on the kernel's uevents. The
  state holds the global flag, the variable p1_removed of the event loop and the commands that
  were passed to system(), in their order. The environment of one event says on which paths
  access succeeds, what a command run by popen prints, and what an uninitialised array holds.
\<close>

record hotplug =
  system_start_flag :: int
  p1_removed :: bool
  cmds :: "bytes list"

record hotplug_env =
  exists_path :: "bytes \<Rightarrow> bool"
  can_read :: "bytes \<Rightarrow> bool"
  popen_output :: "bytes \<Rightarrow> bytes option"
  junk_result :: bytes

definition SDP1_DEV_NAME :: bytes where "SDP1_DEV_NAME = cs ''/dev/mmcblk0p1''"
definition SD_DEV_NAME :: bytes where "SD_DEV_NAME = cs ''/dev/mmcblk0''"
definition MOUNT_SDP1 :: bytes where "MOUNT_SDP1 = cs ''mount -rw /dev/mmcblk0p1 /mnt/''"
definition MOUNT_SD :: bytes where "MOUNT_SD = cs ''mount -rw /dev/mmcblk0 /mnt/''"
definition UMOUNT_SD :: bytes where "UMOUNT_SD = cs ''umount /mnt/ -l''"

lemmas hotplug_strings = SDP1_DEV_NAME_def SD_DEV_NAME_def MOUNT_SDP1_def MOUNT_SD_def UMOUNT_SD_def

definition system :: "bytes \<Rightarrow> hotplug \<Rightarrow> hotplug" where
  "system c s = s\<lparr>cmds := cmds s @ [c]\<rparr>"

text \<open>
  do_syscmd: at most 4095 bytes of the output, up to the first zero byte, are copied into the
  caller's buffer, whose size it does not know. The result is the buffer and the return value.
\<close>

definition do_syscmd :: "hotplug_env \<Rightarrow> bytes \<Rightarrow> bytes \<Rightarrow> (int \<times> bytes) option" where
  "do_syscmd env cmd result =
     (case popen_output env cmd of
        None \<Rightarrow> Some (- 2, result)
      | Some out \<Rightarrow> do {
          result \<leftarrow> strcpy result (cstr (take 4095 out));
          n \<leftarrow> strlen result;
          Some (int n, result)
        })"

definition daemon_test_sd_ro :: "hotplug \<Rightarrow> hotplug" where
  "daemon_test_sd_ro s =
     system (cs ''rm -rf /mnt/test_tf'') (system (cs ''dd if=/dev/zero of=/mnt/test_tf bs=1024 count=1'') s)"

text \<open>What daemon_check_sd_ro prints.\<close>

datatype sd_report = Sd_read_only | Sd_ok | Sd_silent

definition daemon_check_sd_ro :: "hotplug_env \<Rightarrow> bool \<Rightarrow> hotplug \<Rightarrow> (sd_report \<times> hotplug) option" where
  "daemon_check_sd_ro env mmcblk0_p1 s = do {
     let s = daemon_test_sd_ro s;
     dev_name \<leftarrow> strcpy (bzero 20) (if mmcblk0_p1 then SDP1_DEV_NAME else SD_DEV_NAME);
     cmd \<leftarrow> strcpy (bzero 128) (cs ''mount | grep '' @ cstr dev_name);
     (_, result) \<leftarrow> do_syscmd env (cstr cmd) (junk_result env);
     n \<leftarrow> strlen result;
     Some (if 0 < n
           then if strstr (cstr result) (cs ''rw,relatime'') = None
                then if strstr (cstr result) (cs ''ro,relatime'') \<noteq> None then Sd_read_only else Sd_silent
                else Sd_ok
           else Sd_silent, s)
   }"

definition daemon_umount_sd :: "hotplug \<Rightarrow> hotplug option" where
  "daemon_umount_sd s = do {
     cmd \<leftarrow> strcpy (bzero 128) (cs ''echo 0 > /tmp/sd_status; killall -12 aoni_ipc'');
     Some (system UMOUNT_SD (system (cstr cmd) s))
   }"

text \<open>daemon_mount_sd writes the second command line into status, an array of 20 bytes.\<close>

definition daemon_mount_sd :: "hotplug_env \<Rightarrow> bool \<Rightarrow> hotplug \<Rightarrow> hotplug option" where
  "daemon_mount_sd env flag s =
     (if \<not> flag \<and> can_read env SDP1_DEV_NAME then Some s
      else do {
        cmd \<leftarrow> strcpy (bzero 128) (if flag then MOUNT_SDP1 else MOUNT_SD);
        let s = system (cstr cmd) s;
        (_, s) \<leftarrow> daemon_check_sd_ro env flag s;
        if system_start_flag s = 0 then do {
          status \<leftarrow> strcpy (bzero 20) (cs ''echo 1 > /tmp/sd_status'');
          Some (system (cs ''killall -12 aoni_ipc'') (system (cstr status) s))
        }
        else Some s
      })"

section \<open>The event loop\<close>

text \<open>
  The action is copied byte by byte up to an at sign or a zero byte into temp_buf (20 bytes),
  the device is the part of the message from the last slash on. strcmp on a null pointer is
  undefined, hence the guard.
\<close>

definition action_of :: "bytes \<Rightarrow> bytes" where
  "action_of b = takeWhile (\<lambda>c. c \<noteq> 0x40 \<and> c \<noteq> 0) b"

definition on_uevent :: "hotplug_env \<Rightarrow> bytes \<Rightarrow> hotplug \<Rightarrow> hotplug option" where
  "on_uevent env msg s = do {
     buf \<leftarrow> mem_put (bzero 1024) 0 (take 1024 msg);
     guard (terminated buf);
     let p = strrchr (cstr buf) 0x2F;
     temp_buf \<leftarrow> strcpy (bzero 20) (action_of buf);
     if cstr temp_buf = cs ''add'' then do {
       dev \<leftarrow> p;
       s \<leftarrow> (if dev = cs ''/mmcblk0p1'' then daemon_mount_sd env True s
            else if dev = cs ''/mmcblk0'' then daemon_mount_sd env False s
            else Some s);
       Some (s\<lparr>p1_removed := False\<rparr>)
     }
     else if cstr temp_buf = cs ''remove'' then do {
       dev \<leftarrow> p;
       if dev = cs ''/mmcblk0p1'' then do {
         s \<leftarrow> daemon_umount_sd s;
         Some (s\<lparr>p1_removed := True\<rparr>)
       }
       else if dev = cs ''/mmcblk0'' \<and> \<not> p1_removed s then daemon_umount_sd s
       else Some s
     }
     else Some s
   }"

text \<open>
  The loop, for a list of the messages that recv delivers, each with the environment in which
  it arrives; and daemon_pth_func with the start before the loop.
\<close>

fun event_turns :: "(hotplug_env \<times> bytes) list \<Rightarrow> hotplug \<Rightarrow> hotplug option" where
  "event_turns [] s = Some s"
| "event_turns ((env, m) # ms) s = Option.bind (on_uevent env m s) (event_turns ms)"

definition daemon_pth_func :: "hotplug_env \<Rightarrow> int \<Rightarrow> (hotplug_env \<times> bytes) list \<Rightarrow> hotplug \<Rightarrow> hotplug option"
where
  "daemon_pth_func env hotplug_sock msgs s =
     (if hotplug_sock < 0 then Some s
      else do {
        let s = s\<lparr>system_start_flag := 1, p1_removed := False\<rparr>;
        s \<leftarrow> (if exists_path env SDP1_DEV_NAME then daemon_mount_sd env True s
             else if exists_path env SD_DEV_NAME then daemon_mount_sd env False s
             else Some s);
        event_turns msgs (s\<lparr>system_start_flag := 0\<rparr>)
      })"

section \<open>Messages\<close>

text \<open>A uevent message: the action, an at sign, the device path, and behind a zero byte the environment.\<close>

definition uevent :: "bytes \<Rightarrow> bytes \<Rightarrow> bytes \<Rightarrow> bytes" where
  "uevent action path rest = action @ 0x40 # path @ 0 # rest"

lemma uevent_buffer:
  assumes "0 \<notin> set action" "0x40 \<notin> set action" "0 \<notin> set path" "length (uevent action path rest) \<le> 1024"
  obtains buf where "mem_put (bzero 1024) 0 (take 1024 (uevent action path rest)) = Some buf"
    "terminated buf" "cstr buf = action @ 0x40 # path" "action_of buf = action"
proof
  let ?m = "uevent action path rest"
  let ?buf = "?m @ bzero (1024 - length ?m)"
  show "mem_put (bzero 1024) 0 (take 1024 ?m) = Some ?buf"
    using assms(4) by (simp add: mem_put_def bzero_def)
  show "terminated ?buf" by (simp add: terminated_def uevent_def)
  have "?buf = (action @ 0x40 # path) @ 0 # (rest @ bzero (1024 - length ?m))"
    by (simp add: uevent_def)
  moreover have "0 \<notin> set (action @ 0x40 # path)" using assms(1,3) by simp
  ultimately show "cstr ?buf = action @ 0x40 # path" using cstr_append_zero by metis
  have "action_of (action @ 0x40 # t) = action" for t
    using assms(1,2) unfolding action_of_def by (subst takeWhile_append2) auto
  then show "action_of ?buf = action" by (simp add: uevent_def)
qed

lemma strrchr_path:
  assumes "0x2F \<notin> set name"
  shows "strrchr (action @ 0x40 # pre @ 0x2F # name) 0x2F = Some (0x2F # name)"
  using strrchr_last [OF assms, of "action @ 0x40 # pre"] by simp

lemma action_buffer:
  assumes "0 \<notin> set action"
  shows "strcpy (bzero 20) action = None \<longleftrightarrow> 20 \<le> length action"
    and "strcpy (bzero 20) action = Some b \<Longrightarrow> cstr b = action"
proof -
  show "strcpy (bzero 20) action = None \<longleftrightarrow> 20 \<le> length action" by (auto simp: strcpy_eq)
  show "strcpy (bzero 20) action = Some b \<Longrightarrow> cstr b = action"
    using strcpy_SomeD [of "bzero 20" action b] assms by simp
qed

lemma daemon_umount_sd_eq:
  "daemon_umount_sd s = Some (s\<lparr>cmds := cmds s @ [cs ''echo 0 > /tmp/sd_status; killall -12 aoni_ipc'', UMOUNT_SD]\<rparr>)"
proof -
  have l: "0 \<notin> set (cs ''echo 0 > /tmp/sd_status; killall -12 aoni_ipc'')"
    "length (cs ''echo 0 > /tmp/sd_status; killall -12 aoni_ipc'') = 45"
    by (simp_all add: cs_def of_char_def)
  then obtain b where b: "strcpy (bzero 128) (cs ''echo 0 > /tmp/sd_status; killall -12 aoni_ipc'') = Some b"
    by (simp add: strcpy_eq)
  from strcpy_SomeD [OF b l(1)] b show ?thesis by (simp add: daemon_umount_sd_def system_def)
qed

section \<open>Properties\<close>

text \<open>Insertions and removals of the partition, of the whole card and of other devices.\<close>

datatype card = P1 | K0 | Other_dev bytes
datatype card_event = Insert card | Remove card

fun card_name :: "card \<Rightarrow> bytes" where
  "card_name P1 = cs ''mmcblk0p1''"
| "card_name K0 = cs ''mmcblk0''"
| "card_name (Other_dev n) = n"

fun card_ok :: "card \<Rightarrow> bool" where
  "card_ok (Other_dev n) \<longleftrightarrow> n \<notin> {cs ''mmcblk0p1'', cs ''mmcblk0''} \<and> 0 \<notin> set n \<and> 0x2F \<notin> set n"
| "card_ok _ \<longleftrightarrow> True"

fun event_card :: "card_event \<Rightarrow> card" where
  "event_card (Insert c) = c"
| "event_card (Remove c) = c"

text \<open>The message of an event: dir is the directory of the device below /sys, vars the environment.\<close>

definition event_message :: "bytes \<Rightarrow> bytes \<Rightarrow> card_event \<Rightarrow> bytes" where
  "event_message dir vars e = uevent (case e of Insert _ \<Rightarrow> cs ''add'' | Remove _ \<Rightarrow> cs ''remove'')
     (dir @ 0x2F # card_name (event_card e)) vars"

definition message_ok :: "bytes \<Rightarrow> bytes \<Rightarrow> card_event \<Rightarrow> bool" where
  "message_ok dir vars e \<longleftrightarrow> card_ok (event_card e) \<and> 0 \<notin> set dir \<and> length (event_message dir vars e) \<le> 1024"

definition umount_cmds :: "bytes list" where
  "umount_cmds = [cs ''echo 0 > /tmp/sd_status; killall -12 aoni_ipc'', UMOUNT_SD]"

lemma card_name_ok:
  assumes "card_ok c"
  shows "0 \<notin> set (card_name c)" "0x2F \<notin> set (card_name c)"
    "0x2F # card_name c = cs ''/mmcblk0p1'' \<longleftrightarrow> c = P1" "0x2F # card_name c = cs ''/mmcblk0'' \<longleftrightarrow> c = K0"
  using assms by (cases c; simp add: cs_def of_char_def)+

lemma actions:
  "cs ''remove'' \<noteq> cs ''add''" "length (cs ''remove'') = 6" "length (cs ''add'') = 3"
  "0 \<notin> set (cs ''remove'')" "0x40 \<notin> set (cs ''remove'')" "0 \<notin> set (cs ''add'')" "0x40 \<notin> set (cs ''add'')"
  by (simp_all add: cs_def of_char_def)

text \<open>What the loop gets out of such a message.\<close>

lemma card_message:
  assumes "card_ok c" "0 \<notin> set a" "0x40 \<notin> set a" "length a < 20"
    and "0 \<notin> set dir" "length (uevent a (dir @ 0x2F # card_name c) vars) \<le> 1024"
  obtains buf temp where "mem_put (bzero 1024) 0 (take 1024 (uevent a (dir @ 0x2F # card_name c) vars)) = Some buf"
    "terminated buf" "strrchr (cstr buf) 0x2F = Some (0x2F # card_name c)"
    "strcpy (bzero 20) (action_of buf) = Some temp" "cstr temp = a"
proof -
  note c = card_name_ok [OF assms(1)]
  let ?path = "dir @ 0x2F # card_name c"
  have "0 \<notin> set ?path" using c(1) assms(5) by simp
  then obtain buf where buf: "mem_put (bzero 1024) 0 (take 1024 (uevent a ?path vars)) = Some buf" "terminated buf"
    "cstr buf = a @ 0x40 # ?path" "action_of buf = a"
    using uevent_buffer [OF assms(2,3) _ assms(6)] by blast
  have "strrchr (cstr buf) 0x2F = Some (0x2F # card_name c)"
    unfolding buf(3) by (rule strrchr_path [OF c(2)])
  moreover obtain b where "strcpy (bzero 20) a = Some b" "cstr b = a"
    using action_buffer [OF assms(2)] assms(4) by (cases "strcpy (bzero 20) a") simp_all
  ultimately show thesis using that buf by simp
qed

lemma mount_status: "strcpy (bzero 20) (cs ''echo 1 > /tmp/sd_status'') = None"
  by (simp add: strcpy_eq cs_def)

lemma mount_overflow:
  assumes "system_start_flag s = 0"
  shows "daemon_mount_sd env flag s = (if \<not> flag \<and> can_read env SDP1_DEV_NAME then Some s else None)"
proof -
  have "snd r = system c s1 \<Longrightarrow> system_start_flag (snd r) = system_start_flag s1" for r :: "sd_report \<times> hotplug" and c s1
    by (simp add: system_def)
  then show ?thesis using assms
    by (auto simp: daemon_mount_sd_def daemon_check_sd_ro_def daemon_test_sd_ro_def system_def mount_status Let_def
        split: bind_splits)
qed

text \<open>
  What is expected of the daemon: mounts says for which insertions it mounts, unmounts how often it
  unmounts the card, where r tells whether the partition was the last thing that was removed.
\<close>

fun mounts :: "hotplug_env \<Rightarrow> card_event \<Rightarrow> bool" where
  "mounts env (Insert P1) = True"
| "mounts env (Insert K0) = (\<not> can_read env SDP1_DEV_NAME)"
| "mounts env e = False"

fun unmounts :: "bool \<Rightarrow> card_event list \<Rightarrow> nat" where
  "unmounts r [] = 0"
| "unmounts r (Insert c # es) = unmounts False es"
| "unmounts r (Remove P1 # es) = Suc (unmounts True es)"
| "unmounts r (Remove K0 # es) = (if r then unmounts r es else Suc (unmounts r es))"
| "unmounts r (Remove (Other_dev n) # es) = unmounts r es"

fun removed_after :: "card_event \<Rightarrow> bool \<Rightarrow> bool" where
  "removed_after (Insert c) r = False"
| "removed_after (Remove c) r = (r \<or> c = P1)"

lemma on_card_event:
  assumes "message_ok dir vars e" "system_start_flag s = 0"
  shows "on_uevent env (event_message dir vars e) s = (if mounts env e then None
    else Some (s\<lparr>cmds := cmds s @ concat (replicate (unmounts (p1_removed s) [e]) umount_cmds),
                 p1_removed := removed_after e (p1_removed s)\<rparr>))"
proof (cases e)
  case (Insert c)
  with assms(1) have c: "card_ok c" "0 \<notin> set dir" "length (uevent (cs ''add'') (dir @ 0x2F # card_name c) vars) \<le> 1024"
    by (simp_all add: message_ok_def event_message_def)
  obtain buf temp where "mem_put (bzero 1024) 0 (take 1024 (event_message dir vars e)) = Some buf"
    "terminated buf" "strrchr (cstr buf) 0x2F = Some (0x2F # card_name c)"
    "strcpy (bzero 20) (action_of buf) = Some temp" "cstr temp = cs ''add''"
    using card_message [OF c(1) actions(6,7) _ c(2,3)] actions(3) unfolding Insert event_message_def by auto
  then show ?thesis
    using card_name_ok(3,4) [OF c(1)] assms(2) Insert by (cases c) (auto simp: on_uevent_def mount_overflow Let_def)
next
  case (Remove c)
  with assms(1) have c: "card_ok c" "0 \<notin> set dir" "length (uevent (cs ''remove'') (dir @ 0x2F # card_name c) vars) \<le> 1024"
    by (simp_all add: message_ok_def event_message_def)
  obtain buf temp where "mem_put (bzero 1024) 0 (take 1024 (event_message dir vars e)) = Some buf"
    "terminated buf" "strrchr (cstr buf) 0x2F = Some (0x2F # card_name c)"
    "strcpy (bzero 20) (action_of buf) = Some temp" "cstr temp = cs ''remove''"
    using card_message [OF c(1) actions(4,5) _ c(2,3)] actions(2) unfolding Remove event_message_def by auto
  then show ?thesis
    using card_name_ok(3,4) [OF c(1)] Remove actions(1)
    by (cases c) (auto simp: on_uevent_def daemon_umount_sd_eq umount_cmds_def Let_def)
qed

text \<open>C26. What the running daemon makes of any sequence of insertions and removals, wherever the devices are and
  whatever environment the messages have. It unmounts once for every removal of the partition and for
  every removal of the card unless the partition went before it, and it survives until a card is
  inserted: the first insertion for which it mounts ends it, because the command for the status is
  longer than its array.\<close>

theorem card_events:
  assumes "\<forall>(env, dir, vars, e) \<in> set evs. message_ok dir vars e" "system_start_flag s = 0"
  shows "event_turns (map (\<lambda>(env, dir, vars, e). (env, event_message dir vars e)) evs) s =
    (if \<exists>(env, dir, vars, e) \<in> set evs. mounts env e then None
     else Some (s\<lparr>cmds := cmds s @ concat (replicate (unmounts (p1_removed s) (map (\<lambda>(env, dir, vars, e). e) evs)) umount_cmds),
                  p1_removed := fold removed_after (map (\<lambda>(env, dir, vars, e). e) evs) (p1_removed s)\<rparr>))"
  using assms
proof (induction evs arbitrary: s)
  case (Cons ev evs)
  obtain env dir vars e where ev: "ev = (env, dir, vars, e)" by (metis prod_cases4)
  have u: "unmounts r (e # es) = unmounts r [e] + unmounts (removed_after e r) es" for r es
    by (cases "(r, e # es)" rule: unmounts.cases) auto
  show ?case
    using Cons.IH [of "s\<lparr>cmds := cmds s @ concat (replicate (unmounts (p1_removed s) [e]) umount_cmds),
        p1_removed := removed_after e (p1_removed s)\<rparr>"] Cons.prems
    by (auto simp: ev on_card_event u [of _ "map (\<lambda>(env, dir, vars, e). e) evs"] replicate_add)
qed simp

theorem card_events_witness:
  "\<exists>env. map_option cmds (event_turns (map (\<lambda>(env, dir, vars, e). (env, event_message dir vars e))
       [(env, cs ''/b/mmcblk0'', cs ''ACTION=remove'' @ [0], Remove P1), (env, cs ''/b'', [], Remove K0),
        (env, cs ''/b'', [], Insert K0), (env, cs ''/b'', [], Remove K0)])
       \<lparr>system_start_flag = 0, p1_removed = False, cmds = []\<rparr>) = Some (umount_cmds @ umount_cmds)"
proof -
  let ?env = "\<lparr>exists_path = \<lambda>_. True, can_read = \<lambda>_. True, popen_output = \<lambda>_. None, junk_result = []\<rparr>"
  let ?evs = "[(?env, cs ''/b/mmcblk0'', cs ''ACTION=remove'' @ [0], Remove P1), (?env, cs ''/b'', [], Remove K0),
        (?env, cs ''/b'', [], Insert K0), (?env, cs ''/b'', [], Remove K0)]"
  have "\<forall>(env, dir, vars, e) \<in> set ?evs. message_ok dir vars e"
    by (simp add: message_ok_def event_message_def uevent_def) (simp add: cs_def of_char_def)
  from card_events [OF this, of "\<lparr>system_start_flag = 0, p1_removed = False, cmds = []\<rparr>"] show ?thesis
    by (intro exI [of _ ?env]) simp
qed

text \<open>Once the daemon runs, every mount writes behind the array status: the command line has 23
  characters, the array 20 bytes.\<close>

theorem daemon_mount_sd_overflow:
  assumes "system_start_flag s = 0" "flag \<or> \<not> can_read env SDP1_DEV_NAME"
  shows "daemon_mount_sd env flag s = None"
  using assms by (auto simp: mount_overflow)

theorem daemon_mount_sd_overflow_witness:
  "daemon_mount_sd \<lparr>exists_path = \<lambda>_. True, can_read = \<lambda>_. True, popen_output = \<lambda>_. Some [], junk_result = bzero 256\<rparr>
     True \<lparr>system_start_flag = 0, p1_removed = False, cmds = []\<rparr> = None"
  by (rule daemon_mount_sd_overflow) simp_all

text \<open>The event loop overflows temp_buf exactly for actions of 20 or more characters; an event that is
  neither an insertion nor a removal is otherwise ignored.\<close>

theorem on_uevent_other_action:
  assumes "0 \<notin> set action" "0x40 \<notin> set action" "0 \<notin> set path" "length (uevent action path rest) \<le> 1024"
    and "action \<noteq> cs ''add''" "action \<noteq> cs ''remove''"
  shows "on_uevent env (uevent action path rest) s = (if 20 \<le> length action then None else Some s)"
proof -
  obtain buf where buf: "mem_put (bzero 1024) 0 (take 1024 (uevent action path rest)) = Some buf"
    "terminated buf" "cstr buf = action @ 0x40 # path" "action_of buf = action"
    by (rule uevent_buffer [OF assms(1-4)])
  show ?thesis
    using action_buffer [OF assms(1)] assms(5,6) buf
    by (cases "strcpy (bzero 20) action") (simp_all add: on_uevent_def Let_def)
qed

theorem on_uevent_other_action_witness:
  "on_uevent \<lparr>exists_path = \<lambda>_. False, can_read = \<lambda>_. False, popen_output = \<lambda>_. None, junk_result = []\<rparr>
     (uevent (cs ''change'') (cs ''/x'') []) \<lparr>system_start_flag = 0, p1_removed = True, cmds = []\<rparr> =
   Some \<lparr>system_start_flag = 0, p1_removed = True, cmds = []\<rparr>"
proof -
  have "0 \<notin> set (cs ''change'')" "0x40 \<notin> set (cs ''change'')" "0 \<notin> set (cs ''/x'')"
    "length (uevent (cs ''change'') (cs ''/x'') []) \<le> 1024" "cs ''change'' \<noteq> cs ''add''"
    "cs ''change'' \<noteq> cs ''remove''" "length (cs ''change'') = 6"
    by (simp_all add: uevent_def cs_def of_char_def)
  from on_uevent_other_action [OF this(1-6)] this(7) show ?thesis by simp
qed

end
