(* ===== verification/Uart.thy ===== *)
theory Uart
  imports Prelude MD5_File
begin

text \<open>
  uart/serial.c, and the version of it in RS485/serial.cpp: setting up a serial line and the
  thread that echoes what arrives. The flag words hold the bits of the Linux headers; the speeds
  are kept as numbers in fields of their own.
\<close>

definition CSIZE :: u32 where "CSIZE = 0x30"
definition CS7 :: u32 where "CS7 = 0x20"
definition CS8 :: u32 where "CS8 = 0x30"
definition CSTOPB :: u32 where "CSTOPB = 0x40"
definition CREAD :: u32 where "CREAD = 0x80"
definition PARENB :: u32 where "PARENB = 0x100"
definition PARODD :: u32 where "PARODD = 0x200"
definition CLOCAL :: u32 where "CLOCAL = 0x800"
definition INPCK :: u32 where "INPCK = 0x10"
definition ISTRIP :: u32 where "ISTRIP = 0x20"

lemmas termios_bits = CSIZE_def CS7_def CS8_def CSTOPB_def CREAD_def PARENB_def PARODD_def CLOCAL_def
  INPCK_def ISTRIP_def

record termios =
  c_iflag :: u32
  c_cflag :: u32
  ispeed :: nat
  ospeed :: nat
  vtime :: nat
  vmin :: nat

definition termios_zero :: termios where
  "termios_zero = \<lparr>c_iflag = 0, c_cflag = 0, ispeed = 0, ospeed = 0, vtime = 0, vmin = 0\<rparr>"

section \<open>set_opt\<close>

definition set_bits :: "int \<Rightarrow> termios \<Rightarrow> termios" where
  "set_bits nBits t =
     (if nBits = 7 then t\<lparr>c_cflag := c_cflag t OR CS7\<rparr>
      else if nBits = 8 then t\<lparr>c_cflag := c_cflag t OR CS8\<rparr>
      else t)"

definition set_event :: "char \<Rightarrow> termios \<Rightarrow> termios" where
  "set_event nEvent t =
     (if nEvent = CHR ''O'' then t\<lparr>c_cflag := (c_cflag t OR PARENB) OR PARODD, c_iflag := c_iflag t OR (INPCK OR ISTRIP)\<rparr>
      else if nEvent = CHR ''E'' then t\<lparr>c_iflag := c_iflag t OR (INPCK OR ISTRIP), c_cflag := (c_cflag t OR PARENB) AND NOT PARODD\<rparr>
      else if nEvent = CHR ''N'' then t\<lparr>c_cflag := c_cflag t AND NOT PARENB\<rparr>
      else t)"

definition set_speed :: "int list \<Rightarrow> int \<Rightarrow> termios \<Rightarrow> termios" where
  "set_speed known nSpeed t =
     (let v = (if nSpeed \<in> set known then nat nSpeed else 9600) in t\<lparr>ispeed := v, ospeed := v\<rparr>)"

definition set_stop :: "int \<Rightarrow> termios \<Rightarrow> termios" where
  "set_stop nStop t =
     (if nStop = 1 then t\<lparr>c_cflag := c_cflag t AND NOT CSTOPB\<rparr>
      else if nStop = 2 then t\<lparr>c_cflag := c_cflag t OR CSTOPB\<rparr>
      else t)"

text \<open>
  The result is the return value and the settings given to tcsetattr, if it is called. get_ok
  and set_ok say whether tcgetattr and tcsetattr succeed.
\<close>

definition set_opt_with :: "int list \<Rightarrow> bool \<Rightarrow> bool \<Rightarrow> int \<Rightarrow> int \<Rightarrow> char \<Rightarrow> int \<Rightarrow> int \<times> termios option" where
  "set_opt_with known get_ok set_ok nSpeed nBits nEvent nStop =
     (if \<not> get_ok then (- 1, None)
      else
        let newtio = termios_zero;
            newtio = newtio\<lparr>c_cflag := c_cflag newtio OR (CLOCAL OR CREAD)\<rparr>;
            newtio = newtio\<lparr>c_cflag := c_cflag newtio AND NOT CSIZE\<rparr>;
            newtio = set_stop nStop (set_speed known nSpeed (set_event nEvent (set_bits nBits newtio)));
            newtio = newtio\<lparr>vtime := 0, vmin := 0\<rparr>
        in if set_ok then (0, Some newtio) else (- 1, Some newtio))"

definition set_opt :: "bool \<Rightarrow> bool \<Rightarrow> int \<Rightarrow> int \<Rightarrow> char \<Rightarrow> int \<Rightarrow> int \<times> termios option" where
  "set_opt = set_opt_with [2400, 4800, 9600, 115200, 1000000]"

text \<open>The version in RS485/serial.cpp.\<close>

definition rs485_set_opt :: "bool \<Rightarrow> bool \<Rightarrow> int \<Rightarrow> int \<Rightarrow> char \<Rightarrow> int \<Rightarrow> int \<times> termios option" where
  "rs485_set_opt = set_opt_with [2400, 4800, 9600, 115200]"

section \<open>UART_init\<close>

record uart_handle =
  uart_fd :: int
  device_node :: "bytes option"
  i_nSpeed :: int
  i_nBits :: int
  i_nEvent :: char
  i_nStop :: int
  has_revdhandle :: bool

text \<open>
  opt is set_opt and opened what open returns for the device. The result is the return value, the handle, and
  whether the receiving thread was started.
\<close>

definition uart_init_port :: "int \<Rightarrow> int" where
  "uart_init_port opened = (if opened = - 1 then - 1 else opened)"

definition UART_init_with :: "(bool \<Rightarrow> bool \<Rightarrow> int \<Rightarrow> int \<Rightarrow> char \<Rightarrow> int \<Rightarrow> int \<times> termios option) \<Rightarrow>
    int \<Rightarrow> bool \<Rightarrow> bool \<Rightarrow> uart_handle option \<Rightarrow> int \<times> uart_handle option \<times> bool" where
  "UART_init_with opt opened get_ok set_ok handle =
     (case handle of
        None \<Rightarrow> (- 1, None, False)
      | Some h \<Rightarrow>
          if device_node h = None \<or> \<not> has_revdhandle h then (- 1, Some h, False)
          else
            let h = h\<lparr>uart_fd := uart_init_port opened\<rparr>
            in if uart_fd h \<noteq> - 1
               then (let ret = fst (opt get_ok set_ok (i_nSpeed h) (i_nBits h) (i_nEvent h) (i_nStop h))
                     in if ret = - 1 then (- 1, Some h, False) else (ret, Some h, True))
               else (- 1, Some h, False))"

definition UART_init :: "int \<Rightarrow> bool \<Rightarrow> bool \<Rightarrow> uart_handle option \<Rightarrow> int \<times> uart_handle option \<times> bool" where
  "UART_init = UART_init_with set_opt"

text \<open>The version in RS485/serial.cpp, which calls the other set_opt.\<close>

definition rs485_UART_init :: "int \<Rightarrow> bool \<Rightarrow> bool \<Rightarrow> uart_handle option \<Rightarrow> int \<times> uart_handle option \<times> bool" where
  "rs485_UART_init = UART_init_with rs485_set_opt"

section \<open>The receiving thread\<close>

text \<open>
  One turn: what select reports and what read returns. The thread ends (the flag is False) at an
  error of read. buf has 1024 bytes and is not cleared between the reads.
\<close>

datatype uart_event = Sel_error | Sel_timeout | Sel_ready read_result

record uart_thread =
  u_buf :: bytes
  u_out :: "bytes list"

text \<open>
  The callback of main: printf with the conversion for strings reads buf up to a zero byte, then
  the bytes received are written back.
\<close>

definition api_fcuart_received :: "nat \<Rightarrow> uart_thread \<Rightarrow> uart_thread option" where
  "api_fcuart_received nread t = do {
     guard (terminated (u_buf t));
     out \<leftarrow> mem_get (u_buf t) 0 nread;
     Some (t\<lparr>u_out := u_out t @ [out]\<rparr>)
   }"

definition uart_turn :: "uart_event \<Rightarrow> uart_thread \<Rightarrow> (bool \<times> uart_thread) option" where
  "uart_turn e t =
     (case e of
        Sel_error \<Rightarrow> Some (True, t)
      | Sel_timeout \<Rightarrow> Some (True, t)
      | Sel_ready Read_error \<Rightarrow> Some (False, t)
      | Sel_ready (Read bs) \<Rightarrow> do {
          b \<leftarrow> mem_put (u_buf t) 0 bs;
          let t = t\<lparr>u_buf := b\<rparr>;
          if bs = [] then Some (True, t)
          else do {
            t \<leftarrow> api_fcuart_received (length bs) t;
            Some (True, t)
          }
        })"

fun uart_revpthread :: "uart_event list \<Rightarrow> uart_thread \<Rightarrow> uart_thread option" where
  "uart_revpthread [] t = Some t"
| "uart_revpthread (e # es) t = do {
     (go, t) \<leftarrow> uart_turn e t;
     if go then uart_revpthread es t else Some t
   }"

definition uart_start :: uart_thread where
  "uart_start = \<lparr>u_buf = cs ''1234'' @ [0x0D, 0x0A] @ bzero 1018, u_out = []\<rparr>"

section \<open>The settings of the line\<close>

text \<open>What a flag word means: the number of data bits, the parity and the number of stop bits.\<close>

datatype parity = No_parity | Even | Odd

definition line_of :: "termios \<Rightarrow> nat \<times> parity \<times> nat" where
  "line_of t =
     (let size = c_cflag t AND CSIZE
      in (if size = CS8 then 8 else if size = CS7 then 7 else if size = 0 then 5 else 6,
          if c_cflag t AND PARENB = 0 then No_parity else if c_cflag t AND PARODD = 0 then Even else Odd,
          if c_cflag t AND CSTOPB = 0 then 1 else 2))"

definition line_wanted :: "int \<Rightarrow> char \<Rightarrow> int \<Rightarrow> nat \<times> parity \<times> nat" where
  "line_wanted nBits nEvent nStop =
     (if nBits = 8 then 8 else if nBits = 7 then 7 else 5,
      if nEvent = CHR ''O'' then Odd else if nEvent = CHR ''E'' then Even else No_parity,
      if nStop = 2 then 2 else 1)"

definition line_cflag :: "int \<Rightarrow> char \<Rightarrow> int \<Rightarrow> u32" where
  "line_cflag nBits nEvent nStop =
     0x880 + (if nBits = 7 then 0x20 else if nBits = 8 then 0x30 else 0) +
     (if nEvent = CHR ''O'' then 0x300 else if nEvent = CHR ''E'' then 0x100 else 0) +
     (if nStop = 2 then 0x40 else 0)"

lemma set_opt_fields:
  assumes "set_opt_with known get_ok set_ok nSpeed nBits nEvent nStop = (r, Some t)"
  shows "get_ok" "r = (if set_ok then 0 else - 1)"
    and "t = \<lparr>c_iflag = (if nEvent = CHR ''O'' \<or> nEvent = CHR ''E'' then 0x30 else 0),
      c_cflag = line_cflag nBits nEvent nStop, ispeed = (if nSpeed \<in> set known then nat nSpeed else 9600),
      ospeed = (if nSpeed \<in> set known then nat nSpeed else 9600), vtime = 0, vmin = 0\<rparr>"
proof -
  show g: "get_ok" using assms by (cases get_ok) (simp_all add: set_opt_with_def)
  let ?t = "set_stop nStop (set_speed known nSpeed (set_event nEvent (set_bits nBits (termios_zero\<lparr>c_cflag := 0x880\<rparr>))))"
  have "set_opt_with known get_ok set_ok nSpeed nBits nEvent nStop =
      (if set_ok then 0 else - 1, Some (?t\<lparr>vtime := 0, vmin := 0\<rparr>))"
    using g by (simp add: set_opt_with_def termios_zero_def termios_bits Let_def)
  with assms have r: "r = (if set_ok then 0 else - 1)" "t = ?t\<lparr>vtime := 0, vmin := 0\<rparr>" by simp_all
  then show "r = (if set_ok then 0 else - 1)" by simp
  let ?b = "set_bits nBits (termios_zero\<lparr>c_cflag := 0x880\<rparr>)"
  have b: "?b = termios_zero\<lparr>c_cflag := 0x880 + (if nBits = 7 then 0x20 else if nBits = 8 then 0x30 else 0)\<rparr>"
    by (simp add: set_bits_def termios_zero_def termios_bits)
  show "t = \<lparr>c_iflag = (if nEvent = CHR ''O'' \<or> nEvent = CHR ''E'' then 0x30 else 0),
      c_cflag = line_cflag nBits nEvent nStop, ispeed = (if nSpeed \<in> set known then nat nSpeed else 9600),
      ospeed = (if nSpeed \<in> set known then nat nSpeed else 9600), vtime = 0, vmin = 0\<rparr>"
    unfolding r(2) b
    by (cases "nBits = 7"; cases "nBits = 8"; cases "nEvent = CHR ''O''"; cases "nEvent = CHR ''E''";
        cases "nStop = 2";
        simp add: set_event_def set_speed_def set_stop_def termios_zero_def termios_bits line_cflag_def Let_def)
qed

lemma line_of_cflag:
  "c_cflag t = line_cflag nBits nEvent nStop \<Longrightarrow>
     line_of t = line_wanted nBits nEvent nStop \<and> c_cflag t AND (CLOCAL OR CREAD) = CLOCAL OR CREAD"
  by (cases "nBits = 7"; cases "nBits = 8"; cases "nEvent = CHR ''O''"; cases "nEvent = CHR ''E''";
      cases "nStop = 2";
      simp add: line_of_def line_wanted_def line_cflag_def termios_bits Let_def)

section \<open>Properties\<close>

text \<open>set_opt succeeds exactly when both calls of the terminal interface do, and then sets the line the
  arguments describe: 7 or 8 data bits, parity and stop bits, raw reception with the given speed.
  Any other number of data bits silently gives 5, any unknown speed 9600.\<close>

theorem set_opt_line:
  assumes "set_opt get_ok set_ok nSpeed nBits nEvent nStop = (r, Some t)"
  shows "r = (if set_ok then 0 else - 1) \<and> line_of t = line_wanted nBits nEvent nStop \<and>
     c_cflag t AND (CLOCAL OR CREAD) = CLOCAL OR CREAD \<and>
     ispeed t = (if nSpeed \<in> {2400, 4800, 9600, 115200, 1000000} then nat nSpeed else 9600) \<and>
     ospeed t = ispeed t"
  using set_opt_fields [OF assms [unfolded set_opt_def]] line_of_cflag [of t nBits nEvent nStop] by simp

theorem set_opt_line_witness:
  "\<exists>t. set_opt True True 1000000 8 CHR ''N'' 1 = (0, Some t) \<and> line_of t = (8, No_parity, 1) \<and> ispeed t = 1000000"
proof -
  obtain t where t: "set_opt True True 1000000 8 CHR ''N'' 1 = (0, Some t)"
    by (simp add: set_opt_def set_opt_with_def)
  from set_opt_line [OF this] t show ?thesis by (simp add: line_wanted_def)
qed

text \<open>The two versions of set_opt differ for one speed only.\<close>

theorem rs485_set_opt_equiv:
  "rs485_set_opt get_ok set_ok nSpeed nBits nEvent nStop = set_opt get_ok set_ok nSpeed nBits nEvent nStop \<longleftrightarrow>
   \<not> get_ok \<or> nSpeed \<noteq> 1000000"
proof (cases "get_ok \<and> nSpeed = 1000000")
  case True
  then obtain r t r' t' where
    e: "rs485_set_opt get_ok set_ok nSpeed nBits nEvent nStop = (r, Some t)"
      "set_opt get_ok set_ok nSpeed nBits nEvent nStop = (r', Some t')"
    by (cases set_ok) (simp_all add: rs485_set_opt_def set_opt_def set_opt_with_def Let_def)
  from set_opt_fields(3) [OF e(1) [unfolded rs485_set_opt_def]] set_opt_fields(3) [OF e(2) [unfolded set_opt_def]]
  have "ispeed t \<noteq> ispeed t'" using True by simp
  then show ?thesis using e True by auto
next
  case False
  then show ?thesis
    by (auto simp: rs485_set_opt_def set_opt_def set_opt_with_def set_speed_def)
qed

text \<open>The bytes a list of events delivers before the first error of read.\<close>

fun uart_input :: "uart_event list \<Rightarrow> bytes list" where
  "uart_input (Sel_ready (Read bs) # es) = (if bs = [] then uart_input es else bs # uart_input es)"
| "uart_input (Sel_ready Read_error # es) = []"
| "uart_input (e # es) = uart_input es"
| "uart_input [] = []"

lemma uart_echo:
  "uart_revpthread es t = Some t' \<Longrightarrow> u_out t' = u_out t @ uart_input es"
proof (induction es arbitrary: t rule: uart_input.induct)
  case (1 bs es)
  obtain b where b: "mem_put (u_buf t) 0 bs = Some b"
    using "1.prems" by (auto simp: uart_turn_def elim!: bind_SomeE)
  show ?case
  proof (cases "bs = []")
    case True
    then show ?thesis using 1 b by (auto simp: uart_turn_def)
  next
    case False
    have get: "mem_get b 0 (length bs) = Some bs"
      using b by (auto simp: mem_put_def mem_get_def split: if_splits)
    have "terminated b" using "1.prems" b False
      by (cases "terminated b") (auto simp: uart_turn_def api_fcuart_received_def Let_def)
    then have "uart_revpthread es (t\<lparr>u_buf := b, u_out := u_out t @ [bs]\<rparr>) = Some t'"
      using "1.prems" b False get by (simp add: uart_turn_def api_fcuart_received_def Let_def)
    from "1.IH" (2) [OF False this] show ?thesis using False by simp
  qed
qed (auto simp: uart_turn_def)

text \<open>C28. As long as it stays defined, the thread writes back exactly the blocks it read before the first error,
  in order. It is defined as long as every block leaves a zero byte in the buffer, which blocks
  of fewer than 1024 bytes always do: the last byte of the buffer is then never overwritten.\<close>

theorem uart_echoes:
  assumes "\<forall>bs. Sel_ready (Read bs) \<in> set es \<longrightarrow> length bs < 1024"
  shows "\<exists>t. uart_revpthread es uart_start = Some t \<and> u_out t = uart_input es"
proof -
  have "\<exists>t'. uart_revpthread es t = Some t'" if "length (u_buf t) = 1024" "u_buf t ! 1023 = 0" for t
    using assms that
  proof (induction es arbitrary: t)
    case (Cons e es)
    have IH: "\<exists>t'. uart_revpthread es t1 = Some t'" if "length (u_buf t1) = 1024" "u_buf t1 ! 1023 = 0" for t1
      using Cons.IH [OF _ that] Cons.prems(1) by simp
    show ?case
    proof (cases "\<exists>bs. e = Sel_ready (Read bs)")
      case True
      then obtain bs where e: "e = Sel_ready (Read bs)" by blast
      then have l: "length bs < 1024" using Cons.prems(1) by simp
      let ?b = "bs @ drop (length bs) (u_buf t)"
      have b: "mem_put (u_buf t) 0 bs = Some ?b" using l Cons.prems(2) by (simp add: mem_put_def)
      have z: "length ?b = 1024" "?b ! 1023 = 0" using l Cons.prems(2,3) by (simp_all add: nth_append)
      have "?b ! 1023 \<in> set ?b" by (rule nth_mem) (use z(1) in linarith)
      then have tm: "terminated ?b" unfolding terminated_def z(2) .
      have "mem_get ?b 0 (length bs) = Some bs" using l Cons.prems(2) by (simp add: mem_get_def)
      then show ?thesis
        using e b tm IH [of "t\<lparr>u_buf := ?b, u_out := u_out t @ [bs]\<rparr>"] IH [of t] z Cons.prems(2,3)
        by (cases "bs = []") (simp_all add: uart_turn_def api_fcuart_received_def Let_def)
    next
      case False
      then show ?thesis using IH Cons.prems
        by (cases e) (auto simp: uart_turn_def split: read_result.splits)
    qed
  qed simp
  moreover have "length (u_buf uart_start) = 1024" "u_buf uart_start ! 1023 = 0"
    by (simp_all add: uart_start_def cs_def nth_append bzero_def)
  ultimately obtain t where "uart_revpthread es uart_start = Some t" by blast
  with uart_echo [OF this] show ?thesis by (simp add: uart_start_def)
qed

theorem uart_echoes_witness:
  "\<exists>t. uart_revpthread [Sel_timeout, Sel_ready (Read [1, 2]), Sel_ready (Read []), Sel_ready (Read [3]),
       Sel_ready Read_error, Sel_ready (Read [4])] uart_start = Some t \<and> u_out t = [[1, 2], [3]]"
proof -
  let ?es = "[Sel_timeout, Sel_ready (Read [1, 2]), Sel_ready (Read []), Sel_ready (Read [3]),
       Sel_ready Read_error, Sel_ready (Read [4])] :: uart_event list"
  have "\<forall>bs. Sel_ready (Read bs) \<in> set ?es \<longrightarrow> length bs < 1024" by auto
  from uart_echoes [OF this] show ?thesis by simp
qed

text \<open>A full block without a zero byte makes the printout of the callback read behind the buffer.\<close>

theorem uart_full_block:
  assumes "length bs = 1024" "0 \<notin> set bs" "length (u_buf t) = 1024"
  shows "uart_revpthread (Sel_ready (Read bs) # es) t = None"
proof -
  have "bs \<noteq> []" using assms(1) by auto
  then show ?thesis
    using assms by (simp add: uart_turn_def mem_put_def api_fcuart_received_def terminated_def Let_def)
qed

theorem uart_full_block_witness:
  "uart_revpthread [Sel_ready (Read (replicate 1024 0x55))] uart_start = None"
  by (rule uart_full_block) (simp_all add: uart_start_def cs_def)

end
