(* ===== verification/Netspeed.thy ===== *)
theory Netspeed
  imports Strtok CString MD5_File Stdio
begin

text \<open>
  netspeed/netspeed.c: the traffic counters of a network interface, from the text of
  /proc/net/dev and from the list of getifaddrs.
\<close>

section \<open>atof\<close>

text \<open>
  The double nearest to a natural number, ties to even: excess is the number of bits beyond the 53
  of the significand.
\<close>

fun excess :: "nat \<Rightarrow> nat" where
  "excess n = (if n < 2 ^ 53 then 0 else Suc (excess (n div 2)))"

declare excess.simps [simp del]

definition to_double :: "nat \<Rightarrow> nat" where
  "to_double n =
     (let e = excess n; q = n div 2 ^ e; r = n mod 2 ^ e
      in (if 2 ^ e < 2 * r \<or> (2 * r = 2 ^ e \<and> odd q) then Suc q else q) * 2 ^ e)"

text \<open>
  The counters are unsigned decimal numbers; what atof makes of another text (a sign, a fraction, an
  exponent, no number at all) is not modelled, Other.
\<close>

datatype double = Whole nat | Other

definition atof :: "bytes \<Rightarrow> double" where
  "atof s = (if s \<noteq> [] \<and> list_all digit s
             then Whole (to_double (foldl (\<lambda>n c. 10 * n + unat (c - 0x30)) 0 s)) else Other)"

lemma excess_ge: "0 < excess n \<Longrightarrow> 2 ^ (52 + excess n) \<le> n"
proof (induction n rule: excess.induct)
  case (1 n)
  show ?case
  proof (cases "excess (n div 2)")
    case 0
    then show ?thesis using "1.prems" by (auto simp: excess.simps [of n] split: if_splits)
  next
    case (Suc k)
    with "1.prems" have e: "\<not> n < 2 ^ 53" "excess n = Suc (Suc k)" by (auto simp: excess.simps [of n] split: if_splits)
    have "2 ^ (52 + Suc k) \<le> n div 2" using "1.IH" [OF e(1)] Suc by simp
    then have "2 * 2 ^ (52 + Suc k) \<le> n" by linarith
    moreover have "2 ^ (52 + Suc (Suc k)) = 2 * (2 ^ (52 + Suc k) :: nat)" by (simp add: power_add)
    ultimately show ?thesis unfolding e(2) by simp
  qed
qed

lemma to_double_exact: "n < 2 ^ 53 \<Longrightarrow> to_double n = n"
  by (simp add: to_double_def excess.simps)

text \<open>The relative error is at most one half of a unit in the last place.\<close>

lemma to_double_error: "2 ^ 53 * \<bar>int (to_double n) - int n\<bar> \<le> int n"
proof (cases "excess n")
  case 0
  then show ?thesis by (simp add: to_double_def)
next
  case (Suc k)
  let ?e = "excess n"
  define q r where "q = n div 2 ^ ?e" and "r = n mod 2 ^ ?e"
  have n: "n = q * 2 ^ ?e + r" unfolding q_def r_def by (rule div_mult_mod_eq [symmetric])
  have r: "r < 2 ^ ?e" by (simp add: r_def)
  have "int (to_double n) - int n =
      (if 2 ^ ?e < 2 * r \<or> (2 * r = 2 ^ ?e \<and> odd q) then 2 ^ ?e - int r else - int r)"
  proof -
    have "int n = int q * 2 ^ ?e + int r" using arg_cong [OF n, of int] by simp
    then show ?thesis unfolding to_double_def Let_def q_def [symmetric] r_def [symmetric]
      by (simp add: algebra_simps)
  qed
  moreover obtain p where p: "p = (2 :: nat) ^ ?e" "(2 :: int) ^ ?e = int p" by simp
  ultimately have d: "2 * \<bar>int (to_double n) - int n\<bar> \<le> 2 ^ ?e"
    using r unfolding p(2) p(1) [symmetric] by (auto split: if_splits)
  have "2 ^ 53 * \<bar>int (to_double n) - int n\<bar> = 2 ^ 52 * (2 * \<bar>int (to_double n) - int n\<bar>)" by simp
  also have "\<dots> \<le> 2 ^ 52 * 2 ^ ?e" using d by (intro mult_left_mono) simp_all
  also have "\<dots> = int (2 ^ (52 + ?e))" by (simp add: power_add)
  also have "\<dots> \<le> int n" using excess_ge [of n] Suc by (intro of_nat_mono) simp
  finally show ?thesis .
qed

lemma atof_digits: "atof (digits n) = Whole (to_double n)"
proof -
  have "int (foldl (\<lambda>n c. 10 * n + unat (c - 0x30)) m d) = foldl (\<lambda>v c. 10 * v + uint (c - 0x30)) (int m) d"
    for m and d :: bytes
    by (induction d arbitrary: m) (simp_all del: unat_minus_one)
  from this [of 0 "digits n"] have "foldl (\<lambda>n c. 10 * n + unat (c - 0x30)) 0 (digits n) = n"
    by (simp add: digits_value)
  then show ?thesis using digits_ne digits_digit [of n] by (simp add: atof_def list_all_iff)
qed

definition blanks :: bytes where
  "blanks = [0x20, 0x09, 0x0D, 0x0A]"

section \<open>The loop over the tokens\<close>

text \<open>
  \<open>for (p = strtok(pDev, " \t\r\n"); p; p = strtok(NULL, " \t\r\n"))\<close>: every token is copied into a
  block of 20 bytes (None when it does not fit); body gets the number of the token and the copy
  and says whether the loop is left.
\<close>

partial_function (option) token_loop ::
  "(nat \<Rightarrow> bytes \<Rightarrow> 'v \<Rightarrow> bool \<times> 'v) \<Rightarrow> nat \<Rightarrow> bytes \<Rightarrow> nat option \<Rightarrow> nat \<Rightarrow> 'v \<Rightarrow> 'v option" where
  "token_loop body i buf p save v =
     (case p of
        None \<Rightarrow> Some v
      | Some p \<Rightarrow>
          Option.bind (strcpy (bzero 20) (cstr (drop p buf))) (\<lambda>value.
          let (leave, v) = body (Suc i) (cstr value) v
          in if leave then Some v
             else Option.bind (strtok_r blanks buf save) (\<lambda>(buf, p, save).
                  token_loop body (Suc i) buf p save v)))"

text \<open>What the loop does, over the list of tokens.\<close>

fun visit :: "(nat \<Rightarrow> bytes \<Rightarrow> 'v \<Rightarrow> bool \<times> 'v) \<Rightarrow> nat \<Rightarrow> bytes list \<Rightarrow> 'v \<Rightarrow> 'v option" where
  "visit body i [] v = Some v"
| "visit body i (w # ws) v =
     (if length w < 20
      then (let (leave, v) = body (Suc i) w v in if leave then Some v else visit body (Suc i) ws v)
      else None)"

lemma copy_token:
  assumes "0 \<notin> set w"
  shows "strcpy (bzero 20) w = None \<longleftrightarrow> 20 \<le> length w"
    and "strcpy (bzero 20) w = Some b \<Longrightarrow> cstr b = w"
proof -
  show "strcpy (bzero 20) w = None \<longleftrightarrow> 20 \<le> length w" by (auto simp: strcpy_eq)
  show "strcpy (bzero 20) w = Some b \<Longrightarrow> cstr b = w"
    using strcpy_SomeD [of "bzero 20" w b] assms by simp
qed

lemma token_loop_Some:
  assumes "cstr (drop p buf) = w" "0 \<notin> set w"
  shows "token_loop body i buf (Some p) save v =
    (if length w < 20
     then (let (leave, v) = body (Suc i) w v
           in if leave then Some v
              else Option.bind (strtok_r blanks buf save) (\<lambda>(buf, p, save). token_loop body (Suc i) buf p save v))
     else None)"
  using copy_token [OF assms(2)] assms(1)
  by (subst token_loop.simps) (cases "strcpy (bzero 20) w"; auto)

lemma token_loop_visit:
  fixes S :: bytes
  assumes "0 \<notin> set S"
  shows "Option.bind (strtok_r blanks (A @ S @ 0 # R) (length A)) (\<lambda>(b, t, q). token_loop body i b t q v) =
    visit body i (tokens blanks S) v"
  using assms
proof (induction "length S" arbitrary: S A i v rule: less_induct)
  case less
  from less.prems show ?case
  proof (cases rule: strtok_r_cases [where d = blanks and A = A and R = R and ?d2.0 = blanks])
    case none
    then show ?thesis by (simp add: token_loop.simps)
  next
    case (last X w)
    have "strtok_r blanks (A @ S @ 0 # R) (length (A @ X @ w)) = Some (A @ S @ 0 # R, None, length (A @ X @ w))"
      using strtok_r_nil [of blanks "A @ X @ w" R] by (simp add: last(1))
    moreover have c: "cstr (drop (length (A @ X)) (A @ S @ 0 # R)) = w"
      by (simp add: last(1) cstr_append_zero [OF last(3)])
    ultimately show ?thesis
      using last(2,4) token_loop_Some [OF c last(3), of body i "length (A @ X @ w)" v]
      by (simp add: token_loop.simps [of body _ _ None] Let_def split: prod.splits)
  next
    case (cut X w c T)
    let ?b = "A @ X @ w @ 0 # T @ 0 # R"
    have "length T < length S" "0 \<notin> set T" using less.prems cut(1) by auto
    from less.hyps [OF this, of "A @ X @ w @ [0]"]
    have IH: "Option.bind (strtok_r blanks ?b (length (A @ X @ w @ [0 :: u8])))
        (\<lambda>(b, t, q). token_loop body (Suc i) b t q v1) = visit body (Suc i) (tokens blanks T) v1" for v1
      by simp
    have "cstr (drop (length (A @ X)) ?b) = w" by (simp add: cstr_append_zero [OF cut(3)])
    from token_loop_Some [OF this cut(3), of body i "length (A @ X @ w @ [0 :: u8])" v] IH cut(2,4)
    show ?thesis by (simp add: Let_def split: prod.splits)
  qed
qed

section \<open>get_traffic and my_ipconfig\<close>

text \<open>A variable that may not have been assigned.\<close>

datatype 'a cell = Indeterminate | Val 'a

definition dev_name_ok :: "bytes \<Rightarrow> bool" where
  "dev_name_ok ath0 \<longleftrightarrow> \<not> (length ath0 < 1 \<or> length ath0 > 100)"

text \<open>
  The common beginning: fd is what open returns, rres what read returns. The result None is
  undefined behaviour, Inl the message printed on failure and Inr the buffer with the index of
  the name of the interface in it.
\<close>

datatype failure = Bad_name | No_proc | Read_failed | Not_found

definition find_dev :: "bytes \<Rightarrow> int \<Rightarrow> read_result \<Rightarrow> (failure + bytes \<times> nat) option" where
  "find_dev ath0 fd rres =
     (if \<not> dev_name_ok ath0 then Some (Inl Bad_name)
      else if fd = - 1 then Some (Inl No_proc)
      else case rres of
        Read_error \<Rightarrow> Some (Inl Read_failed)
      | Read bs \<Rightarrow> do {
          buf \<leftarrow> mem_put (bzero 2048) 0 (bs @ [0]);
          Some (case strstr (cstr buf) ath0 of
                  None \<Rightarrow> Inl Not_found
                | Some r \<Rightarrow> Inr (buf, length (cstr buf) - length r))
        })"

definition traffic_body :: "int \<Rightarrow> nat \<Rightarrow> bytes \<Rightarrow> double cell \<Rightarrow> bool \<times> double cell" where
  "traffic_body direction i value traffic =
     (let traffic = (if i = 2 \<and> direction = 1 then Val (atof value) else traffic)
      in if i = 10 \<and> direction = 0 then (True, Val (atof value)) else (False, traffic))"

definition get_traffic :: "bytes \<Rightarrow> int \<Rightarrow> int \<Rightarrow> read_result \<Rightarrow> double cell option" where
  "get_traffic ath0 direction fd rres = do {
     r \<leftarrow> find_dev ath0 fd rres;
     case r of
       Inl _ \<Rightarrow> Some (Val (Whole 0))
     | Inr (buf, pDev) \<Rightarrow> do {
         (buf, p, save) \<leftarrow> strtok_r blanks buf pDev;
         token_loop (traffic_body direction) 0 buf p save Indeterminate
       }
   }"

text \<open>my_ipconfig: the array is static and keeps its values from call to call; NULL is Inl.\<close>

definition ipconfig_body :: "nat \<Rightarrow> bytes \<Rightarrow> double \<times> double \<Rightarrow> bool \<times> double \<times> double" where
  "ipconfig_body i value a =
     (let a = (if i = 2 then (atof value, snd a) else a)
      in if i = 10 then (True, fst a, atof value) else (False, a))"

definition my_ipconfig :: "bytes \<Rightarrow> int \<Rightarrow> read_result \<Rightarrow> double \<times> double \<Rightarrow> (failure + double \<times> double) option" where
  "my_ipconfig ath0 fd rres rx2_tx10 = do {
     r \<leftarrow> find_dev ath0 fd rres;
     case r of
       Inl e \<Rightarrow> Some (Inl e)
     | Inr (buf, pDev) \<Rightarrow> do {
         (buf, p, save) \<leftarrow> strtok_r blanks buf pDev;
         a \<leftarrow> token_loop ipconfig_body 0 buf p save rx2_tx10;
         Some (Inr a)
       }
   }"

section \<open>The list of interfaces\<close>

text \<open>An element of the list of getifaddrs; ifa_data is None for a null pointer.\<close>

record ifaddr =
  ifa_name :: bytes
  ifa_up :: bool
  ifa_running :: bool
  ifa_data :: "(u64 \<times> u64) option"

record if_info =
  ifi_name :: bytes
  ifi_ibytes :: u64
  ifi_obytes :: u64

fun scan_ifaddrs :: "ifaddr list \<Rightarrow> int \<Rightarrow> if_info \<Rightarrow> int \<times> if_info" where
  "scan_ifaddrs [] ret ndev = (ret, ndev)"
| "scan_ifaddrs (ifa # l) ret ndev =
     (if \<not> ifa_up ifa \<and> \<not> ifa_running ifa then scan_ifaddrs l ret ndev
      else case ifa_data ifa of
        None \<Rightarrow> scan_ifaddrs l ret ndev
      | Some (i, out) \<Rightarrow>
          if ifa_name ifa = ifi_name ndev then (0, ndev\<lparr>ifi_ibytes := i, ifi_obytes := out\<rparr>)
          else scan_ifaddrs l 1 ndev)"

text \<open>The result of getifaddrs is None on failure. strcmp is 1 for any two different names.\<close>

definition get_if_dbytes :: "ifaddr list option \<Rightarrow> if_info \<Rightarrow> int \<times> if_info" where
  "get_if_dbytes ifa_list ndev =
     (case ifa_list of
        None \<Rightarrow> (- 1, ndev)
      | Some l \<Rightarrow> (let (ret, ndev) = scan_ifaddrs l 0 ndev in (if ret \<noteq> 0 then - 1 else 0, ndev)))"

record if_speed =
  ifs_name :: bytes
  ifs_ispeed :: u64
  ifs_ospeed :: u64

definition get_if_speed :: "ifaddr list option \<Rightarrow> ifaddr list option \<Rightarrow> if_speed \<Rightarrow> int \<times> if_speed" where
  "get_if_speed list1 list2 ndev =
     (let p = \<lparr>ifi_name = ifs_name ndev, ifi_ibytes = 0, ifi_obytes = 0\<rparr>;
          (ret, p1) = get_if_dbytes list1 p
      in if ret < 0 then (0, ndev)
         else
           let (ret, p2) = get_if_dbytes list2 p
           in if ret < 0 then (0, ndev)
              else (0, ndev\<lparr>ifs_ispeed := ifi_ibytes p2 - ifi_ibytes p1,
                            ifs_ospeed := ifi_obytes p2 - ifi_obytes p1\<rparr>))"

section \<open>Properties\<close>

lemma find_dev_found:
  assumes "dev_name_ok ath0" "fd \<noteq> - 1" "0 \<notin> set bs" "length bs \<le> 2047" "strstr bs ath0 = Some r"
  obtains A R where "find_dev ath0 fd (Read bs) = Some (Inr (A @ r @ 0 # R, length A))" "0 \<notin> set r"
proof -
  obtain A where A: "bs = A @ r" using strstr_SomeD [OF assms(5)] by blast
  let ?R = "bzero (2048 - Suc (length bs))"
  have "mem_put (bzero 2048) 0 (bs @ [0]) = Some (bs @ 0 # ?R)"
    using assms(4) by (simp add: mem_put_def bzero_def)
  then have "find_dev ath0 fd (Read bs) = Some (Inr (A @ r @ 0 # ?R, length A))"
    using assms(1,2,5) cstr_append_zero [OF assms(3), of ?R] by (simp add: find_dev_def A)
  then show thesis using that assms(3) A by simp
qed

lemma get_traffic_visit:
  assumes "dev_name_ok ath0" "fd \<noteq> - 1" "0 \<notin> set bs" "length bs \<le> 2047" "strstr bs ath0 = Some r"
  shows "get_traffic ath0 direction fd (Read bs) = visit (traffic_body direction) 0 (tokens blanks r) Indeterminate"
    and "my_ipconfig ath0 fd (Read bs) a =
      Option.bind (visit ipconfig_body 0 (tokens blanks r) a) (\<lambda>a. Some (Inr a))"
proof -
  obtain A R where f: "find_dev ath0 fd (Read bs) = Some (Inr (A @ r @ 0 # R, length A))" "0 \<notin> set r"
    using find_dev_found [OF assms] by blast
  show "get_traffic ath0 direction fd (Read bs) = visit (traffic_body direction) 0 (tokens blanks r) Indeterminate"
    unfolding get_traffic_def f(1) using token_loop_visit [OF f(2), of A R "traffic_body direction" 0 Indeterminate]
    by simp
  show "my_ipconfig ath0 fd (Read bs) a =
      Option.bind (visit ipconfig_body 0 (tokens blanks r) a) (\<lambda>a. Some (Inr a))"
    unfolding my_ipconfig_def f(1) using token_loop_visit [OF f(2), of A R ipconfig_body 0 a]
    by (cases "strtok_r blanks (A @ r @ 0 # R) (length A)") (auto split: bind_splits)
qed

lemma visit_rest:
  "2 \<le> i \<Longrightarrow> visit (traffic_body 1) i ws v = (if \<forall>w \<in> set ws. length w < 20 then Some v else None)"
  by (induction ws arbitrary: i) (simp_all add: traffic_body_def)

lemma visit_upload:
  "i \<le> 9 \<Longrightarrow> visit (traffic_body 0) i ws v =
     (if \<forall>w \<in> set (take (10 - i) ws). length w < 20
      then Some (if 10 - i \<le> length ws then Val (atof (ws ! (9 - i))) else v) else None)"
proof (induction ws arbitrary: i)
  case (Cons w ws)
  show ?case
  proof (cases "i = 9")
    case True
    then show ?thesis by (simp add: traffic_body_def)
  next
    case False
    then have "i \<le> 8" using Cons.prems by simp
    then have e: "10 - i = Suc (10 - Suc i)" "9 - i = Suc (9 - Suc i)" by simp_all
    show ?thesis unfolding e using Cons.IH [of "Suc i"] \<open>i \<le> 8\<close>
      by (simp add: traffic_body_def)
  qed
qed simp

lemma visit_ipconfig:
  "2 \<le> i \<Longrightarrow> i \<le> 9 \<Longrightarrow> visit ipconfig_body i ws a =
     (if \<forall>w \<in> set (take (10 - i) ws). length w < 20
      then Some (if 10 - i \<le> length ws then (fst a, atof (ws ! (9 - i))) else a) else None)"
proof (induction ws arbitrary: i)
  case (Cons w ws)
  show ?case
  proof (cases "i = 9")
    case True
    then show ?thesis by (simp add: ipconfig_body_def)
  next
    case False
    then have "i \<le> 8" using Cons.prems by simp
    then have e: "10 - i = Suc (10 - Suc i)" "9 - i = Suc (9 - Suc i)" by simp_all
    show ?thesis unfolding e using Cons.IH [of "Suc i"] \<open>i \<le> 8\<close> Cons.prems(1)
      by (simp add: ipconfig_body_def)
  qed
qed simp

text \<open>For a text that is found at r, and whose tokens from there on are given.\<close>

lemma get_traffic_tokens:
  assumes "dev_name_ok ath0" "fd \<noteq> - 1" "0 \<notin> set bs" "length bs \<le> 2047" "strstr bs ath0 = Some r"
    and "10 \<le> length (tokens blanks r)"
  shows "get_traffic ath0 0 fd (Read bs) =
      (if \<forall>w \<in> set (take 10 (tokens blanks r)). length w < 20
       then Some (Val (atof (tokens blanks r ! 9))) else None) \<and>
    get_traffic ath0 1 fd (Read bs) =
      (if \<forall>w \<in> set (tokens blanks r). length w < 20
       then Some (Val (atof (tokens blanks r ! 1))) else None)"
proof -
  obtain w1 w2 ws where ws: "tokens blanks r = w1 # w2 # ws"
    using assms(6) by (cases "tokens blanks r" rule: remdups_adj.cases) auto
  have "visit (traffic_body 1) 0 (w1 # w2 # ws) Indeterminate =
      (if \<forall>w \<in> set (w1 # w2 # ws). length w < 20 then Some (Val (atof w2)) else None)"
    by (simp add: traffic_body_def visit_rest)
  then show ?thesis
    using get_traffic_visit(1) [OF assms(1-5)] visit_upload [of 0 "tokens blanks r" Indeterminate] assms(6)
    by (simp add: ws)
qed

text \<open>my_ipconfig gives both counters at once, the same that get_traffic gives one at a time.\<close>

theorem my_ipconfig_agrees:
  assumes "dev_name_ok ath0" "fd \<noteq> - 1" "0 \<notin> set bs" "length bs \<le> 2047" "strstr bs ath0 = Some r"
    and "10 \<le> length (tokens blanks r)"
    and "get_traffic ath0 0 fd (Read bs) = Some (Val up)" "get_traffic ath0 1 fd (Read bs) = Some (Val down)"
  shows "my_ipconfig ath0 fd (Read bs) a = Some (Inr (down, up))"
proof -
  obtain w1 w2 ws where ws: "tokens blanks r = w1 # w2 # ws"
    using assms(6) by (cases "tokens blanks r" rule: remdups_adj.cases) auto
  have "visit (traffic_body 1) 0 (w1 # w2 # ws) Indeterminate =
      (if \<forall>w \<in> set (w1 # w2 # ws). length w < 20 then Some (Val (atof w2)) else None)"
    by (simp add: traffic_body_def visit_rest)
  moreover have "up = atof ((w1 # w2 # ws) ! 9)" "8 \<le> length ws"
    using get_traffic_visit(1) [OF assms(1-5), of 0] visit_upload [of 0 "tokens blanks r" Indeterminate] assms(6,7)
    by (auto simp: ws split: if_splits)
  ultimately show ?thesis
    using get_traffic_visit [OF assms(1-5)] assms(8)
    by (auto simp: ws ipconfig_body_def visit_ipconfig dest: in_set_takeD split: if_splits)
qed

section \<open>The file /proc/net/dev\<close>

text \<open>
  A line for every interface, after a header: some blanks, the name, a colon, and 16 counters (eight
  for what was received, eight for what was sent), each after at least one blank.
\<close>

record net_line =
  nl_indent :: nat
  nl_name :: bytes
  nl_counters :: "(nat \<times> nat) list"

definition fields :: "(nat \<times> nat) list \<Rightarrow> bytes" where
  "fields fs = concat (map (\<lambda>(k, n). replicate (Suc k) 0x20 @ digits n) fs)"

definition line_bytes :: "net_line \<Rightarrow> bytes" where
  "line_bytes l = replicate (nl_indent l) 0x20 @ nl_name l @ 0x3A # fields (nl_counters l) @ [0x0A]"

definition counters :: "net_line \<Rightarrow> nat list" where
  "counters l = map snd (nl_counters l)"

abbreviation received_bytes :: "net_line \<Rightarrow> nat" where
  "received_bytes l \<equiv> counters l ! 0"

abbreviation sent_bytes :: "net_line \<Rightarrow> nat" where
  "sent_bytes l \<equiv> counters l ! 8"

text \<open>Names have at most 15 characters, and neither blanks nor colons.\<close>

definition plain_name :: "bytes \<Rightarrow> bool" where
  "plain_name w \<longleftrightarrow> w \<noteq> [] \<and> 0 \<notin> set w \<and> 0x3A \<notin> set w \<and> set w \<inter> set blanks = {}"

definition wf_line :: "net_line \<Rightarrow> bool" where
  "wf_line l \<longleftrightarrow> plain_name (nl_name l) \<and> length (nl_name l) \<le> 15 \<and> length (nl_counters l) = 16"

text \<open>Finding a name that contains no separator in a text that is made of words and separators.\<close>

lemma strstr_Nil: "n \<noteq> [] \<Longrightarrow> strstr [] n = None"
  by (simp add: strstr.simps)

lemma strstr_word:
  assumes "c \<notin> set n" "n \<noteq> []"
  shows "strstr (w @ c # rest) n = (case strstr w n of Some r \<Rightarrow> Some (r @ c # rest) | None \<Rightarrow> strstr rest n)"
proof (induction w)
  case Nil
  have "take (length n) (c # rest) \<noteq> n" using assms by (cases n) auto
  then show ?case using strstr.simps [of "c # rest" n] by (simp add: strstr_Nil [OF assms(2)])
next
  case (Cons x w)
  have "take (length n) ((x # w) @ c # rest) = n \<longleftrightarrow> take (length n) (x # w) = n"
  proof (cases "length n \<le> length (x # w)")
    case False
    then obtain k where "length n - length (x # w) = Suc k" by (cases "length n - length (x # w)") auto
    moreover have "take (length n) ((x # w) @ c # rest) = (x # w) @ take (length n - length (x # w)) (c # rest)"
      unfolding take_append using False by simp
    ultimately have "c \<in> set (take (length n) ((x # w) @ c # rest))" by simp
    then show ?thesis using False assms(1) by auto
  next
    case True
    then have "take (length n) ((x # w) @ c # rest) = take (length n) (x # w)" by (simp only: take_append) simp
    then show ?thesis by simp
  qed
  then show ?case
    using Cons strstr.simps [of "x # w" n] strstr.simps [of "x # w @ c # rest" n] by simp
qed

text \<open>A name that the text of a line can only contain in its name.\<close>

definition searchable :: "bytes \<Rightarrow> bool" where
  "searchable n \<longleftrightarrow> plain_name n \<and> length n \<le> 100 \<and> (\<exists>c \<in> set n. \<not> digit c)"

lemma searchable_seps:
  assumes "searchable n"
  shows "n \<noteq> []" "0x20 \<notin> set n" "0x0A \<notin> set n" "0x3A \<notin> set n" "dev_name_ok n"
  using assms by (auto simp: searchable_def plain_name_def blanks_def dev_name_ok_def Suc_le_eq)

lemma strstr_digits: "searchable n \<Longrightarrow> strstr (digits k) n = None"
  using digits_digit [of k] strstr_SomeD [of "digits k" n]
  by (cases "strstr (digits k) n") (fastforce simp: searchable_def)+

lemma strstr_blanks:
  "searchable n \<Longrightarrow> strstr (replicate k 0x20 @ rest) n = strstr rest n"
proof (induction k)
  case (Suc k)
  then show ?case using strstr_word [of "0x20 :: u8" n "[]"] searchable_seps [of n] by (simp add: strstr_Nil)
qed simp

lemma strstr_fields:
  assumes "searchable n"
  shows "strstr (fields fs @ 0x0A # rest) n = strstr rest n"
proof (induction fs)
  case Nil
  then show ?case using strstr_word [of "0x0A :: u8" n "[]"] searchable_seps [OF assms] by (simp add: fields_def strstr_Nil)
next
  case (Cons f fs)
  obtain c T where T: "fields fs @ 0x0A # rest = c # T" "c = 0x20 \<or> c = 0x0A"
    by (cases fs) (auto simp: fields_def)
  have "c \<notin> set n" "n \<noteq> []" using searchable_seps [OF assms] T(2) by auto
  note w = strstr_word [OF this]
  have "strstr (fields (f # fs) @ 0x0A # rest) n = strstr (digits (snd f) @ c # T) n"
    using strstr_blanks [OF assms, of "Suc (fst f)" "digits (snd f) @ c # T"] T(1)
    by (simp add: fields_def split_def)
  also have "\<dots> = strstr (c # T) n" using w [of "digits (snd f)"] w [of "[]"] strstr_digits [OF assms]
    by (simp add: strstr_Nil [OF \<open>n \<noteq> []\<close>])
  finally show ?case using Cons T(1) by simp
qed

lemma strstr_line:
  assumes "searchable n"
  shows "strstr (line_bytes l @ rest) n = (case strstr (nl_name l) n of
     Some r \<Rightarrow> Some (r @ 0x3A # fields (nl_counters l) @ 0x0A # rest) | None \<Rightarrow> strstr rest n)"
  using strstr_word [of "0x3A :: u8" n "nl_name l"] searchable_seps [OF assms]
  by (simp add: line_bytes_def strstr_blanks [OF assms] strstr_fields [OF assms] del: replicate.simps split: option.split)

lemma strstr_lines:
  assumes "searchable n" "\<forall>l \<in> set before. strstr (nl_name l) n = None"
  shows "strstr (concat (map line_bytes before) @ rest) n = strstr rest n"
  using assms(2) by (induction before) (simp_all add: strstr_line [OF assms(1)])

text \<open>The tokens of a line.\<close>

lemma tokens_word:
  assumes "w \<noteq> []" "set w \<inter> set d = {}" "c \<in> set d"
  shows "tokens d (w @ c # T) = w # tokens d T"
proof -
  have w: "\<forall>x \<in> set w. x \<notin> set d" using assms(2) by auto
  have "dropWhile (\<lambda>x. x \<in> set d) (w @ c # T) = w @ c # T" using assms(1) w by (cases w) auto
  moreover have "takeWhile (\<lambda>x. x \<notin> set d) (w @ c # T) = w" using w assms(3) by (simp add: takeWhile_append)
  ultimately show ?thesis using assms(1) by (subst tokens.simps) (simp add: Let_def)
qed

lemma tokens_sep: "c \<in> set d \<Longrightarrow> tokens d (c # T) = tokens d T"
  by (subst (1 2) tokens.simps) (simp add: Let_def)

lemma tokens_blanks: "tokens blanks (replicate k 0x20 @ T) = tokens blanks T"
  by (induction k) (simp_all add: tokens_sep blanks_def)

lemma digits_no_blank: "set (digits n) \<inter> set blanks = {}"
  using digits_digit [of n] by (auto simp: blanks_def digit_def)

lemma tokens_fields:
  "tokens blanks (fields fs @ 0x0A # T) = map (digits \<circ> snd) fs @ tokens blanks T"
proof (induction fs)
  case Nil
  then show ?case by (simp add: fields_def tokens_sep blanks_def)
next
  case (Cons f fs)
  obtain c U where U: "fields fs @ 0x0A # T = c # U" "c \<in> set blanks"
    by (cases fs) (auto simp: fields_def blanks_def)
  have "tokens blanks (fields (f # fs) @ 0x0A # T) = tokens blanks (digits (snd f) @ c # U)"
    using tokens_blanks [of "Suc (fst f)" "digits (snd f) @ c # U"] U(1) by (simp add: fields_def split_def)
  also have "\<dots> = digits (snd f) # tokens blanks (c # U)"
    using tokens_word [OF digits_ne digits_no_blank U(2)] tokens_sep [OF U(2)] by simp
  finally show ?case using Cons U(1) by simp
qed

lemma tokens_line:
  assumes "plain_name w" "fs \<noteq> []"
  shows "tokens blanks (w @ 0x3A # fields fs @ 0x0A # T) = (w @ [0x3A]) # map (digits \<circ> snd) fs @ tokens blanks T"
proof -
  obtain U where U: "fields fs @ 0x0A # T = 0x20 # U" using assms(2) by (cases fs) (auto simp: fields_def)
  have "0x20 \<in> set blanks" "set (w @ [0x3A]) \<inter> set blanks = {}"
    using assms(1) by (auto simp: plain_name_def blanks_def)
  with tokens_word [of "w @ [0x3A]" blanks "0x20" U] tokens_sep [of "0x20 :: u8" blanks U] tokens_fields [of fs T] U
  show ?thesis by simp
qed

lemma tokens_lines:
  assumes "\<forall>l \<in> set ls. wf_line l"
  shows "tokens blanks (concat (map line_bytes ls)) =
    concat (map (\<lambda>l. (nl_name l @ [0x3A]) # map digits (counters l)) ls)"
  using assms
proof (induction ls)
  case (Cons l ls)
  then have "plain_name (nl_name l)" "nl_counters l \<noteq> []" by (auto simp: wf_line_def)
  from tokens_line [OF this] Cons show ?case by (simp add: line_bytes_def tokens_blanks counters_def)
qed simp

text \<open>How long the fields are: a counter of 64 bits can have 20 digits.\<close>

lemma digits_length_ge: "10 ^ k \<le> n \<Longrightarrow> k < length (digits n)"
proof (induction k arbitrary: n)
  case 0
  then show ?case using digits_ne [of n] by simp
next
  case (Suc k)
  have "1 \<le> (10 :: nat) ^ k" by simp
  then have "10 \<le> 10 * (10 :: nat) ^ k" by linarith
  then have "\<not> n < 10" using Suc.prems unfolding power_Suc by linarith
  moreover have "10 ^ k \<le> n div 10" using Suc.prems by (simp add: less_eq_div_iff_mult_less_eq)
  ultimately show ?case using Suc.IH by (subst digits.simps) simp
qed

lemma short_field: "length (digits n) < 20 \<longleftrightarrow> n < 10 ^ 19"
proof (cases "n < 10 ^ 19")
  case True
  then show ?thesis using digits_length [of n 19] by simp
next
  case False
  then show ?thesis using digits_length_ge [of 19 n] by simp
qed

lemma line_zero: "wf_line l \<Longrightarrow> 0 \<notin> set (line_bytes l)"
  using digits_digit by (auto simp: line_bytes_def wf_line_def plain_name_def fields_def)

lemma name_rest:
  assumes "wf_line l" "strstr (nl_name l) n = Some r" "n \<noteq> []"
  shows "plain_name r" "length r \<le> 15"
proof -
  obtain p q where "nl_name l = p @ r" "r = n @ q" using strstr_SomeD [OF assms(2)] by blast
  then show "plain_name r" "length r \<le> 15" using assms(1,3) by (auto simp: wf_line_def plain_name_def)
qed

text \<open>C30. What get_traffic reads out of /proc/net/dev, whatever interfaces there are: the counter of the first
  interface whose name contains the name that was asked for, which need not be the one of that name
  (veth0 before eth0), rounded to a double: for an upload (direction 0) the bytes sent, for a download the
  bytes received. The copies of the fields hold 19 characters, so that a counter of 20 digits overflows
  one: for an upload the nine counters of the line up to the one wanted are copied, for a download all
  of this line and of all the lines after it, since that loop is not left when the value is found.\<close>

theorem get_traffic_interface:
  assumes n: "searchable ath0" and fd: "fd \<noteq> - 1"
    and hdr: "0 \<notin> set hdr" "strstr hdr ath0 = None"
    and ls: "\<forall>l \<in> set (before @ l # after). wf_line l"
    and first: "\<forall>l \<in> set before. strstr (nl_name l) ath0 = None" "strstr (nl_name l) ath0 \<noteq> None"
    and bs: "bs = hdr @ 0x0A # concat (map line_bytes (before @ l # after))" "length bs \<le> 2047"
  shows "get_traffic ath0 0 fd (Read bs) =
      (if \<forall>n \<in> set (take 9 (counters l)). n < 10 ^ 19
       then Some (Val (Whole (to_double (sent_bytes l)))) else None) \<and>
    get_traffic ath0 1 fd (Read bs) =
      (if \<forall>l' \<in> set (l # after). \<forall>n \<in> set (counters l'). n < 10 ^ 19
       then Some (Val (Whole (to_double (received_bytes l)))) else None)"
proof -
  note s = searchable_seps [OF n]
  obtain r where r: "strstr (nl_name l) ath0 = Some r" using first(2) by blast
  let ?r = "r @ 0x3A # fields (nl_counters l) @ 0x0A # concat (map line_bytes after)"
  have found: "strstr bs ath0 = Some ?r"
    using strstr_word [OF s(3,1), of hdr] hdr(2) strstr_lines [OF n first(1)] strstr_line [OF n, of l] r
    by (simp add: bs(1))
  have l: "wf_line l" "\<forall>l \<in> set after. wf_line l" using ls by simp_all
  note rest = name_rest [OF l(1) r s(1)]
  have c: "length (counters l) = 16" "nl_counters l \<noteq> []" using l(1) by (auto simp: wf_line_def counters_def)
  have t: "tokens blanks ?r = (r @ [0x3A]) # map digits (counters l) @
      concat (map (\<lambda>l. (nl_name l @ [0x3A]) # map digits (counters l)) after)"
    using tokens_line [OF rest(1) c(2)] tokens_lines [OF l(2)] by (simp add: counters_def)
  have zero: "0 \<notin> set bs" using hdr(1) ls line_zero by (auto simp: bs(1))
  have ten: "10 \<le> length (tokens blanks ?r)" using c(1) by (simp add: t)
  have names: "\<forall>l \<in> set after. length (nl_name l) < 19" using l(2) by (auto simp: wf_line_def)
  have "take 10 (tokens blanks ?r) = (r @ [0x3A]) # map digits (take 9 (counters l))"
    using c(1) by (simp add: t take_map)
  moreover have "tokens blanks ?r ! 9 = digits (sent_bytes l)" "tokens blanks ?r ! 1 = digits (received_bytes l)"
    using c(1) by (simp_all add: t nth_append)
  moreover have "(\<forall>w \<in> set (tokens blanks ?r). length w < 20) \<longleftrightarrow>
      (\<forall>l' \<in> set (l # after). \<forall>n \<in> set (counters l'). n < 10 ^ 19)"
    using rest(2) names by (simp add: t short_field ball_Un)
  ultimately show ?thesis
    using get_traffic_tokens [OF s(5) fd zero bs(2) found ten] rest(2) by (simp add: short_field atof_digits)
qed

text \<open>Two interfaces of which the first contains the name of the second.\<close>

definition veth_line :: net_line where
  "veth_line = \<lparr>nl_indent = 1, nl_name = cs ''veth0'', nl_counters = map (Pair 0) [570, 12, 0, 0, 0, 0, 0, 0, 94, 3, 0, 0, 0, 0, 0, 0]\<rparr>"

definition eth_line :: net_line where
  "eth_line = \<lparr>nl_indent = 2, nl_name = cs ''eth0'', nl_counters = map (Pair 0) [8, 1, 0, 0, 0, 0, 0, 0, 9007199254740993, 1, 0, 0, 0, 0, 0, 0]\<rparr>"

theorem get_traffic_interface_witness:
  "get_traffic (cs ''eth0'') 0 3 (Read (cs ''Inter-'' @ 0x0A # line_bytes eth_line)) = Some (Val (Whole 9007199254740992)) \<and>
   get_traffic (cs ''eth0'') 1 3 (Read (cs ''Inter-'' @ 0x0A # line_bytes veth_line @ line_bytes eth_line)) =
     Some (Val (Whole 570))"
proof -
  have n: "searchable (cs ''eth0'')"
    by (auto simp: searchable_def plain_name_def blanks_def digit_def cs_def of_char_def)
  have h: "0 \<notin> set (cs ''Inter-'')" "strstr (cs ''Inter-'') (cs ''eth0'') = None"
    by (simp_all add: strstr.simps cs_def of_char_def)
  have w: "wf_line eth_line" "wf_line veth_line"
    by (auto simp: wf_line_def plain_name_def blanks_def eth_line_def veth_line_def cs_def of_char_def)
  have f: "strstr (nl_name eth_line) (cs ''eth0'') \<noteq> None" "strstr (nl_name veth_line) (cs ''eth0'') \<noteq> None"
    by (simp_all add: strstr.simps eth_line_def veth_line_def cs_def of_char_def)
  have c: "counters eth_line = [8, 1, 0, 0, 0, 0, 0, 0, 9007199254740993, 1, 0, 0, 0, 0, 0, 0]"
    "counters veth_line = [570, 12, 0, 0, 0, 0, 0, 0, 94, 3, 0, 0, 0, 0, 0, 0]"
    by (simp_all add: counters_def eth_line_def veth_line_def)
  have len: "length (line_bytes l) \<le> 500" if "l \<in> {eth_line, veth_line}" for l
    using that by (auto simp: line_bytes_def fields_def eth_line_def veth_line_def cs_def digits.simps)
  have d: "to_double 9007199254740993 = 9007199254740992" "to_double 570 = 570"
    by (simp_all add: to_double_def excess.simps)
  have l: "length (cs ''Inter-'' @ 0x0A # concat (map line_bytes ([] @ eth_line # []))) \<le> 2047"
    "length (cs ''Inter-'' @ 0x0A # concat (map line_bytes ([] @ veth_line # [eth_line]))) \<le> 2047"
    using len [of eth_line] len [of veth_line] by (simp_all add: cs_def)
  have "(3 :: int) \<noteq> - 1" by simp
  from get_traffic_interface [OF n this h _ _ f(1) refl l(1)] get_traffic_interface [OF n this h _ _ f(2) refl l(2)]
  show ?thesis using w by (simp add: c d)
qed

text \<open>get_if_speed returns 0 in every case; the speeds are the differences of the counters, modulo the width
  of the counters, exactly when both readings succeed, and unchanged otherwise.\<close>

theorem get_if_speed_result:
  shows "fst (get_if_speed list1 list2 ndev) = 0 \<and>
    snd (get_if_speed list1 list2 ndev) =
      (let p = \<lparr>ifi_name = ifs_name ndev, ifi_ibytes = 0, ifi_obytes = 0\<rparr>;
           p1 = snd (get_if_dbytes list1 p); p2 = snd (get_if_dbytes list2 p)
       in if fst (get_if_dbytes list1 p) = 0 \<and> fst (get_if_dbytes list2 p) = 0
          then ndev\<lparr>ifs_ispeed := ifi_ibytes p2 - ifi_ibytes p1, ifs_ospeed := ifi_obytes p2 - ifi_obytes p1\<rparr>
          else ndev)"
  by (auto simp: get_if_speed_def get_if_dbytes_def Let_def split: prod.splits option.splits)

lemma scan_ifaddrs_spec:
  "scan_ifaddrs l ret nd =
     (case find (\<lambda>i. (ifa_up i \<or> ifa_running i) \<and> ifa_data i \<noteq> None \<and> ifa_name i = ifi_name nd) l of
        Some i \<Rightarrow> (0, nd\<lparr>ifi_ibytes := fst (the (ifa_data i)), ifi_obytes := snd (the (ifa_data i))\<rparr>)
      | None \<Rightarrow> (if \<exists>i \<in> set l. (ifa_up i \<or> ifa_running i) \<and> ifa_data i \<noteq> None then 1 else ret, nd))"
  by (induction l arbitrary: ret) (auto split: option.splits)

text \<open>get_if_dbytes reports success without having found the interface exactly when the list has no interface
  in operation with counters at all.\<close>

theorem get_if_dbytes_result:
  "get_if_dbytes (Some l) nd =
     (case find (\<lambda>i. (ifa_up i \<or> ifa_running i) \<and> ifa_data i \<noteq> None \<and> ifa_name i = ifi_name nd) l of
        Some i \<Rightarrow> (0, nd\<lparr>ifi_ibytes := fst (the (ifa_data i)), ifi_obytes := snd (the (ifa_data i))\<rparr>)
      | None \<Rightarrow> (if \<exists>i \<in> set l. (ifa_up i \<or> ifa_running i) \<and> ifa_data i \<noteq> None then - 1 else 0, nd))"
  by (simp add: get_if_dbytes_def scan_ifaddrs_spec split: option.splits)

end
