(* ===== verification/Gpio_Quectel.thy ===== *)
theory Gpio_Quectel
  imports Main
begin

text \<open>
  ingenic_drv/gpio-quectel.c: a platform driver that powers a modem through three GPIO lines. The
  GPIO functions of the kernel are parameters on a state 'k of their own; the locale states what
  the driver relies on.
\<close>

record 'k gpiolib =
  gpio_request :: "nat \<Rightarrow> 'k \<Rightarrow> int \<times> 'k"
  gpio_direction_output :: "nat \<Rightarrow> bool \<Rightarrow> 'k \<Rightarrow> int \<times> 'k"
  gpio_set_value :: "nat \<Rightarrow> bool \<Rightarrow> 'k \<Rightarrow> 'k"

definition GPIO_TO_PIN :: "nat \<Rightarrow> nat \<Rightarrow> nat" where
  "GPIO_TO_PIN bank gpio = 32 * bank + gpio"

definition MODEL_POWERKEY :: nat where "MODEL_POWERKEY = GPIO_TO_PIN 3 2"
definition MODEL_CTRL :: nat where "MODEL_CTRL = GPIO_TO_PIN 3 5"
definition MODEL_PWREN :: nat where "MODEL_PWREN = GPIO_TO_PIN 1 1"

lemmas model_pins = MODEL_POWERKEY_def MODEL_CTRL_def MODEL_PWREN_def GPIO_TO_PIN_def

text \<open>The power key is pressed for five seconds; the delays (mdelay) are not part of the state.\<close>

definition iopower_probe :: "'k gpiolib \<Rightarrow> 'k \<Rightarrow> int \<times> 'k" where
  "iopower_probe g k =
     (let (ret, k) = gpio_request g MODEL_PWREN k in if ret < 0 then (ret, k) else
      let (ret, k) = gpio_direction_output g MODEL_PWREN True k in if ret < 0 then (ret, k) else
      let (ret, k) = gpio_request g MODEL_CTRL k in if ret < 0 then (ret, k) else
      let (ret, k) = gpio_direction_output g MODEL_CTRL True k in if ret < 0 then (ret, k) else
      let (ret, k) = gpio_request g MODEL_POWERKEY k in if ret < 0 then (ret, k) else
      let (ret, k) = gpio_direction_output g MODEL_POWERKEY False k in if ret < 0 then (ret, k) else
      let k = gpio_set_value g MODEL_POWERKEY True k;
          k = gpio_set_value g MODEL_POWERKEY False k
      in (0, k))"

definition iopower_suspend :: "'k gpiolib \<Rightarrow> 'k \<Rightarrow> int \<times> 'k" where
  "iopower_suspend g k =
     (let (ret, k) = gpio_direction_output g MODEL_CTRL False k in if ret < 0 then (ret, k) else (0, k))"

definition iopower_resume :: "'k gpiolib \<Rightarrow> 'k \<Rightarrow> int \<times> 'k" where
  "iopower_resume g k =
     (let (ret, k) = gpio_direction_output g MODEL_PWREN True k in if ret < 0 then (ret, k) else
      let (ret, k) = gpio_direction_output g MODEL_CTRL True k in if ret < 0 then (ret, k) else
      (0, k))"

definition iopower_remove :: "'k \<Rightarrow> int \<times> 'k" where
  "iopower_remove k = (0, k)"

section \<open>The module\<close>

text \<open>
  What the module has registered, and whether the device is bound to the driver. Registering the
  driver lets the kernel call probe for the device, because the names agree; the result of probe is
  not the result of the registration. Unregistering the device calls remove when it is bound.
  dev_ret and drv_ret are what the kernel returns.
\<close>

record platform =
  device_registered :: bool
  driver_registered :: bool
  bound :: bool

definition iopower_init :: "'k gpiolib \<Rightarrow> int \<Rightarrow> int \<Rightarrow> platform \<times> 'k \<Rightarrow> int \<times> platform \<times> 'k" where
  "iopower_init g dev_ret drv_ret = (\<lambda>(p, k).
     if dev_ret \<noteq> 0 then (dev_ret, p, k)
     else
       let p = p\<lparr>device_registered := True\<rparr> in
       if drv_ret \<noteq> 0 then (drv_ret, p, k)
       else
         let p = p\<lparr>driver_registered := True\<rparr>;
             (ret, k) = iopower_probe g k
         in (0, p\<lparr>bound := (ret = 0)\<rparr>, k))"

definition iopower_exit :: "platform \<times> 'k \<Rightarrow> platform \<times> 'k" where
  "iopower_exit = (\<lambda>(p, k).
     let k = (if bound p then snd (iopower_remove k) else k);
         p = p\<lparr>device_registered := False, bound := False\<rparr>;
         p = p\<lparr>driver_registered := False\<rparr>
     in (p, k))"

section \<open>The contract of the kernel\<close>

text \<open>
  A line that is held by somebody cannot be requested; a request that succeeds holds the line, and
  only that changes who holds what. level is what a line puts out.
\<close>

locale gpio_kernel =
  fixes g :: "'k gpiolib" and held :: "'k \<Rightarrow> nat set" and level :: "'k \<Rightarrow> nat \<Rightarrow> bool"
  assumes busy: "n \<in> held k \<Longrightarrow> fst (gpio_request g n k) < 0"
    and request: "gpio_request g n k = (r, k') \<Longrightarrow> held k' = (if r < 0 then held k else insert n (held k)) \<and> level k' = level k"
    and drive: "gpio_direction_output g n v k = (r, k') \<Longrightarrow>
      held k' = held k \<and> level k' = (if r < 0 then level k else (level k)(n := v))"
    and set_level: "held (gpio_set_value g n v k) = held k \<and> level (gpio_set_value g n v k) = (level k)(n := v)"
begin

lemma effects:
  shows "held (snd (gpio_request g n k)) = (if fst (gpio_request g n k) < 0 then held k else insert n (held k))"
    and "level (snd (gpio_request g n k)) = level k"
    and "held (snd (gpio_direction_output g n v k)) = held k"
    and "level (snd (gpio_direction_output g n v k)) =
      (if fst (gpio_direction_output g n v k) < 0 then level k else (level k)(n := v))"
  using request [of n k] drive [of n v k] by (metis prod.collapse)+

lemma probe_grows:
  assumes "iopower_probe g k = (r, k')"
  shows "held k \<subseteq> held k' \<and> (0 \<le> r \<longrightarrow> r = 0 \<and> held k' = held k \<union> {MODEL_PWREN, MODEL_CTRL, MODEL_POWERKEY})"
proof -
  have "held k \<subseteq> held (snd (iopower_probe g k)) \<and> (0 \<le> fst (iopower_probe g k) \<longrightarrow>
      fst (iopower_probe g k) = 0 \<and>
      held (snd (iopower_probe g k)) = held k \<union> {MODEL_PWREN, MODEL_CTRL, MODEL_POWERKEY})"
    unfolding iopower_probe_def by (auto simp: split_beta Let_def effects set_level)
  then show ?thesis
    using assms by simp
qed

lemma probe_levels:
  assumes "iopower_probe g k = (0, k')"
  shows "level k' = (level k)(MODEL_PWREN := True, MODEL_CTRL := True, MODEL_POWERKEY := False)"
proof -
  have "level k' = (level k)(MODEL_PWREN := True, MODEL_CTRL := True, MODEL_POWERKEY := True, MODEL_POWERKEY := False)"
    using assms unfolding iopower_probe_def
    by (auto simp: split_beta Let_def effects set_level split: if_splits)
  then show ?thesis
    by simp
qed

lemma probe_first_failure:
  assumes "gpio_request g MODEL_PWREN k = (r1, k1)" "0 \<le> r1"
    and "gpio_direction_output g MODEL_PWREN True k1 = (r2, k2)" "r2 < 0"
  shows "iopower_probe g k = (r2, k2) \<and> MODEL_PWREN \<in> held k2"
  using assms request [OF assms(1)] drive [OF assms(3)] by (auto simp: iopower_probe_def)

lemma probe_again:
  assumes "MODEL_PWREN \<in> held k"
  shows "fst (iopower_probe g k) < 0 \<and> held (snd (iopower_probe g k)) = held k"
  using busy [OF assms] request [of MODEL_PWREN k]
  by (auto simp: iopower_probe_def split: prod.splits)

lemma probe_sign: "iopower_probe g k = (r, k') \<Longrightarrow> r \<le> 0"
  by (auto simp: iopower_probe_def split: prod.splits if_splits)

lemma suspend_resume:
  assumes "iopower_suspend g k = (0, k1)" "iopower_resume g k1 = (0, k2)"
  shows "\<not> level k1 MODEL_CTRL \<and> level k1 MODEL_PWREN = level k MODEL_PWREN \<and>
    level k2 = (level k)(MODEL_PWREN := True, MODEL_CTRL := True) \<and> held k2 = held k"
  using assms unfolding iopower_suspend_def iopower_resume_def
  by (auto simp: fun_eq_iff model_pins split: prod.splits if_splits dest!: drive)

end

text \<open>A kernel that keeps the lines held and their levels; the lines in bad cannot be driven.\<close>

definition demo_gpiolib :: "nat set \<Rightarrow> (nat set \<times> (nat \<Rightarrow> bool)) gpiolib" where
  "demo_gpiolib bad = \<lparr>
     gpio_request = (\<lambda>n (h, l). if n \<in> h then (- 16, (h, l)) else (0, (insert n h, l))),
     gpio_direction_output = (\<lambda>n v (h, l). if n \<in> bad then (- 5, (h, l)) else (0, (h, l(n := v)))),
     gpio_set_value = (\<lambda>n v (h, l). (h, l(n := v)))\<rparr>"

interpretation demo: gpio_kernel "demo_gpiolib bad" fst snd for bad
  by unfold_locales (auto simp: demo_gpiolib_def split: prod.splits if_splits)

section \<open>Properties\<close>

text \<open>When probe succeeds the three lines are held and put out high, high and, after the key was pressed,
  low. When it fails it returns a negative number and gives back none of the lines.\<close>

theorem iopower_probe_result:
  assumes "gpio_kernel g held level" "iopower_probe g k = (r, k')"
  shows "r \<le> 0 \<and> held k \<subseteq> held k' \<and>
    (r = 0 \<longrightarrow> held k' = held k \<union> {MODEL_PWREN, MODEL_CTRL, MODEL_POWERKEY} \<and>
       level k' = (level k)(MODEL_PWREN := True, MODEL_CTRL := True, MODEL_POWERKEY := False))"
  using gpio_kernel.probe_sign [OF assms] gpio_kernel.probe_grows [OF assms]
    gpio_kernel.probe_levels [OF assms(1)] assms(2) by auto

theorem iopower_probe_result_witness:
  "fst (snd (iopower_probe (demo_gpiolib {}) ({}, \<lambda>_. False))) = {33, 101, 98}"
proof -
  obtain h l where p: "iopower_probe (demo_gpiolib {}) ({}, \<lambda>_. False) = (0, (h, l))"
    by (simp add: iopower_probe_def demo_gpiolib_def model_pins)
  from iopower_probe_result [OF demo.gpio_kernel_axioms p] p show ?thesis by (auto simp: model_pins)
qed

text \<open>A probe that cannot drive the first line leaves it held, and the driver cannot be bound a second time:
  neither a failed probe nor remove gives the lines back, so that the next probe fails.\<close>

theorem iopower_reprobe_fails:
  assumes "gpio_kernel g held level" "iopower_probe g k = (0, k1)" "iopower_remove k1 = (r, k2)"
  shows "r = 0 \<and> fst (iopower_probe g k2) < 0 \<and> held (snd (iopower_probe g k2)) = held k1"
  using gpio_kernel.probe_grows [OF assms(1,2)] gpio_kernel.probe_again [OF assms(1), of k2] assms(3)
  by (simp add: iopower_remove_def)

theorem iopower_reprobe_fails_witness:
  "\<exists>k1. iopower_probe (demo_gpiolib {}) ({}, \<lambda>_. False) = (0, k1) \<and> fst (iopower_probe (demo_gpiolib {}) k1) < 0"
proof -
  obtain k1 where p: "iopower_probe (demo_gpiolib {}) ({}, \<lambda>_. False) = (0, k1)"
    by (simp add: iopower_probe_def demo_gpiolib_def model_pins)
  have "iopower_remove k1 = (0, k1)" by (simp add: iopower_remove_def)
  from iopower_reprobe_fails [OF demo.gpio_kernel_axioms p this] p show ?thesis by blast
qed

text \<open>Suspending takes the control line down and leaves the power on; resuming restores what probe set up.\<close>

theorem iopower_suspend_resume:
  assumes "gpio_kernel g held level" "iopower_probe g k0 = (0, k)"
    and "iopower_suspend g k = (0, k1)" "iopower_resume g k1 = (0, k2)"
  shows "\<not> level k1 MODEL_CTRL \<and> level k1 MODEL_PWREN \<and> level k2 = level k \<and> held k2 = held k"
  using gpio_kernel.suspend_resume [OF assms(1,3,4)] gpio_kernel.probe_levels [OF assms(1,2)]
  by (auto simp: fun_eq_iff model_pins)

theorem iopower_suspend_resume_witness:
  "\<exists>k k1 k2. iopower_probe (demo_gpiolib {}) ({}, \<lambda>_. False) = (0, k) \<and>
     iopower_suspend (demo_gpiolib {}) k = (0, k1) \<and> iopower_resume (demo_gpiolib {}) k1 = (0, k2) \<and>
     snd k2 = snd k"
proof -
  obtain k where p: "iopower_probe (demo_gpiolib {}) ({}, \<lambda>_. False) = (0, k)"
    by (simp add: iopower_probe_def demo_gpiolib_def model_pins)
  obtain k1 where s: "iopower_suspend (demo_gpiolib {}) k = (0, k1)"
    by (cases k) (simp add: iopower_suspend_def demo_gpiolib_def)
  obtain k2 where r: "iopower_resume (demo_gpiolib {}) k1 = (0, k2)"
    by (cases k1) (simp add: iopower_resume_def demo_gpiolib_def)
  from iopower_suspend_resume [OF demo.gpio_kernel_axioms p s r] p s r show ?thesis by blast
qed

text \<open>C27. The life of the module. Loading fails with the error of the kernel; when the driver could not be
  registered, the device stays registered although the module is not there. After a load that bound
  the device and an unload, a second load reports success as well, but the device is not bound: the
  lines are still held since the first time.\<close>

theorem iopower_reload:
  assumes "gpio_kernel g held level" "iopower_init g 0 0 (p, k) = (0, p1, k1)" "bound p1"
    and "iopower_exit (p1, k1) = (p2, k2)" "iopower_init g dev_ret drv_ret (p2, k2) = (r, p3, k3)"
  shows "held k2 = held k \<union> {MODEL_PWREN, MODEL_CTRL, MODEL_POWERKEY} \<and> held k3 = held k2 \<and> \<not> bound p3 \<and>
    r = (if dev_ret \<noteq> 0 then dev_ret else drv_ret) \<and>
    (device_registered p3 \<longleftrightarrow> dev_ret = 0) \<and> (driver_registered p3 \<longleftrightarrow> dev_ret = 0 \<and> drv_ret = 0)"
proof -
  have 1: "iopower_probe g k = (0, k1)" "k2 = k1"
    "p2 = p1\<lparr>device_registered := False, bound := False, driver_registered := False\<rparr>"
    using assms(2-4) by (auto simp: iopower_init_def iopower_exit_def iopower_remove_def Let_def split: prod.splits)
  from gpio_kernel.probe_grows [OF assms(1) 1(1)]
  have h: "held k1 = held k \<union> {MODEL_PWREN, MODEL_CTRL, MODEL_POWERKEY}" by simp
  then have "MODEL_PWREN \<in> held k2" using 1(2) by simp
  from gpio_kernel.probe_again [OF assms(1) this]
  have "fst (iopower_probe g k2) \<noteq> 0" "held (snd (iopower_probe g k2)) = held k2" by auto
  then show ?thesis
    using assms(5) 1 h by (auto simp: iopower_init_def Let_def split: prod.splits if_splits)
qed

theorem iopower_reload_witness:
  "\<exists>p1 k1 p2 k2 p3 k3. iopower_init (demo_gpiolib {}) 0 0 (\<lparr>device_registered = False, driver_registered = False,
      bound = False\<rparr>, ({}, \<lambda>_. False)) = (0, p1, k1) \<and> bound p1 \<and> iopower_exit (p1, k1) = (p2, k2) \<and>
     iopower_init (demo_gpiolib {}) 0 0 (p2, k2) = (0, p3, k3) \<and> \<not> bound p3"
proof -
  let ?p = "\<lparr>device_registered = False, driver_registered = False, bound = False\<rparr>"
  obtain p1 k1 where 1: "iopower_init (demo_gpiolib {}) 0 0 (?p, ({}, \<lambda>_. False)) = (0, p1, k1)" "bound p1"
    by (simp add: iopower_init_def iopower_probe_def demo_gpiolib_def model_pins)
  obtain p2 k2 where 2: "iopower_exit (p1, k1) = (p2, k2)" by (cases "iopower_exit (p1, k1)")
  obtain r p3 k3 where 3: "iopower_init (demo_gpiolib {}) 0 0 (p2, k2) = (r, p3, k3)"
    by (cases "iopower_init (demo_gpiolib {}) 0 0 (p2, k2)")
  from iopower_reload [OF demo.gpio_kernel_axioms 1 2 3] have "r = 0" "\<not> bound p3" by simp_all
  then show ?thesis
    using 1 2 3 by (intro exI [of _ p1] exI [of _ k1] exI [of _ p2] exI [of _ k2] exI [of _ p3] exI [of _ k3]) simp
qed

end
