(* ===== verification/Sys_Gpio.thy ===== *)
theory Sys_Gpio
  imports Stdio MD5_File
begin

text \<open>
  sys_gpio/sys_gpio.c and the class GPIO of sys_gpio/gpio_class.cpp, which drive GPIO lines
  through the files of /sys/class/gpio, and the modem control of sys_gpio/modem.cpp. The state is
  the sequence of writes to those files; whether a file can be opened is a parameter.
\<close>

record gpio_writes =
  writes :: "(bytes \<times> bytes) list"

section \<open>sys_gpio.c\<close>

text \<open>
  The common shape of the functions that write: \<open>fp = fopen(path,"r+")\<close>, a complaint or fprintf,
  and fclose(fp) in both cases. Closing a null pointer is undefined behaviour.
\<close>

definition write_file :: "(bytes \<Rightarrow> bool) \<Rightarrow> bytes \<Rightarrow> bytes \<Rightarrow> gpio_writes \<Rightarrow> gpio_writes option" where
  "write_file fopen path text s = (if fopen path then Some (s\<lparr>writes := writes s @ [(path, text)]\<rparr>) else None)"

definition Gpio_init :: "(bytes \<Rightarrow> bool) \<Rightarrow> int \<Rightarrow> gpio_writes \<Rightarrow> gpio_writes option" where
  "Gpio_init fopen n s = write_file fopen (cs ''/sys/class/gpio/export'') (printf_d n) s"

definition Gpio_destroy :: "(bytes \<Rightarrow> bool) \<Rightarrow> int \<Rightarrow> gpio_writes \<Rightarrow> gpio_writes option" where
  "Gpio_destroy fopen n s = write_file fopen (cs ''/sys/class/gpio/unexport'') (printf_d n) s"

definition gpio_file :: "int \<Rightarrow> bytes \<Rightarrow> bytes" where
  "gpio_file n attr = cs ''/sys/class/gpio/gpio'' @ printf_d n @ attr"

definition GpioSetValue :: "(bytes \<Rightarrow> bool) \<Rightarrow> int \<Rightarrow> bytes \<Rightarrow> gpio_writes \<Rightarrow> gpio_writes option" where
  "GpioSetValue fopen n value s = do {
     path \<leftarrow> strcpy (bzero 100) (gpio_file n (cs ''/value''));
     write_file fopen (cstr path) value s
   }"

definition GpioSetDirection :: "(bytes \<Rightarrow> bool) \<Rightarrow> int \<Rightarrow> bytes \<Rightarrow> gpio_writes \<Rightarrow> gpio_writes option" where
  "GpioSetDirection fopen n direction s = do {
     path \<leftarrow> strcpy (bzero 100) (gpio_file n (cs ''/direction''));
     write_file fopen (cstr path) direction s
   }"

text \<open>
  GpioGetValue: fd is what open returns for the path, r what read returns; value_str starts as
  junk (3 bytes). The path is cut off at 64 bytes by snprintf.
\<close>

definition GpioGetValue :: "bytes \<Rightarrow> int \<Rightarrow> read_result \<Rightarrow> int option" where
  "GpioGetValue junk fd r =
     (if fd < 0 then Some (- 1)
      else case r of
        Read_error \<Rightarrow> Some (- 1)
      | Read bs \<Rightarrow> do { value_str \<leftarrow> mem_put junk 0 bs; atoi value_str })"

text \<open>
  GpioGetDirection reads 3 bytes into direction_str (5 bytes of junk) and prints it as a string;
  the method of the class GPIO does not print.
\<close>

definition direction_code :: "bytes \<Rightarrow> int" where
  "direction_code d = (if d ! 0 = 0x69 then 1 else if d ! 0 = 0x6F then 0 else - 1)"

definition GpioGetDirection :: "bytes \<Rightarrow> int \<Rightarrow> read_result \<Rightarrow> int option" where
  "GpioGetDirection junk fd r =
     (if fd < 0 then Some (- 1)
      else case r of
        Read_error \<Rightarrow> Some (- 1)
      | Read bs \<Rightarrow> do {
          direction_str \<leftarrow> mem_put junk 0 bs;
          guard (terminated direction_str);
          Some (direction_code direction_str)
        })"

text \<open>main of sys_gpio.c up to the first call that reads.\<close>

definition sys_gpio_setup :: "(bytes \<Rightarrow> bool) \<Rightarrow> gpio_writes \<Rightarrow> gpio_writes option" where
  "sys_gpio_setup fopen s = do {
     s \<leftarrow> Gpio_init fopen 18 s;
     s \<leftarrow> GpioSetDirection fopen 18 (cs ''out'') s;
     GpioSetValue fopen 18 (cs ''1'') s
   }"

section \<open>The class GPIO\<close>

record GPIO =
  gpio_no :: int

definition new_GPIO :: "(bytes \<Rightarrow> bool) \<Rightarrow> int \<Rightarrow> gpio_writes \<Rightarrow> (GPIO \<times> gpio_writes) option" where
  "new_GPIO fopen n s = do {
     let this = \<lparr>gpio_no = n\<rparr>;
     s \<leftarrow> write_file fopen (cs ''/sys/class/gpio/export'') (printf_d (gpio_no this)) s;
     Some (this, s)
   }"

definition delete_GPIO :: "(bytes \<Rightarrow> bool) \<Rightarrow> GPIO \<Rightarrow> gpio_writes \<Rightarrow> gpio_writes option" where
  "delete_GPIO fopen this s = write_file fopen (cs ''/sys/class/gpio/unexport'') (printf_d (gpio_no this)) s"

definition GPIO_GpioSetValue :: "(bytes \<Rightarrow> bool) \<Rightarrow> GPIO \<Rightarrow> bytes \<Rightarrow> gpio_writes \<Rightarrow> gpio_writes option" where
  "GPIO_GpioSetValue fopen this value s = do {
     path \<leftarrow> strcpy (bzero 100) (gpio_file (gpio_no this) (cs ''/value''));
     write_file fopen (cstr path) value s
   }"

definition GPIO_GpioSetDirection :: "(bytes \<Rightarrow> bool) \<Rightarrow> GPIO \<Rightarrow> bytes \<Rightarrow> gpio_writes \<Rightarrow> gpio_writes option" where
  "GPIO_GpioSetDirection fopen this direction s = do {
     path \<leftarrow> strcpy (bzero 100) (gpio_file (gpio_no this) (cs ''/direction''));
     write_file fopen (cstr path) direction s
   }"

definition GPIO_GpioGetValue :: "bytes \<Rightarrow> int \<Rightarrow> read_result \<Rightarrow> int option" where
  "GPIO_GpioGetValue junk fd r =
     (if fd < 0 then Some (- 1)
      else case r of
        Read_error \<Rightarrow> Some (- 1)
      | Read bs \<Rightarrow> do { value_str \<leftarrow> mem_put junk 0 bs; atoi value_str })"

definition GPIO_GpioGetDirection :: "bytes \<Rightarrow> int \<Rightarrow> read_result \<Rightarrow> int option" where
  "GPIO_GpioGetDirection junk fd r =
     (if fd < 0 then Some (- 1)
      else case r of
        Read_error \<Rightarrow> Some (- 1)
      | Read bs \<Rightarrow> do {
          direction_str \<leftarrow> mem_put junk 0 bs;
          Some (direction_code direction_str)
        })"

section \<open>modem.cpp\<close>

text \<open>The objects for the lines 85 and 97 are made before main; open presses the power key.\<close>

definition modem_start :: "(bytes \<Rightarrow> bool) \<Rightarrow> gpio_writes \<Rightarrow> ((GPIO \<times> GPIO) \<times> gpio_writes) option" where
  "modem_start fopen s = do {
     (pwren_4g, s) \<leftarrow> new_GPIO fopen 85 s;
     (pwrkey_4g, s) \<leftarrow> new_GPIO fopen 97 s;
     Some ((pwren_4g, pwrkey_4g), s)
   }"

definition modem_init :: "(bytes \<Rightarrow> bool) \<Rightarrow> GPIO \<times> GPIO \<Rightarrow> gpio_writes \<Rightarrow> gpio_writes option" where
  "modem_init fopen m s = do {
     s \<leftarrow> GPIO_GpioSetDirection fopen (fst m) (cs ''out'') s;
     s \<leftarrow> GPIO_GpioSetDirection fopen (snd m) (cs ''out'') s;
     s \<leftarrow> GPIO_GpioSetValue fopen (fst m) (cs ''1'') s;
     GPIO_GpioSetValue fopen (snd m) (cs ''0'') s
   }"

definition modem_open :: "(bytes \<Rightarrow> bool) \<Rightarrow> GPIO \<times> GPIO \<Rightarrow> gpio_writes \<Rightarrow> gpio_writes option" where
  "modem_open fopen m s = do {
     s \<leftarrow> GPIO_GpioSetValue fopen (fst m) (cs ''1'') s;
     s \<leftarrow> GPIO_GpioSetValue fopen (snd m) (cs ''0'') s;
     s \<leftarrow> GPIO_GpioSetValue fopen (snd m) (cs ''1'') s;
     GPIO_GpioSetValue fopen (snd m) (cs ''0'') s
   }"

definition modem_close :: "(bytes \<Rightarrow> bool) \<Rightarrow> GPIO \<times> GPIO \<Rightarrow> gpio_writes \<Rightarrow> gpio_writes option" where
  "modem_close fopen m s = GPIO_GpioSetValue fopen (fst m) (cs ''0'') s"

section \<open>Paths and writes\<close>

lemma gpio_path:
  assumes "- (2 ^ 31) \<le> n" "n < 2 ^ 31" "0 \<notin> set attr" "length attr \<le> 20"
  shows "\<exists>b. strcpy (bzero 100) (gpio_file n attr) = Some b \<and> cstr b = gpio_file n attr"
proof -
  have s: "0 \<notin> set (cs ''/sys/class/gpio/gpio'')" "length (cs ''/sys/class/gpio/gpio'') = 20"
    by (simp_all add: cs_def of_char_def)
  have "0 \<notin> set (gpio_file n attr)" "length (gpio_file n attr) < 100"
    using printf_d_facts [OF assms(1,2)] assms(3,4) s by (auto simp: gpio_file_def)
  moreover from this obtain b where b: "strcpy (bzero 100) (gpio_file n attr) = Some b"
    by (simp add: strcpy_eq)
  ultimately show ?thesis using strcpy_SomeD [OF b] by blast
qed

lemma attr_facts:
  "0 \<notin> set (cs ''/value'')" "length (cs ''/value'') \<le> 20" "0 \<notin> set (cs ''/direction'')" "length (cs ''/direction'') \<le> 20"
  by (simp_all add: cs_def of_char_def)

section \<open>Properties\<close>

text \<open>For every int the path fits its buffer, and the text goes to the file of that line; when the file
  cannot be opened the functions close a null pointer.\<close>

theorem gpio_set_writes:
  assumes "- (2 ^ 31) \<le> n" "n < 2 ^ 31"
  shows "GpioSetValue fopen n v s =
      (if fopen (gpio_file n (cs ''/value'')) then Some (s\<lparr>writes := writes s @ [(gpio_file n (cs ''/value''), v)]\<rparr>) else None) \<and>
    GpioSetDirection fopen n v s =
      (if fopen (gpio_file n (cs ''/direction'')) then Some (s\<lparr>writes := writes s @ [(gpio_file n (cs ''/direction''), v)]\<rparr>) else None)"
  using gpio_path [OF assms attr_facts(1,2)] gpio_path [OF assms attr_facts(3,4)]
  by (auto simp: GpioSetValue_def GpioSetDirection_def write_file_def)

theorem gpio_set_writes_witness:
  "GpioSetValue (\<lambda>_. True) 18 (cs ''1'') \<lparr>writes = []\<rparr> = Some \<lparr>writes = [(cs ''/sys/class/gpio/gpio18/value'', cs ''1'')]\<rparr>"
proof -
  have "- (2 ^ 31) \<le> (18 :: int)" "(18 :: int) < 2 ^ 31" by simp_all
  from gpio_set_writes [OF this, of "\<lambda>_. True"] show ?thesis
    by (simp add: gpio_file_def printf_d_def digits.simps cs_def of_char_def)
qed

text \<open>The number written to the export file is read back by atoi, whatever follows it.\<close>

theorem atoi_printf_d:
  assumes "\<not> digit c"
  shows "atoi (printf_d n @ c # rest) = Some n"
  using assms by (rule atoi_printf)

theorem atoi_printf_d_witness:
  "atoi (cs ''-97'' @ [0x0A]) = Some (- 97)"
proof -
  have "\<not> digit 0x0A" by (simp add: digit_def)
  from atoi_printf_d [OF this, of "- 97" "[]"] show ?thesis
    by (simp add: printf_d_def digits.simps cs_def of_char_def)
qed

text \<open>The C function and the method of the class agree wherever the former is defined; the former prints an
  array that it only fills to three of its five bytes, and reads behind it when the other two
  hold no zero.\<close>

theorem GpioGetDirection_equiv:
  shows "(GpioGetDirection junk fd r = Some v \<longrightarrow> GPIO_GpioGetDirection junk fd r = Some v) \<and>
    (length junk = 5 \<and> 0 \<notin> set junk \<and> 0 \<notin> set bs \<and> length bs \<le> 5 \<and> 0 \<le> fd \<longrightarrow>
       GpioGetDirection junk fd (Read bs) = None \<and> GPIO_GpioGetDirection junk fd (Read bs) \<noteq> None)"
proof -
  have "GpioGetDirection junk fd r = Some v \<Longrightarrow> GPIO_GpioGetDirection junk fd r = Some v"
    by (auto simp: GpioGetDirection_def GPIO_GpioGetDirection_def elim!: bind_SomeE
        split: if_splits read_result.splits)
  moreover have "GpioGetDirection junk fd (Read bs) = None \<and> GPIO_GpioGetDirection junk fd (Read bs) \<noteq> None"
    if "length junk = 5" "0 \<notin> set junk" "0 \<notin> set bs" "length bs \<le> 5" "0 \<le> fd"
  proof -
    have "0 \<notin> set (drop (length bs) junk)" using that(2) by (meson in_set_dropD)
    then show ?thesis using that
      by (simp add: GpioGetDirection_def GPIO_GpioGetDirection_def mem_put_def terminated_def)
  qed
  ultimately show ?thesis by blast
qed

theorem GpioGetDirection_equiv_witness:
  "GpioGetDirection [7, 7, 7, 7, 7] 3 (Read (cs ''in'' @ [0x0A])) = None"
  using GpioGetDirection_equiv [of "[7, 7, 7, 7, 7]" 3 Read_error 0 "cs ''in'' @ [0x0A]"]
  by (simp add: cs_def of_char_def)

end
