(* ===== verification/Sem.thy ===== *)
theory Sem
  imports Prelude Transition
begin

text \<open>
  sem/sem.c: the main thread reads words into a shared buffer and wakes a second thread, which
  prints their lengths. The program counters name the statements between which the threads can
  be interleaved; the semaphore is its count.
\<close>

datatype main_pc = M_scan | M_check | M_post | M_last_post | M_break | M_exited | M_overflow

datatype child_pc = C_first_wait | C_test | C_print | C_clear | C_wait | C_exit

record program =
  sbuf :: bytes
  sflag :: int
  sem :: nat
  main :: main_pc
  child :: child_pc
  printed :: "nat list"

definition sem_init :: program where
  "sem_init = \<lparr>sbuf = bzero 100, sflag = 0, sem = 0, main = M_scan, child = C_first_wait, printed = []\<rparr>"

text \<open>
  main: scanf stores a word of any length; at the end of the input it returns -1, which does not
  end the loop either. The statement \<open>flag==1\<close> compares and does not assign.
\<close>

definition main_scan :: "bytes option \<Rightarrow> program \<Rightarrow> program" where
  "main_scan word s =
     (case word of
        None \<Rightarrow> s\<lparr>main := M_check\<rparr>
      | Some w \<Rightarrow>
          (case strcpy (sbuf s) w of
             None \<Rightarrow> s\<lparr>main := M_overflow\<rparr>
           | Some b \<Rightarrow> s\<lparr>sbuf := b, main := M_check\<rparr>))"

definition main_check :: "program \<Rightarrow> program" where
  "main_check s = (if take 3 (cstr (sbuf s)) = cs ''end'' then s\<lparr>main := M_last_post\<rparr> else s\<lparr>main := M_post\<rparr>)"

definition main_post :: "program \<Rightarrow> program" where
  "main_post s = (if main s = M_last_post then s\<lparr>sem := sem s + 1, main := M_break\<rparr> else s\<lparr>sem := sem s + 1, main := M_scan\<rparr>)"

text \<open>func; the wait before the loop and the one at its end do the same.\<close>

definition child_wait :: "program \<Rightarrow> program" where
  "child_wait s = s\<lparr>sem := sem s - 1, child := C_test\<rparr>"

definition child_test :: "program \<Rightarrow> program" where
  "child_test s = s\<lparr>child := (if sflag s = 0 then C_print else C_exit)\<rparr>"

definition child_print :: "program \<Rightarrow> program" where
  "child_print s = s\<lparr>printed := printed s @ [length (cstr (sbuf s))], child := C_clear\<rparr>"

definition child_clear :: "program \<Rightarrow> program" where
  "child_clear s = s\<lparr>sbuf := bzero 100, child := C_wait\<rparr>"

text \<open>The return of main ends the process, and with it the second thread.\<close>

inductive sem_step :: "program \<Rightarrow> program \<Rightarrow> bool" where
  scan: "main s = M_scan \<Longrightarrow> (\<forall>w. word = Some w \<longrightarrow> 0 \<notin> set w) \<Longrightarrow> sem_step s (main_scan word s)"
| check: "main s = M_check \<Longrightarrow> sem_step s (main_check s)"
| post: "main s = M_post \<or> main s = M_last_post \<Longrightarrow> sem_step s (main_post s)"
| return: "main s = M_break \<Longrightarrow> sem_step s (s\<lparr>main := M_exited\<rparr>)"
| wait: "main s \<notin> {M_exited, M_overflow} \<Longrightarrow> child s = C_first_wait \<or> child s = C_wait \<Longrightarrow> 0 < sem s \<Longrightarrow>
    sem_step s (child_wait s)"
| test: "main s \<notin> {M_exited, M_overflow} \<Longrightarrow> child s = C_test \<Longrightarrow> sem_step s (child_test s)"
| print: "main s \<notin> {M_exited, M_overflow} \<Longrightarrow> child s = C_print \<Longrightarrow> sem_step s (child_print s)"
| clear: "main s \<notin> {M_exited, M_overflow} \<Longrightarrow> child s = C_clear \<Longrightarrow> sem_step s (child_clear s)"

inductive_cases sem_stepE: "sem_step s t"

definition sem_inv :: "program \<Rightarrow> bool" where
  "sem_inv s \<longleftrightarrow> sflag s = 0 \<and> child s \<noteq> C_exit \<and> length (sbuf s) = 100 \<and> terminated (sbuf s)"

lemmas sem_operations = main_scan_def main_check_def main_post_def child_wait_def child_test_def
  child_print_def child_clear_def

interpretation sem_prog: inductive_invariant "\<lambda>s. s = sem_init" sem_step sem_inv
proof
  show "sem_inv s" if "s = sem_init" for s
    using that by (simp add: sem_inv_def sem_init_def)
  show "sem_inv t" if inv: "sem_inv s" and st: "sem_step s t" for s t
    using st
  proof (rule sem_stepE)
    fix word assume w: "\<forall>w. word = Some w \<longrightarrow> 0 \<notin> set w" and t: "t = main_scan word s"
    show ?thesis
    proof (cases word)
      case (Some v)
      then have "0 \<notin> set v" using w by simp
      then show ?thesis using inv t Some strcpy_SomeD
        by (auto simp: sem_inv_def main_scan_def split: option.splits)
    qed (use inv t in \<open>simp add: sem_inv_def main_scan_def\<close>)
  qed (use inv in \<open>simp_all add: sem_inv_def sem_operations\<close>)
qed

section \<open>Properties\<close>

text \<open>C19. Whatever the input and the interleaving, the flag is never set, so that the second thread never comes to
  its pthread_exit; the buffer holds a terminated string in every state, unless a word of 100 or
  more characters was written behind it.\<close>

theorem sem_thread_never_exits:
  assumes "reachable (\<lambda>s. s = sem_init) sem_step s"
  shows "sflag s = 0 \<and> child s \<noteq> C_exit \<and> length (sbuf s) = 100 \<and> terminated (sbuf s)"
  using sem_prog.reachable_inv [OF assms] by (simp add: sem_inv_def)

theorem sem_thread_never_exits_witness:
  "child (main_check (main_scan (Some (cs ''end'')) sem_init)) \<noteq> C_exit"
proof -
  let ?s = "main_scan (Some (cs ''end'')) sem_init"
  have m: "main ?s = M_check" by (simp add: main_scan_def sem_init_def strcpy_eq cs_def)
  have "reachable (\<lambda>s. s = sem_init) sem_step sem_init" by (rule reachable.start) simp
  then have "reachable (\<lambda>s. s = sem_init) sem_step ?s"
    by (rule reachable.step) (rule sem_step.scan, simp_all add: sem_init_def cs_def of_char_def)
  then have "reachable (\<lambda>s. s = sem_init) sem_step (main_check ?s)"
    by (rule reachable.step) (rule sem_step.check [OF m])
  from sem_thread_never_exits [OF this] show ?thesis by simp
qed

text \<open>Two ways through the program: a word is read and posted; a length is printed.\<close>

lemma reach:
  "reachable (\<lambda>s. s = sem_init) sem_step s \<Longrightarrow> main s = M_scan \<Longrightarrow> length w < 100 \<Longrightarrow> 0 \<notin> set w \<Longrightarrow>
     take 3 w \<noteq> cs ''end'' \<Longrightarrow>
     \<exists>b. length b = 100 \<and> cstr b = w \<and>
       reachable (\<lambda>s. s = sem_init) sem_step (s\<lparr>sbuf := b, sem := sem s + 1, main := M_scan\<rparr>)"
proof -
  assume r: "reachable (\<lambda>s. s = sem_init) sem_step s" and m: "main s = M_scan" and l: "length w < 100"
    and w: "0 \<notin> set w" and e: "take 3 w \<noteq> cs ''end''"
  have "length (sbuf s) = 100" using sem_prog.reachable_inv [OF r] by (simp add: sem_inv_def)
  then obtain b where b: "strcpy (sbuf s) w = Some b" using l by (simp add: strcpy_eq)
  from strcpy_SomeD [OF b w] have c: "cstr b = w" "length b = 100" using \<open>length (sbuf s) = 100\<close> by simp_all
  have s1: "main_scan (Some w) s = s\<lparr>sbuf := b, main := M_check\<rparr>" by (simp add: main_scan_def b)
  have "reachable (\<lambda>s. s = sem_init) sem_step (main_scan (Some w) s)"
    by (rule reachable.step [OF r]) (rule sem_step.scan [OF m], simp add: w)
  then have "reachable (\<lambda>s. s = sem_init) sem_step (main_check (main_scan (Some w) s))"
    by (rule reachable.step) (rule sem_step.check, simp add: s1)
  then have "reachable (\<lambda>s. s = sem_init) sem_step (main_post (main_check (main_scan (Some w) s)))"
    by (rule reachable.step) (rule sem_step.post, simp add: s1 main_check_def c e)
  moreover have "main_post (main_check (main_scan (Some w) s)) = s\<lparr>sbuf := b, sem := sem s + 1, main := M_scan\<rparr>"
    by (simp add: s1 main_check_def main_post_def c e)
  ultimately show ?thesis using c by auto
qed

lemma reach_count:
  assumes "reachable (\<lambda>s. s = sem_init) sem_step s" "main s = M_scan" "0 < sem s"
    and "child s = C_first_wait \<or> child s = C_wait"
  shows "reachable (\<lambda>s. s = sem_init) sem_step
    (s\<lparr>sem := sem s - 1, printed := printed s @ [length (cstr (sbuf s))], sbuf := bzero 100, child := C_wait\<rparr>)"
proof -
  have f: "sflag s = 0" using sem_prog.reachable_inv [OF assms(1)] by (simp add: sem_inv_def)
  have "reachable (\<lambda>s. s = sem_init) sem_step (child_wait s)"
    by (rule reachable.step [OF assms(1)], rule sem_step.wait) (use assms in simp_all)
  then have "reachable (\<lambda>s. s = sem_init) sem_step (child_test (child_wait s))"
    by (rule reachable.step) (rule sem_step.test, simp_all add: child_wait_def assms(2))
  then have "reachable (\<lambda>s. s = sem_init) sem_step (child_print (child_test (child_wait s)))"
    by (rule reachable.step) (rule sem_step.print, simp_all add: child_wait_def child_test_def assms(2) f)
  then have "reachable (\<lambda>s. s = sem_init) sem_step (child_clear (child_print (child_test (child_wait s))))"
    by (rule reachable.step) (rule sem_step.clear, simp_all add: child_wait_def child_test_def child_print_def assms(2) f)
  then show ?thesis by (simp add: sem_operations f)
qed

text \<open>The words ab and xyz, both read in full and each of them posted, can be counted as 3 and 0: the second is
  read before the length of the first was printed.\<close>

theorem sem_miscounts:
  "\<exists>s. reachable (\<lambda>s. s = sem_init) sem_step s \<and> printed s = [3, 0] \<and> sem s = 0 \<and> main s = M_scan"
proof -
  have w: "length (cs ''ab'') < 100" "0 \<notin> set (cs ''ab'')" "take 3 (cs ''ab'') \<noteq> cs ''end''"
    "length (cs ''xyz'') < 100" "0 \<notin> set (cs ''xyz'')" "take 3 (cs ''xyz'') \<noteq> cs ''end''" "length (cs ''xyz'') = 3"
    by (simp_all add: cs_def of_char_def)
  have "reachable (\<lambda>s. s = sem_init) sem_step sem_init" by (rule reachable.start) simp
  from reach [OF this _ w(1-3)] obtain b1 where
    r1: "reachable (\<lambda>s. s = sem_init) sem_step (sem_init\<lparr>sbuf := b1, sem := sem sem_init + 1, main := M_scan\<rparr>)"
    by (auto simp: sem_init_def)
  from reach [OF this _ w(4-6)] obtain b2 where b2: "cstr b2 = cs ''xyz''" and
    r2: "reachable (\<lambda>s. s = sem_init) sem_step (sem_init\<lparr>sbuf := b2, sem := 2, main := M_scan\<rparr>)"
    by (auto simp: sem_init_def numeral_2_eq_2)
  let ?s2 = "sem_init\<lparr>sbuf := b2, sem := 2, main := M_scan\<rparr>"
  let ?s3 = "?s2\<lparr>sem := sem ?s2 - 1, printed := printed ?s2 @ [length (cstr (sbuf ?s2))], sbuf := bzero 100, child := C_wait\<rparr>"
  have r3: "reachable (\<lambda>s. s = sem_init) sem_step ?s3"
    by (rule reach_count [OF r2]) (simp_all add: sem_init_def)
  have "reachable (\<lambda>s. s = sem_init) sem_step
      (?s3\<lparr>sem := sem ?s3 - 1, printed := printed ?s3 @ [length (cstr (sbuf ?s3))], sbuf := bzero 100, child := C_wait\<rparr>)"
    by (rule reach_count [OF r3]) simp_all
  then show ?thesis using b2 w(7) by (intro exI conjI) (assumption, simp_all add: sem_init_def)
qed

end
