(* ===== verification/MsgTool.thy ===== *)
theory MsgTool
  imports Stdio "HOL-Library.Multiset"
begin

text \<open>
  ipc/msgtool.c: a tool that sends, receives and prints messages of a System V message queue. The
  queue is the kernel's (msgget, msgsnd, msgrcv, msgctl as their manual pages describe them); it outlives
  the runs of the tool. Permissions suffice, and a queue made by the tool takes 16384 bytes (MSGMNB). The octal modes 0660 and 0777 are 0x1B0 and
  0x1FF here.
\<close>

definition MAX_SEND_SIZE :: nat where "MAX_SEND_SIZE = 80"

lemmas msg_sizes [simp] = MAX_SEND_SIZE_def

section \<open>The queue\<close>

type_synonym msg = "int \<times> bytes"

record msg_queue =
  q_msgs :: "msg list"
  q_bytes :: nat
  q_mode :: u16

definition new_queue :: msg_queue where
  "new_queue = \<lparr>q_msgs = [], q_bytes = 16384, q_mode = 0x1B0\<rparr>"

definition used_bytes :: "msg list \<Rightarrow> nat" where
  "used_bytes ms = sum_list (map (length \<circ> snd) ms)"

text \<open>A type below 1 is refused; without room msgsnd waits.\<close>

definition msgsnd :: "int \<Rightarrow> bytes \<Rightarrow> msg_queue \<Rightarrow> (int \<times> msg_queue) outcome" where
  "msgsnd type text q =
     (if type < 1 then Done (- 1, q)
      else if length text + used_bytes (q_msgs q) \<le> q_bytes q
      then Done (0, q\<lparr>q_msgs := q_msgs q @ [(type, text)]\<rparr>)
      else Blocked)"

text \<open>
  The message msgrcv takes: the first one for type 0, the first of the type for a positive type, and
  for a negative one the first of the lowest type that is not above its absolute value.
\<close>

fun take_first :: "('a \<Rightarrow> bool) \<Rightarrow> 'a list \<Rightarrow> ('a \<times> 'a list) option" where
  "take_first P [] = None"
| "take_first P (x # xs) = (if P x then Some (x, xs) else map_option (\<lambda>(y, ys). (y, x # ys)) (take_first P xs))"

definition wanted :: "int \<Rightarrow> msg list \<Rightarrow> msg \<Rightarrow> bool" where
  "wanted type ms m \<longleftrightarrow>
     (if type = 0 then True
      else if 0 < type then fst m = type
      else fst m \<le> - type \<and> fst m = Min (fst ` set ms))"

text \<open>Without a message msgrcv waits; one that is longer than n bytes stays in the queue.\<close>

definition msgrcv :: "nat \<Rightarrow> int \<Rightarrow> msg_queue \<Rightarrow> (msg option \<times> msg_queue) outcome" where
  "msgrcv n type q =
     (case take_first (wanted type (q_msgs q)) (q_msgs q) of
        None \<Rightarrow> Blocked
      | Some (m, ms) \<Rightarrow> if n < length (snd m) then Done (None, q) else Done (Some m, q\<lparr>q_msgs := ms\<rparr>))"

section \<open>Reading numbers from the arguments\<close>

text \<open>An argument is a string. A value outside of the type is undefined behaviour for both functions.\<close>

definition atol :: "bytes \<Rightarrow> int option" where
  "atol s = do { v \<leftarrow> atoi (s @ [0]); guard (- (2 ^ 63) \<le> v \<and> v < 2 ^ 63); Some v }"

fun octal :: "bytes \<Rightarrow> nat \<Rightarrow> nat" where
  "octal [] v = v"
| "octal (c # s) v = (if 0x30 \<le> c \<and> c \<le> 0x37 then octal s (8 * v + unat (c - 0x30)) else v)"

text \<open>sscanf with \<open>%ho\<close>; None in the result means that nothing was stored.\<close>

definition sscanf_ho :: "bytes \<Rightarrow> u16 option option" where
  "sscanf_ho s =
     (let s = dropWhile (\<lambda>c. c = 0x20 \<or> (9 \<le> c \<and> c \<le> 13)) s;
          neg = (s \<noteq> [] \<and> hd s = 0x2D);
          s = (if s \<noteq> [] \<and> (hd s = 0x2D \<or> hd s = 0x2B) then tl s else s);
          v = octal s 0
      in if s = [] \<or> \<not> (0x30 \<le> hd s \<and> hd s \<le> 0x37) then Some None
         else if 2 ^ 16 \<le> v \<or> neg \<and> v \<noteq> 0 then None
         else Some (Some (of_nat v)))"

section \<open>The tool\<close>

record mymsgbuf =
  mtype :: int
  mtext :: bytes

text \<open>The result of send_message: the exit code if the program ends there.\<close>

definition send_message :: "mymsgbuf \<Rightarrow> int \<Rightarrow> bytes \<Rightarrow> msg_queue \<Rightarrow>
    (int option \<times> msg_queue) outcome option" where
  "send_message qbuf type text q = do {
     t \<leftarrow> strcpy (mtext qbuf) text;
     n \<leftarrow> strlen t;
     case msgsnd type (take (n + 1) t) q of
       Blocked \<Rightarrow> Some Blocked
     | Done (r, q) \<Rightarrow> Some (Done (if r = - 1 then Some 1 else None, q))
   }"

text \<open>
  read_message prints the type and the text of qbuf, whatever msgrcv returned. The text of a message
  comes from the queue as it is: printing one without a terminator reads on behind the array.
\<close>

definition read_message :: "mymsgbuf \<Rightarrow> int \<Rightarrow> msg_queue \<Rightarrow> (msg \<times> msg_queue) outcome option" where
  "read_message qbuf type q =
     (let qbuf = qbuf\<lparr>mtype := type\<rparr> in
      case msgrcv MAX_SEND_SIZE type q of
        Blocked \<Rightarrow> Some Blocked
      | Done (r, q) \<Rightarrow> do {
          qbuf \<leftarrow> (case r of
             None \<Rightarrow> Some qbuf
           | Some (t, text) \<Rightarrow> map_option (\<lambda>b. \<lparr>mtype = t, mtext = b\<rparr>) (mem_put (mtext qbuf) 0 text));
          guard (terminated (mtext qbuf));
          Some (Done ((mtype qbuf, cstr (mtext qbuf)), q))
        })"

text \<open>The kernel takes the lower nine bits of the mode.\<close>

definition change_queue_mode :: "bytes \<Rightarrow> msg_queue \<Rightarrow> msg_queue option" where
  "change_queue_mode mode q = do {
     r \<leftarrow> sscanf_ho mode;
     let m = (case r of None \<Rightarrow> q_mode q | Some m \<Rightarrow> m);
     Some (q\<lparr>q_mode := (q_mode q AND NOT 0x1FF) OR (m AND 0x1FF)\<rparr>)
   }"

definition remove_queue :: "msg_queue \<Rightarrow> msg_queue option" where
  "remove_queue q = None"

text \<open>usage prints a text and exits.\<close>

definition usage :: int where
  "usage = 1"

text \<open>tolower of the first character; an argument that is missing is a null pointer.\<close>

definition command_letter :: "bytes \<Rightarrow> u8" where
  "command_letter s = (let c = (case s of [] \<Rightarrow> 0 | c # _ \<Rightarrow> c) in if 0x41 \<le> c \<and> c \<le> 0x5A then c + 0x20 else c)"

definition arg :: "nat \<Rightarrow> bytes list \<Rightarrow> bytes option" where
  "arg i argv = (if i < length argv then Some (argv ! i) else None)"

text \<open>
  main: the exit code, the message printed, and the queue (None when there is none). qbuf is not
  initialised; msgget can fail.
\<close>

definition msgtool_main :: "bool \<Rightarrow> mymsgbuf \<Rightarrow> bytes list \<Rightarrow> msg_queue option \<Rightarrow>
    (int \<times> msg option \<times> msg_queue option) outcome option" where
  "msgtool_main msgget_ok qbuf argv queue =
     (if length argv = 1 then Some (Done (usage, None, queue))
      else if \<not> msgget_ok then Some (Done (1, None, queue))
      else do {
        a1 \<leftarrow> arg 1 argv;
        let q = (case queue of None \<Rightarrow> new_queue | Some q \<Rightarrow> q);
        let c = command_letter a1;
        if c = of_char (CHR ''s'') then do {
          type \<leftarrow> Option.bind (arg 2 argv) atol;
          text \<leftarrow> arg 3 argv;
          r \<leftarrow> send_message qbuf type text q;
          case r of
            Blocked \<Rightarrow> Some Blocked
          | Done (e, q) \<Rightarrow> Some (Done (case e of None \<Rightarrow> 0 | Some c \<Rightarrow> c, None, Some q))
        }
        else if c = of_char (CHR ''r'') then do {
          type \<leftarrow> Option.bind (arg 2 argv) atol;
          r \<leftarrow> read_message qbuf type q;
          case r of
            Blocked \<Rightarrow> Some Blocked
          | Done (m, q) \<Rightarrow> Some (Done (0, Some m, Some q))
        }
        else if c = of_char (CHR ''d'') then Some (Done (0, None, remove_queue q))
        else if c = of_char (CHR ''m'') then do {
          mode \<leftarrow> arg 2 argv;
          q \<leftarrow> change_queue_mode mode q;
          Some (Done (0, None, Some q))
        }
        else Some (Done (usage, None, Some q))
      })"

text \<open>Runs of the tool one after the other, with what each leaves in its variable qbuf at the start.\<close>

fun msgtool_runs :: "(mymsgbuf \<times> bytes list) list \<Rightarrow> msg_queue option \<Rightarrow>
    ((int \<times> msg option) list \<times> msg_queue option) outcome option" where
  "msgtool_runs [] q = Some (Done ([], q))"
| "msgtool_runs ((qbuf, argv) # runs) q = do {
     r \<leftarrow> msgtool_main True qbuf argv q;
     case r of
       Blocked \<Rightarrow> Some Blocked
     | Done (c, out, q) \<Rightarrow> do {
         r \<leftarrow> msgtool_runs runs q;
         case r of Blocked \<Rightarrow> Some Blocked | Done (outs, q) \<Rightarrow> Some (Done ((c, out) # outs, q))
       }
   }"

section \<open>Sending and receiving\<close>

text \<open>A message as the tool sends it, and as it is in the queue.\<close>

definition sendable :: "bytes \<times> bytes \<Rightarrow> msg \<Rightarrow> bool" where
  "sendable = (\<lambda>(a, x) m. atol a = Some (fst m) \<and> 1 \<le> fst m \<and> x = snd m \<and> length x < 80 \<and> 0 \<notin> set x)"

abbreviation queued :: "msg \<Rightarrow> msg" where "queued m \<equiv> (fst m, snd m @ [0])"

definition send_run :: "mymsgbuf \<Rightarrow> bytes \<times> bytes \<Rightarrow> mymsgbuf \<times> bytes list" where
  "send_run qbuf ax = (qbuf, [cs ''msgtool'', cs ''s'', fst ax, snd ax])"

definition recv_run :: "mymsgbuf \<Rightarrow> bytes \<Rightarrow> mymsgbuf \<times> bytes list" where
  "recv_run qbuf a = (qbuf, [cs ''msgtool'', cs ''r'', a])"

abbreviation queue_of :: "msg_queue option \<Rightarrow> msg_queue" where
  "queue_of q \<equiv> (case q of None \<Rightarrow> new_queue | Some q \<Rightarrow> q)"

lemma command_letters: "command_letter (cs ''s'') = of_char (CHR ''s'')" "command_letter (cs ''r'') = of_char (CHR ''r'')"
  "(of_char (CHR ''r'') :: u8) \<noteq> of_char (CHR ''s'')"
  by (simp_all add: command_letter_def cs_def of_char_def)

lemma send_message_ok:
  assumes "length (mtext qbuf) = 80" "length x < 80" "0 \<notin> set x" "1 \<le> t"
    and "Suc (length x) + used_bytes (q_msgs q) \<le> q_bytes q"
  shows "send_message qbuf t x q = Some (Done (None, q\<lparr>q_msgs := q_msgs q @ [(t, x @ [0])]\<rparr>))"
proof -
  have "strlen (x @ 0 # drop (Suc (length x)) (mtext qbuf)) = Some (length x)"
    using assms(3) by (simp add: strlen_def terminated_def cstr_append_zero)
  then show ?thesis using assms by (simp add: send_message_def strcpy_eq msgsnd_def)
qed

lemma send_run_ok:
  assumes "sendable ax m" "length (mtext qbuf) = 80"
    and "Suc (length (snd m)) + used_bytes (q_msgs (queue_of q)) \<le> q_bytes (queue_of q)"
  shows "msgtool_main True qbuf (snd (send_run qbuf ax)) q =
    Some (Done (0, None, Some ((queue_of q)\<lparr>q_msgs := q_msgs (queue_of q) @ [queued m]\<rparr>)))"
  using assms send_message_ok [of qbuf "snd m" "fst m" "queue_of q"]
  by (simp add: msgtool_main_def send_run_def sendable_def arg_def command_letters Let_def split: prod.splits)

text \<open>The outputs of earlier runs in front of those of later ones.\<close>

definition prepend :: "(int \<times> msg option) list \<Rightarrow> ((int \<times> msg option) list \<times> msg_queue option) outcome option \<Rightarrow>
    ((int \<times> msg option) list \<times> msg_queue option) outcome option" where
  "prepend os r = map_option (\<lambda>r. case r of Blocked \<Rightarrow> Blocked | Done (outs, q) \<Rightarrow> Done (os @ outs, q)) r"

lemma prepend_simps [simp]:
  "prepend [] r = r" "prepend xs (prepend ys r) = prepend (xs @ ys) r" "prepend xs None = None"
  "prepend xs (Some (Done (ys, q))) = Some (Done (xs @ ys, q))"
  by (cases r; auto simp: prepend_def split: outcome.splits)+

lemma msgtool_runs_Cons:
  assumes "msgtool_main True b argv q = Some (Done (c, out, q'))"
  shows "msgtool_runs ((b, argv) # runs) q = prepend [(c, out)] (msgtool_runs runs q')"
  using assms by (cases "msgtool_runs runs q'") (auto simp: prepend_def split: outcome.splits)

lemma sends_ok:
  assumes "list_all2 sendable axs ms" "\<forall>b \<in> set bufs. length (mtext b) = 80" "length bufs = length axs"
    and "used_bytes (q_msgs (queue_of q)) + used_bytes (map queued ms) \<le> q_bytes (queue_of q)"
  shows "msgtool_runs (map2 send_run bufs axs @ runs) q = prepend (map (\<lambda>_. (0, None)) ms)
    (msgtool_runs runs (if ms = [] then q else Some ((queue_of q)\<lparr>q_msgs := q_msgs (queue_of q) @ map queued ms\<rparr>)))"
  using assms
proof (induction axs ms arbitrary: bufs q rule: list_all2_induct)
  case (Cons ax axs m ms)
  from Cons.prems(2) obtain b bs where b: "bufs = b # bs" by (cases bufs) auto
  let ?q = "(queue_of q)\<lparr>q_msgs := q_msgs (queue_of q) @ [queued m]\<rparr>"
  have r: "msgtool_main True b (snd (send_run b ax)) q = Some (Done (0, None, Some ?q))"
    using Cons.prems by (intro send_run_ok Cons.hyps(1)) (simp_all add: b used_bytes_def)
  have "msgtool_runs (map2 send_run bs axs @ runs) (Some ?q) = prepend (map (\<lambda>_. (0, None)) ms)
    (msgtool_runs runs (if ms = [] then Some ?q else Some (?q\<lparr>q_msgs := q_msgs ?q @ map queued ms\<rparr>)))"
    using Cons.prems by (intro Cons.IH [of bs "Some ?q", unfolded option.case]) (simp_all add: b used_bytes_def)
  moreover have "(if ms = [] then Some ?q else Some (?q\<lparr>q_msgs := q_msgs ?q @ map queued ms\<rparr>)) =
      Some ((queue_of q)\<lparr>q_msgs := q_msgs (queue_of q) @ map queued (m # ms)\<rparr>)" by simp
  moreover have "map2 send_run bufs (ax # axs) @ runs = (b, snd (send_run b ax)) # map2 send_run bs axs @ runs"
    by (simp add: b send_run_def)
  ultimately show ?case using msgtool_runs_Cons [OF r] by simp
qed simp

lemma read_run_ok:
  assumes "atol a = Some t" "length (mtext qbuf) = 80" "0 \<notin> set (snd m)" "length (snd m) < 80"
    and "take_first (wanted t (q_msgs q)) (q_msgs q) = Some (queued m, ms)"
  shows "msgtool_main True qbuf (snd (recv_run qbuf a)) (Some q) = Some (Done (0, Some m, Some (q\<lparr>q_msgs := ms\<rparr>)))"
proof -
  have "cstr (snd m @ 0 # drop (Suc (length (snd m))) (mtext qbuf)) = snd m"
    using assms(3) by (rule cstr_append_zero)
  then have "read_message qbuf t q = Some (Done (m, q\<lparr>q_msgs := ms\<rparr>))"
    using assms by (simp add: read_message_def msgrcv_def mem_put_def terminated_def)
  then show ?thesis using assms(1)
    by (simp add: msgtool_main_def recv_run_def arg_def command_letters)
qed

text \<open>
  The order in which n calls of msgrcv for the type t take messages out of the queue: by its first
  component the messages, by its second the queue left.
\<close>

fun takes :: "nat \<Rightarrow> int \<Rightarrow> msg list \<Rightarrow> (msg list \<times> msg list) option" where
  "takes 0 t ms = Some ([], ms)"
| "takes (Suc n) t ms = do {
     (m, rest) \<leftarrow> take_first (wanted t ms) ms;
     (xs, rest) \<leftarrow> takes n t rest;
     Some (m # xs, rest)
   }"

lemma take_first_map: "take_first P (map f xs) = map_option (\<lambda>(y, ys). (f y, map f ys)) (take_first (\<lambda>x. P (f x)) xs)"
proof (induction xs)
  case (Cons x xs)
  then show ?case by (cases "take_first (\<lambda>x. P (f x)) xs") auto
qed simp

lemma take_first_SomeD:
  "take_first P xs = Some (y, ys) \<Longrightarrow> P y \<and> mset xs = add_mset y (mset ys) \<and> length xs = Suc (length ys)"
  by (induction xs arbitrary: ys) (auto split: if_splits)

lemma take_first_filter:
  "filter P xs = y # zs \<Longrightarrow> \<exists>ys. take_first P xs = Some (y, ys) \<and> filter P ys = zs \<and>
     (\<forall>Q. (\<forall>x. P x \<longrightarrow> \<not> Q x) \<longrightarrow> filter Q ys = filter Q xs)"
  by (induction xs) (auto split: if_splits)

lemma wanted_queued: "wanted t (map queued ms) (queued m) = wanted t ms m"
  by (simp add: wanted_def image_image)

lemma reads_ok:
  assumes "takes (length bufs) t ms = Some (xs, rest)" "atol a = Some t"
    and "\<forall>b \<in> set bufs. length (mtext b) = 80"
    and "\<forall>m \<in> set ms. 0 \<notin> set (snd m) \<and> length (snd m) < 80" "q_msgs q = map queued ms"
  shows "msgtool_runs (map (\<lambda>b. recv_run b a) bufs) (Some q) =
    Some (Done (map (\<lambda>m. (0, Some m)) xs, Some (q\<lparr>q_msgs := map queued rest\<rparr>)))"
  using assms(1,3-5)
proof (induction bufs arbitrary: ms xs q)
  case Nil
  then have "q\<lparr>q_msgs := map queued rest\<rparr> = q" by simp
  with Nil show ?case by simp
next
  case (Cons b bufs)
  from Cons.prems(1) obtain m ms' ys where m: "take_first (wanted t ms) ms = Some (m, ms')"
    "takes (length bufs) t ms' = Some (ys, rest)" "xs = m # ys"
    by (auto elim!: bind_SomeE)
  from take_first_SomeD [OF m(1)] have "set ms = insert m (set ms')"
    by (metis set_mset_mset set_mset_add_mset_insert)
  then have ms: "0 \<notin> set (snd m)" "length (snd m) < 80" "\<forall>m \<in> set ms'. 0 \<notin> set (snd m) \<and> length (snd m) < 80"
    using Cons.prems(3) by auto
  have "take_first (wanted t (q_msgs q)) (q_msgs q) = Some (queued m, map queued ms')"
    using m(1) by (simp add: Cons.prems(4) take_first_map wanted_queued)
  from read_run_ok [OF assms(2) _ ms(1,2) this] Cons.prems(2)
  have "msgtool_main True b (snd (recv_run b a)) (Some q) = Some (Done (0, Some m, Some (q\<lparr>q_msgs := map queued ms'\<rparr>)))"
    by simp
  from msgtool_runs_Cons [OF this] Cons.IH [OF m(2) _ ms(3), of "q\<lparr>q_msgs := map queued ms'\<rparr>"] Cons.prems(2)
  show ?case by (simp add: m(3) recv_run_def)
qed

lemma takes_fifo:
  assumes "0 \<le> t"
  shows "takes (length (filter (\<lambda>m. t = 0 \<or> fst m = t) ms)) t ms =
    Some (filter (\<lambda>m. t = 0 \<or> fst m = t) ms, filter (\<lambda>m. \<not> (t = 0 \<or> fst m = t)) ms)"
proof -
  define P where "P = (\<lambda>m :: msg. t = 0 \<or> fst m = t)"
  have w: "wanted t ms = P" for ms using assms by (auto simp: wanted_def fun_eq_iff P_def)
  have "filter P ms = xs \<Longrightarrow> takes (length xs) t ms = Some (xs, filter (\<lambda>m. \<not> P m) ms)" for xs
  proof (induction xs arbitrary: ms)
    case Nil
    then have "filter (\<lambda>m. \<not> P m) ms = ms" by (simp add: filter_empty_conv filter_id_conv)
    then show ?case by simp
  next
    case (Cons x xs)
    from take_first_filter [OF Cons.prems] obtain ys where
      ys: "take_first P ms = Some (x, ys)" "filter P ys = xs"
        "\<forall>Q. (\<forall>x. P x \<longrightarrow> \<not> Q x) \<longrightarrow> filter Q ys = filter Q ms" by (elim exE conjE)
    from ys(3) [THEN spec, of "\<lambda>m. \<not> P m"] have "filter (\<lambda>m. \<not> P m) ys = filter (\<lambda>m. \<not> P m) ms" by simp
    with Cons.IH [OF ys(2)] ys(1) show ?case by (simp add: w)
  qed
  from this [OF refl] show ?thesis by (simp only: P_def)
qed

lemma takes_priority:
  assumes "\<forall>m \<in> set ms. fst m \<le> - t" "t < 0"
  shows "takes (length ms) t ms = Some (sort_key fst ms, [])"
  using assms(1)
proof (induction "length ms" arbitrary: ms)
  case (Suc n)
  define k where "k = Min (fst ` set ms)"
  have ne: "ms \<noteq> []" using Suc.hyps(2) by auto
  have k: "k \<in> fst ` set ms" unfolding k_def by (rule Min_in) (use ne in simp_all)
  have le: "k \<le> fst m" if "m \<in> set ms" for m unfolding k_def by (rule Min_le) (use that in simp_all)
  from k Suc.prems have "k \<le> - t" by auto
  then have w: "wanted t ms = (\<lambda>m. fst m = k)"
    using assms(2) by (auto simp: wanted_def fun_eq_iff k_def [symmetric])
  from k have "filter (\<lambda>m. fst m = k) ms \<noteq> []" by (auto simp: filter_empty_conv)
  then obtain m zs where f: "filter (\<lambda>m. fst m = k) ms = m # zs"
    by (cases "filter (\<lambda>m. fst m = k) ms") auto
  from take_first_filter [OF f] obtain rest where
    r: "take_first (\<lambda>m. fst m = k) ms = Some (m, rest)" "filter (\<lambda>m. fst m = k) rest = zs"
      "\<And>Q. \<forall>x :: msg. fst x = k \<longrightarrow> \<not> Q x \<Longrightarrow> filter Q rest = filter Q ms" by blast
  note d = take_first_SomeD [OF r(1)]
  then have mk: "fst m = k" and s: "set ms = insert m (set rest)"
    by (blast, metis set_mset_mset set_mset_add_mset_insert)
  have "sort_key fst ms = m # sort_key fst rest"
  proof (rule properties_for_sort_key)
    show "mset (m # sort_key fst rest) = mset ms" using d by simp
    show "sorted (map fst (m # sort_key fst rest))" using le s mk by simp
    fix i show "filter (\<lambda>y. fst i = fst y) (m # sort_key fst rest) = filter (\<lambda>y. fst i = fst y) ms"
    proof (cases "fst i = k")
      case True
      have e: "(\<lambda>y :: msg. fst i = fst y) = (\<lambda>y. fst y = k)" using True by auto
      show ?thesis unfolding e using f r(2) mk by (simp add: sort_key_stable)
    next
      case False
      then have "filter (\<lambda>y. fst i = fst y) rest = filter (\<lambda>y. fst i = fst y) ms" by (intro r(3)) auto
      moreover have "filter (\<lambda>y. fst i = fst y) (sort_key fst rest) = filter (\<lambda>y. fst i = fst y) rest"
        using sort_key_stable [of fst "fst i" rest] by (simp only: eq_commute)
      ultimately show ?thesis using mk False by simp
    qed
  qed
  moreover have "takes (length rest) t rest = Some (sort_key fst rest, [])"
    by (rule Suc.hyps(1)) (use Suc.hyps(2) Suc.prems d s in auto)
  moreover have "length ms = Suc (length rest)" using d by blast
  ultimately show ?case using r(1) w by (simp del: sort_key_simps)
qed simp

text \<open>Runs that send, followed by runs that receive; old is in the queue before.\<close>

lemma sends_reads_ok:
  assumes "list_all2 sendable axs ms" "\<forall>b \<in> set (bufs @ bufs'). length (mtext b) = 80"
    and "length bufs = length axs" "q_msgs (queue_of q) = map queued old"
    and "\<forall>m \<in> set old. 0 \<notin> set (snd m) \<and> length (snd m) < 80"
    and "used_bytes (map queued (old @ ms)) \<le> q_bytes (queue_of q)" "atol a = Some t"
    and "takes (length bufs') t (old @ ms) = Some (xs, rest)"
  shows "\<exists>q'. msgtool_runs (map2 send_run bufs axs @ map (\<lambda>b. recv_run b a) bufs') q =
      Some (Done (map (\<lambda>_. (0, None)) ms @ map (\<lambda>m. (0, Some m)) xs, q')) \<and>
    q_msgs (queue_of q') = map queued rest"
proof -
  let ?q = "if ms = [] then q else Some ((queue_of q)\<lparr>q_msgs := q_msgs (queue_of q) @ map queued ms\<rparr>)"
  have s: "msgtool_runs (map2 send_run bufs axs @ map (\<lambda>b. recv_run b a) bufs') q =
      prepend (map (\<lambda>_. (0, None)) ms) (msgtool_runs (map (\<lambda>b. recv_run b a) bufs') ?q)"
    by (rule sends_ok [OF assms(1) _ assms(3)]) (use assms(2,4,6) in \<open>simp_all add: used_bytes_def\<close>)
  have "\<forall>m \<in> set ms. 0 \<notin> set (snd m) \<and> length (snd m) < 80"
    using assms(1) by (induction rule: list_all2_induct) (auto simp: sendable_def split: prod.splits)
  then have v: "\<forall>m \<in> set (old @ ms). 0 \<notin> set (snd m) \<and> length (snd m) < 80" using assms(5) by auto
  have c: "q_msgs (queue_of ?q) = map queued (old @ ms)" using assms(4) by simp
  show ?thesis
  proof (cases "?q = None")
    case True
    then have n: "old @ ms = []" "q = None" using assms(4) by (auto simp: new_queue_def split: if_splits)
    then have "bufs' = []" using assms(8) by (cases bufs') auto
    then show ?thesis using s n assms(8) by (simp add: new_queue_def)
  next
    case False
    then obtain q1 where q1: "?q = Some q1" by blast
    with c have "q_msgs q1 = map queued (old @ ms)" by simp
    from reads_ok [OF assms(8,7) _ v this] assms(2)
    have "msgtool_runs (map (\<lambda>b. recv_run b a) bufs') (Some q1) =
      Some (Done (map (\<lambda>m. (0, Some m)) xs, Some (q1\<lparr>q_msgs := map queued rest\<rparr>)))" by simp
    then show ?thesis using s q1 by simp
  qed
qed

section \<open>Properties\<close>

text \<open>C18. Messages sent by runs of the tool are received by later runs in the order of sending: reading for
  a type prints exactly the messages of that type (every message for type 0), after those that were
  already waiting, with their texts, and leaves exactly the others. The texts have less than 80
  characters, and the messages fit into the queue.\<close>

theorem msgtool_fifo:
  assumes "list_all2 sendable axs ms" "\<forall>b \<in> set (bufs @ bufs'). length (mtext b) = 80"
    and "length bufs = length axs" "q_msgs (queue_of q) = map queued old"
    and "\<forall>m \<in> set old. 0 \<notin> set (snd m) \<and> length (snd m) < 80"
    and "used_bytes (map queued (old @ ms)) \<le> q_bytes (queue_of q)" "atol a = Some t" "0 \<le> t"
    and "length bufs' = length (filter (\<lambda>m. t = 0 \<or> fst m = t) (old @ ms))"
  shows "\<exists>q'. msgtool_runs (map2 send_run bufs axs @ map (\<lambda>b. recv_run b a) bufs') q =
      Some (Done (map (\<lambda>_. (0, None)) ms @
        map (\<lambda>m. (0, Some m)) (filter (\<lambda>m. t = 0 \<or> fst m = t) (old @ ms)), q')) \<and>
    q_msgs (queue_of q') = map queued (filter (\<lambda>m. \<not> (t = 0 \<or> fst m = t)) (old @ ms))"
  using takes_fifo [OF assms(8), of "old @ ms"]
  by (intro sends_reads_ok [OF assms(1-7)]) (simp only: assms(9))

theorem msgtool_fifo_witness:
  "\<exists>q'. msgtool_runs (map2 send_run (replicate 3 \<lparr>mtype = 0, mtext = bzero 80\<rparr>)
       [(cs ''1'', cs ''a''), (cs ''2'', cs ''b''), (cs ''1'', cs ''c'')] @
      map (\<lambda>b. recv_run b (cs ''1'')) (replicate 2 \<lparr>mtype = 0, mtext = bzero 80\<rparr>)) None =
    Some (Done ([(0, None), (0, None), (0, None), (0, Some (1, cs ''a'')), (0, Some (1, cs ''c''))], q')) \<and>
    q_msgs (queue_of q') = [(2, cs ''b'' @ [0])]"
proof -
  let ?ms = "[(1, cs ''a''), (2, cs ''b''), (1, cs ''c'')] :: msg list"
  let ?b = "\<lparr>mtype = 0, mtext = bzero 80\<rparr>"
  have a: "atol (cs ''1'') = Some 1" "atol (cs ''2'') = Some 2" by (simp_all add: atol_def cs_def of_char_def)
  have l: "list_all2 sendable [(cs ''1'', cs ''a''), (cs ''2'', cs ''b''), (cs ''1'', cs ''c'')] ?ms"
    by (simp add: sendable_def a) (simp add: cs_def of_char_def)
  have u: "used_bytes (map queued ([] @ ?ms)) \<le> q_bytes (queue_of None)"
    by (simp add: used_bytes_def new_queue_def cs_def)
  have "\<forall>b \<in> set (replicate 3 ?b @ replicate 2 ?b). length (mtext b) = 80" by simp
  from msgtool_fifo [OF l this _ _ _ u a(1)] show ?thesis
    by (simp add: new_queue_def)
qed

text \<open>C31. Reading for a negative type whose absolute value no type exceeds gives the messages by ascending
  type, those of the same type in the order of sending: the messages are printed in the order
  of a stable sort.\<close>

theorem msgtool_priority:
  assumes "list_all2 sendable axs ms" "\<forall>b \<in> set (bufs @ bufs'). length (mtext b) = 80"
    and "length bufs = length axs" "length bufs' = length ms"
    and "used_bytes (map queued ms) \<le> 16384" "atol a = Some t" "t < 0" "\<forall>m \<in> set ms. fst m \<le> - t"
  shows "\<exists>q'. msgtool_runs (map2 send_run bufs axs @ map (\<lambda>b. recv_run b a) bufs') None =
      Some (Done (map (\<lambda>_. (0, None)) ms @ map (\<lambda>m. (0, Some m)) (sort_key fst ms), q')) \<and>
    q_msgs (queue_of q') = []"
  using sends_reads_ok [OF assms(1-3), of None "[]" a t "sort_key fst ms" "[]"] takes_priority [OF assms(8,7)]
    assms(4-6)
  by (simp add: new_queue_def)

theorem msgtool_priority_witness:
  "\<exists>q'. msgtool_runs (map2 send_run (replicate 3 \<lparr>mtype = 0, mtext = bzero 80\<rparr>)
       [(cs ''2'', cs ''b''), (cs ''1'', cs ''a''), (cs ''2'', cs ''c'')] @
      map (\<lambda>b. recv_run b (cs ''-9'')) (replicate 3 \<lparr>mtype = 0, mtext = bzero 80\<rparr>)) None =
    Some (Done ([(0, None), (0, None), (0, None), (0, Some (1, cs ''a'')), (0, Some (2, cs ''b'')),
      (0, Some (2, cs ''c''))], q')) \<and> q_msgs (queue_of q') = []"
proof -
  let ?ms = "[(2, cs ''b''), (1, cs ''a''), (2, cs ''c'')] :: msg list"
  let ?b = "\<lparr>mtype = 0, mtext = bzero 80\<rparr>"
  have a: "atol (cs ''1'') = Some 1" "atol (cs ''2'') = Some 2" "atol (cs ''-9'') = Some (- 9)"
    by (simp_all add: atol_def cs_def of_char_def)
  have l: "list_all2 sendable [(cs ''2'', cs ''b''), (cs ''1'', cs ''a''), (cs ''2'', cs ''c'')] ?ms"
    by (simp add: sendable_def a) (simp add: cs_def of_char_def)
  have u: "used_bytes (map queued ?ms) \<le> 16384"
    by (simp add: used_bytes_def cs_def)
  have "\<forall>b \<in> set (replicate 3 ?b @ replicate 3 ?b). length (mtext b) = 80" by simp
  from msgtool_priority [OF l this _ _ u a(3)] show ?thesis by simp
qed

text \<open>
  A text of 80 characters or more is written behind mtext. A message that is too long for the tool, or has
  an invalid type, is a failed call: sending ends the program with 1, but receiving goes on and prints
  the type asked for with what the array held before.
\<close>

lemma send_message_overflow:
  "length (mtext qbuf) = 80 \<Longrightarrow> 0 \<notin> set x \<Longrightarrow> send_message qbuf t x q = None \<longleftrightarrow> 80 \<le> length x"
  by (auto simp: send_message_def strcpy_eq strlen_def terminated_def Let_def split: outcome.splits)

lemma send_message_bad_type:
  assumes "length (mtext qbuf) = 80" "length x < 80" "t < 1"
  shows "send_message qbuf t x q = Some (Done (Some 1, q))"
  using assms by (simp add: send_message_def strcpy_eq strlen_def terminated_def msgsnd_def)

lemma read_message_too_long:
  assumes "take_first (wanted t (q_msgs q)) (q_msgs q) = Some (m, ms)" "80 < length (snd m)"
    and "terminated (mtext qbuf)"
  shows "read_message qbuf t q = Some (Done ((t, cstr (mtext qbuf)), q))"
  using assms by (simp add: read_message_def msgrcv_def)

end
