(* ===== verification/Inotify_Demo.thy ===== *)
theory Inotify_Demo
  imports Filelist_Inotify
begin

text \<open>
  The programs inotify/inotify_creat.c (also filelist/inotify_creat.c), which prints the files created and
  deleted in a directory, and inotify/inotify.c, which describes all events of two files. Both run over
  the reads from the descriptor of inotify; their results are the lines they print. Arrays that are not
  initialised are parameters.
\<close>

section \<open>inotify_creat.c\<close>

datatype creat_line = Usage | Init_error | No_event | Created bytes | Deleted bytes

definition creat_action :: "u32 \<Rightarrow> bytes \<Rightarrow> creat_line list \<Rightarrow> creat_line list" where
  "creat_action msk name out = out @ [if msk AND IN_CREATE \<noteq> 0 then Created name else Deleted name]"

definition creat_watch :: "bytes \<Rightarrow> read_result \<Rightarrow> creat_line list \<Rightarrow> (int \<times> creat_line list) option" where
  "creat_watch event_buf r out =
     (case r of
        Read_error \<Rightarrow> Some (- 1, out @ [No_event])
      | Read bs \<Rightarrow> do {
          event_buf \<leftarrow> mem_put event_buf 0 bs;
          if length bs < 16 then Some (- 1, out @ [No_event])
          else do {
            out \<leftarrow> event_loop creat_action event_buf (int (length bs)) 0 out;
            Some (0, out)
          }
        })"

text \<open>
  main, for a finite sequence of reads, each with what its call of watch_inotify_events finds in
  event_buf. The result of inotify_add_watch is not looked at. The first component is the exit code, or None
  when the program waits for the next read.
\<close>

fun creat_turns :: "(bytes \<times> read_result) list \<Rightarrow> creat_line list \<Rightarrow> creat_line list option" where
  "creat_turns [] out = Some out"
| "creat_turns ((event_buf, r) # rs) out = do {
     (_, out) \<leftarrow> creat_watch event_buf r out;
     creat_turns rs out
   }"

definition creat_main :: "bytes list \<Rightarrow> int \<Rightarrow> (bytes \<times> read_result) list \<Rightarrow>
    (int option \<times> creat_line list) option" where
  "creat_main argv InotifyFd rs =
     (if length argv \<noteq> 2 then Some (Some (- 1), [Usage])
      else if InotifyFd = - 1 then Some (Some (- 1), [Init_error])
      else map_option (\<lambda>out. (None, out)) (creat_turns rs []))"

section \<open>inotify.c\<close>

definition IN_ISDIR :: u32 where "IN_ISDIR = 0x40000000"

definition monitored_files :: "bytes list" where
  "monitored_files = [cs ''./tmp_file'', cs ''./tmp_dir/test'']"

definition event_array :: "bytes list" where
  "event_array = [cs ''File was accessed'', cs ''File was modified'', cs ''File attributes were changed'',
     cs ''writtable file closed'', cs ''Unwrittable file closed'', cs ''File was opened'',
     cs ''File was moved from X'', cs ''File was moved to Y'', cs ''Subfile was created'',
     cs ''Subfile was deleted'', cs ''Self was deleted'', cs ''Self was moved'', [],
     cs ''Backing fs was unmounted'', cs ''Event queued overflowed'', cs ''File was ignored'']"

datatype demo_line = Init_failed | No_watch bytes | Happens int | Object_type bytes | Object_name bytes |
  Event_mask u32 | Event_line bytes

fun name_lines :: "(u32 \<times> bytes) list \<Rightarrow> u32 \<Rightarrow> demo_line list" where
  "name_lines [] wd = []"
| "name_lines ((wd', name) # wds) wd = (if wd \<noteq> wd' then name_lines wds wd else [Object_name name])"

fun event_lines :: "bytes list \<Rightarrow> nat \<Rightarrow> u32 \<Rightarrow> demo_line list" where
  "event_lines [] i msk = []"
| "event_lines (t # ts) i msk =
     (if t = [] then [] else if msk AND push_bit i 1 \<noteq> 0 then [Event_line t] else []) @ event_lines ts (Suc i) msk"

definition report_event :: "(u32 \<times> bytes) list \<Rightarrow> u32 \<Rightarrow> u32 \<Rightarrow> demo_line list" where
  "report_event wds wd msk =
     [Object_type (if msk AND IN_ISDIR \<noteq> 0 then cs ''Direcotory'' else cs ''File'')] @
     name_lines wds wd @ [Event_mask msk] @ event_lines event_array 0 msk"

text \<open>The loop over the events in the buffer; tmp_len is an int.\<close>

partial_function (option) report_loop :: "(u32 \<times> bytes) list \<Rightarrow> bytes \<Rightarrow> int \<Rightarrow> int \<Rightarrow> demo_line list \<Rightarrow>
    demo_line list option" where
  "report_loop wds buf len pos out =
     (if \<not> pos < len then Some out
      else if pos < 0 then None
      else Option.bind (Option.bind (mem_get buf (nat pos) 4) of_le32) (\<lambda>wd.
           Option.bind (Option.bind (mem_get buf (nat pos + 4) 4) of_le32) (\<lambda>msk.
           Option.bind (Option.bind (mem_get buf (nat pos + 12) 4) of_le32) (\<lambda>n.
           report_loop wds buf len (pos + sint (16 + n)) (out @ report_event wds wd msk)))))"

text \<open>
  The loop around read: the array keeps its contents. An error of read gives len = -1, which is not 0, so
  that the loop goes on. The exit code is None when the program waits.
\<close>

fun read_loop :: "(u32 \<times> bytes) list \<Rightarrow> read_result list \<Rightarrow> bytes \<Rightarrow> demo_line list \<Rightarrow>
    (int option \<times> demo_line list) option" where
  "read_loop wds [] evbuf out = Some (None, out)"
| "read_loop wds (Read_error # rs) evbuf out = read_loop wds rs evbuf (out @ [Happens (- 1)])"
| "read_loop wds (Read bs # rs) evbuf out =
     (if bs = [] then Some (Some 0, out)
      else do {
        evbuf \<leftarrow> mem_put evbuf 0 bs;
        out \<leftarrow> report_loop wds evbuf (int (length bs)) 0 (out @ [Happens (int (length bs))]);
        read_loop wds rs evbuf out
      })"

text \<open>The watches are added for the files in turn; add is the result of inotify_add_watch.\<close>

fun add_watches :: "(bytes \<Rightarrow> int) \<Rightarrow> bytes list \<Rightarrow> (u32 \<times> bytes) list \<Rightarrow> bytes + (u32 \<times> bytes) list" where
  "add_watches add [] wds = Inr wds"
| "add_watches add (f # fs) wds = (if add f < 0 then Inl f else add_watches add fs (wds @ [(of_int (add f), f)]))"

definition inotify_main :: "int \<Rightarrow> (bytes \<Rightarrow> int) \<Rightarrow> read_result list \<Rightarrow> bytes \<Rightarrow>
    (int option \<times> demo_line list) option" where
  "inotify_main fd add rs evbuf =
     (if fd < 0 then Some (Some (- 1), [Init_failed])
      else case add_watches add monitored_files [] of
        Inl f \<Rightarrow> Some (Some (- 1), [No_watch f])
      | Inr wds \<Rightarrow> read_loop wds rs evbuf [])"

section \<open>The loops carry out the events\<close>

lemma creat_watch_events:
  assumes "es \<noteq> []" "\<forall>e \<in> set es. wf_event e" "length (concat (map event_bytes es)) \<le> 512" "length buf = 512"
  shows "creat_watch buf (Read (concat (map event_bytes es))) out =
    Some (0, out @ map (\<lambda>e. if ev_mask e AND IN_CREATE \<noteq> 0 then Created (ev_name e) else Deleted (ev_name e))
      (filter (\<lambda>e. ev_name e \<noteq> []) es))"
proof -
  let ?bs = "concat (map event_bytes es)"
  have "16 \<le> length ?bs" using assms(1) by (cases es) (simp_all add: length_event_bytes)
  moreover have "mem_put buf 0 ?bs = Some (?bs @ drop (length ?bs) buf)"
    using assms(3,4) by (simp add: mem_put_def)
  moreover have "fold (act_event creat_action) es out = out @
      map (\<lambda>e. if ev_mask e AND IN_CREATE \<noteq> 0 then Created (ev_name e) else Deleted (ev_name e))
        (filter (\<lambda>e. ev_name e \<noteq> []) es)"
    by (induction es arbitrary: out) (simp_all add: act_event_def creat_action_def)
  ultimately show ?thesis
    using event_loop_events [OF assms(2), of "[]" "drop (length ?bs) buf" creat_action out] assms(3,4)
    by (simp add: creat_watch_def)
qed

lemma report_loop_events:
  "\<forall>e \<in> set es. wf_event e \<Longrightarrow> length (A @ concat (map event_bytes es) @ B) < 2 ^ 31 \<Longrightarrow>
     report_loop wds (A @ concat (map event_bytes es) @ B) (int (length (A @ concat (map event_bytes es))))
       (int (length A)) out =
     Some (out @ concat (map (\<lambda>e. report_event wds (ev_wd e) (ev_mask e)) es))"
proof (induction es arbitrary: A out)
  case Nil
  then show ?case by (subst report_loop.simps) simp
next
  case (Cons e es)
  let ?rest = "concat (map event_bytes es)"
  have w: "wf_event e" "length (A @ event_bytes e @ ?rest @ B) < 2 ^ 31" using Cons.prems by simp_all
  note f = event_fields [OF w]
  have "report_loop wds (A @ event_bytes e @ ?rest @ B) (int (length (A @ event_bytes e @ ?rest))) (int (length A)) out =
      report_loop wds (A @ event_bytes e @ ?rest @ B) (int (length (A @ event_bytes e @ ?rest)))
        (int (length A) + int (length (event_bytes e))) (out @ report_event wds (ev_wd e) (ev_mask e))"
  proof -
    have "int (length A) < int (length (A @ event_bytes e @ ?rest))" "\<not> int (length A) < 0"
      "nat (int (length A)) = length A" by (simp_all add: length_event_bytes)
    then show ?thesis
      unfolding report_loop.simps [of wds _ _ "int (length A)" out]
      by (simp only: not_True_eq_False if_False f(1-3,5) bind.bind_lunit of_le32_le32)
  qed
  moreover have "\<dots> = Some ((out @ report_event wds (ev_wd e) (ev_mask e)) @
      concat (map (\<lambda>e. report_event wds (ev_wd e) (ev_mask e)) es))"
    using Cons.IH [of "A @ event_bytes e" "out @ report_event wds (ev_wd e) (ev_mask e)"] Cons.prems
    by (simp add: length_event_bytes)
  ultimately show ?case by simp
qed

lemma read_loop_events:
  assumes "\<forall>es \<in> set ess. es \<noteq> [] \<and> (\<forall>e \<in> set es. wf_event e) \<and> length (concat (map event_bytes es)) \<le> 1024"
  shows "length evbuf = 1024 \<Longrightarrow>
    read_loop wds (map (\<lambda>es. Read (concat (map event_bytes es))) ess) evbuf out =
    Some (None, out @ concat (map (\<lambda>es. Happens (int (length (concat (map event_bytes es)))) #
      concat (map (\<lambda>e. report_event wds (ev_wd e) (ev_mask e)) es)) ess))"
  using assms
proof (induction ess arbitrary: evbuf out)
  case (Cons es ess)
  let ?bs = "concat (map event_bytes es)"
  have "es \<noteq> []" and es: "\<forall>e \<in> set es. wf_event e" "length ?bs \<le> 1024"
    using Cons.prems(2) by simp_all
  from this(1) have ne: "?bs \<noteq> []" by (cases es) (simp_all add: event_bytes_def le32_def)
  have p: "mem_put evbuf 0 ?bs = Some (?bs @ drop (length ?bs) evbuf)" "length (?bs @ drop (length ?bs) evbuf) = 1024"
    using es(2) Cons.prems(1) by (simp_all add: mem_put_def)
  have "report_loop wds (?bs @ drop (length ?bs) evbuf) (int (length ?bs)) 0 (out @ [Happens (int (length ?bs))]) =
      Some ((out @ [Happens (int (length ?bs))]) @ concat (map (\<lambda>e. report_event wds (ev_wd e) (ev_mask e)) es))"
    using report_loop_events [OF es(1), of "[]" "drop (length ?bs) evbuf"] p(2) by simp
  then show ?case using p ne Cons.IH [OF p(2)] Cons.prems(2) by simp
qed simp

lemma event_lines_bits:
  "event_lines ts i msk = map (\<lambda>j. Event_line (ts ! j)) (filter (\<lambda>j. ts ! j \<noteq> [] \<and> bit msk (i + j)) [0..<length ts])"
proof (induction ts i msk rule: event_lines.induct)
  case (2 t ts i msk)
  have b: "msk AND 2 ^ i \<noteq> 0 \<longleftrightarrow> bit msk i"
    by (simp add: bit_iff_and_push_bit_not_eq_0)
  have "[0..<length (t # ts)] = 0 # map Suc [0..<length ts]" by (simp add: upt_conv_Cons map_Suc_upt del: upt_Suc)
  then show ?case using 2 by (simp add: filter_map comp_def flip: b)
qed simp

section \<open>Properties\<close>

lemma creat_turns_events:
  assumes "\<forall>(buf, es) \<in> set turns. es \<noteq> [] \<and> (\<forall>e \<in> set es. wf_event e) \<and>
      length (concat (map event_bytes es)) \<le> 512 \<and> length buf = 512"
  shows "creat_turns (map (\<lambda>(buf, es). (buf, Read (concat (map event_bytes es)))) turns) out =
    Some (out @ map (\<lambda>e. if ev_mask e AND IN_CREATE \<noteq> 0 then Created (ev_name e) else Deleted (ev_name e))
      (filter (\<lambda>e. ev_name e \<noteq> []) (concat (map snd turns))))"
  using assms
proof (induction turns arbitrary: out)
  case (Cons t turns)
  obtain buf es where t: "t = (buf, es)" by force
  have "creat_watch buf (Read (concat (map event_bytes es))) out =
    Some (0, out @ map (\<lambda>e. if ev_mask e AND IN_CREATE \<noteq> 0 then Created (ev_name e) else Deleted (ev_name e))
      (filter (\<lambda>e. ev_name e \<noteq> []) es))"
    using Cons.prems by (intro creat_watch_events) (auto simp: t)
  then show ?case using Cons.IH Cons.prems by (simp add: t)
qed simp

text \<open>The watched file an event is about, and the description of an event.\<close>

definition watched :: "(bytes \<Rightarrow> int) \<Rightarrow> u32 \<Rightarrow> bytes" where
  "watched add wd = (if wd = of_int (add (monitored_files ! 0)) then monitored_files ! 0 else monitored_files ! 1)"

definition description :: "(bytes \<Rightarrow> int) \<Rightarrow> event \<Rightarrow> demo_line list" where
  "description add e =
     [Object_type (if ev_mask e AND IN_ISDIR \<noteq> 0 then cs ''Direcotory'' else cs ''File''),
      Object_name (watched add (ev_wd e)), Event_mask (ev_mask e)] @
     map (\<lambda>j. Event_line (event_array ! j)) (filter (\<lambda>j. event_array ! j \<noteq> [] \<and> bit (ev_mask e) j) [0..<16])"

lemma report_event_description:
  assumes "ev_wd e = of_int (add f)" "f \<in> set monitored_files"
  shows "report_event (map (\<lambda>f. (of_int (add f), f)) monitored_files) (ev_wd e) (ev_mask e) = description add e"
proof -
  have "name_lines (map (\<lambda>f. (of_int (add f), f)) monitored_files) (ev_wd e) = [Object_name (watched add (ev_wd e))]"
    using assms by (auto simp: monitored_files_def watched_def)
  moreover have l: "length event_array = 16" by (simp add: event_array_def)
  moreover have "event_lines event_array 0 (ev_mask e) =
      map (\<lambda>j. Event_line (event_array ! j)) (filter (\<lambda>j. event_array ! j \<noteq> [] \<and> bit (ev_mask e) j) [0..<16])"
    unfolding event_lines_bits l by simp
  ultimately show ?thesis by (simp add: report_event_def description_def)
qed

text \<open>C34. When both watches could be added, inotify.c describes every event the kernel reports for them, in order:
  its object, its mask and the meaning of each bit of the mask that is set; an event never ends the
  program.\<close>

theorem inotify_describes:
  assumes "0 \<le> fd" "\<forall>f \<in> set monitored_files. 0 \<le> add f" "length buf = 1024"
    and "\<forall>es \<in> set ess. es \<noteq> [] \<and> length (concat (map event_bytes es)) \<le> 1024 \<and>
      (\<forall>e \<in> set es. wf_event e \<and> (\<exists>f \<in> set monitored_files. ev_wd e = of_int (add f)))"
  shows "inotify_main fd add (map (\<lambda>es. Read (concat (map event_bytes es))) ess) buf =
    Some (None, concat (map (\<lambda>es. Happens (int (length (concat (map event_bytes es)))) #
      concat (map (description add) es)) ess))"
proof -
  have w: "add_watches add monitored_files [] = Inr (map (\<lambda>f. (of_int (add f), f)) monitored_files)"
    using assms(2) by (auto simp: monitored_files_def)
  have d: "map (\<lambda>e. report_event (map (\<lambda>f. (of_int (add f), f)) monitored_files) (ev_wd e) (ev_mask e)) es =
      map (description add) es" if "es \<in> set ess" for es
    using assms(4) that report_event_description by fastforce
  have "\<forall>es \<in> set ess. es \<noteq> [] \<and> (\<forall>e \<in> set es. wf_event e) \<and> length (concat (map event_bytes es)) \<le> 1024"
    using assms(4) by blast
  from read_loop_events [OF this assms(3), of "map (\<lambda>f. (of_int (add f), f)) monitored_files" "[]"]
  show ?thesis using assms(1) w d by (simp add: inotify_main_def cong: map_cong)
qed

theorem inotify_describes_witness:
  "inotify_main 3 (\<lambda>f. if f = cs ''./tmp_file'' then 1 else 2)
     [Read (event_bytes \<lparr>ev_wd = 2, ev_mask = 0x22, ev_cookie = 0, ev_name = [], ev_pad = 0\<rparr>)] (bzero 1024) =
   Some (None, [Happens 16, Object_type (cs ''File''), Object_name (cs ''./tmp_dir/test''), Event_mask 0x22,
     Event_line (cs ''File was modified''), Event_line (cs ''File was opened'')])"
proof -
  let ?e = "\<lparr>ev_wd = 2, ev_mask = 0x22, ev_cookie = 0, ev_name = [], ev_pad = 0\<rparr>"
  let ?add = "\<lambda>f. if f = cs ''./tmp_file'' then 1 else 2 :: int"
  have ne: "cs ''./tmp_dir/test'' \<noteq> cs ''./tmp_file''" by (simp add: cs_def)
  have es: "\<forall>es \<in> set [[?e]]. es \<noteq> [] \<and> length (concat (map event_bytes es)) \<le> 1024 \<and>
      (\<forall>e \<in> set es. wf_event e \<and> (\<exists>f \<in> set monitored_files. ev_wd e = of_int (?add f)))"
    using ne by (simp add: length_event_bytes wf_event_def monitored_files_def)
  have u: "[0..<16] = [0, 1, 2, 3, 4, 5, 6, 7, 8, 9, 10, 11, 12, 13, 14, 15 :: nat]" by (simp add: upt_rec)
  have "description ?add ?e = [Object_type (cs ''File''), Object_name (cs ''./tmp_dir/test''), Event_mask 0x22,
     Event_line (cs ''File was modified''), Event_line (cs ''File was opened'')]"
    unfolding description_def u using ne by (simp add: watched_def monitored_files_def IN_ISDIR_def event_array_def cs_def)
  moreover have "(0 :: int) \<le> 3" "\<forall>f \<in> set monitored_files. 0 \<le> ?add f" "length (bzero 1024) = 1024" by simp_all
  note inotify_describes [OF this es]
  ultimately show ?thesis by (simp add: length_event_bytes)
qed

end
