(* ===== verification/UdpIntegrity.thy ===== *)
theory UdpIntegrity
  imports UdpProps
begin

text \<open>
  The udp server on a network that loses, repeats and reorders datagrams: after an announcement it
  appends whatever blocks arrive, in the order in which they arrive, and the digest decides at the
  end whether the file is moved into place. And the thread around the receive loop.
\<close>

section \<open>What an event brings\<close>

definition is_kind :: "Command \<Rightarrow> Type \<Rightarrow> Message_t \<Rightarrow> bool" where
  "is_kind c t m \<longleftrightarrow> m_cmd m = of_nat (cmd_code c) \<and> m_type m = of_nat (type_code t)"

definition recv_buffer :: "bytes \<Rightarrow> bytes" where
  "recv_buffer d = take MAXLINE d @ bzero (MAXLINE - length d)"

fun message_in :: "select_result \<Rightarrow> Message_t option" where
  "message_in (Select_ready (Some d)) = (if d = [] then None else message_of (recv_buffer d))"
| "message_in _ = None"

text \<open>The bytes of the file in an event, and the events there can be between announcement and end.\<close>

definition block_bytes :: "select_result \<Rightarrow> bytes" where
  "block_bytes e = (case message_in e of
     Some m \<Rightarrow> if is_kind CMD_SEND_FILE REQ_NORE m then take (unat (m_buf_len m)) (m_buf m) else []
   | None \<Rightarrow> [])"

definition transfer_event :: "select_result \<Rightarrow> bool" where
  "transfer_event e \<longleftrightarrow> e \<noteq> Select_error \<and> (case message_in e of
     Some m \<Rightarrow> \<not> is_kind CMD_SEND_FILEMSG_REQ REQ_NOR m \<and> \<not> is_kind CMD_SEND_FINISH REQ_NOR m \<and>
       (is_kind CMD_SEND_FILE REQ_NORE m \<longrightarrow> unat (m_buf_len m) \<le> BUF_MAX_LEN)
   | None \<Rightarrow> True)"

lemma message_in_length: "message_in e = Some m \<Longrightarrow> length (m_buf m) = BUF_MAX_LEN"
proof (cases "\<exists>d. e = Select_ready (Some d)")
  case True
  moreover assume "message_in e = Some m"
  ultimately obtain d where "message_of (recv_buffer d) = Some m" by (auto split: if_splits)
  from bytes_of_message_of [OF this] have "length (bytes_of_message m) = length (recv_buffer d)" by simp
  then show ?thesis by (simp add: recv_buffer_def)
qed (cases e; auto split: option.splits)

lemma turn_received:
  assumes "e \<noteq> Select_error"
  shows "socketrev_turn ossl sh e s = (case message_in e of
     None \<Rightarrow> Some (True, s)
   | Some m \<Rightarrow> map_option (Pair True) (dispatch (cmd_repose ossl sh) m s))"
proof (cases "\<exists>d. e = Select_ready (Some d) \<and> d \<noteq> []")
  case True
  then obtain d where d: "e = Select_ready (Some d)" "d \<noteq> []" by blast
  have p: "mem_put (bzero MAXLINE) 0 (take MAXLINE d) = Some (recv_buffer d)"
    by (simp add: mem_put_def recv_buffer_def bzero_def)
  obtain m where m: "message_of (recv_buffer d) = Some m"
    using message_of_Some [of "recv_buffer d"] unfolding recv_buffer_def by fastforce
  show ?thesis
    using d m p by (cases "dispatch (cmd_repose ossl sh) m s") (simp_all add: onrecv_def)
next
  case False
  then show ?thesis using assms by (cases e rule: message_in.cases) auto
qed

lemma dispatch_other:
  assumes "\<not> is_kind CMD_SEND_FILEMSG_REQ REQ_NOR m" "\<not> is_kind CMD_SEND_FILE REQ_NORE m"
    "\<not> is_kind CMD_SEND_FINISH REQ_NOR m"
  shows "dispatch (cmd_repose ossl sh) m s = Some s"
  using assms by (auto simp: cmd_repose_def is_kind_def)

lemma socketrev_append:
  assumes "socketrev ossl sh es s = Some s'" "Select_error \<notin> set es"
  shows "socketrev ossl sh (es @ fs) s = socketrev ossl sh fs s'"
  using assms
proof (induction es arbitrary: s)
  case (Cons e es)
  from Cons.prems obtain s1 where t: "socketrev_turn ossl sh e s = Some (True, s1)"
    and r: "socketrev ossl sh es s1 = Some s'"
    by (auto simp: turn_received split: option.splits elim!: bind_SomeE)
  show ?case using Cons.IH [OF r] Cons.prems(2) t by simp
qed simp

section \<open>The blocks\<close>

lemma unat_of_nat_len: "k < 2 ^ 32 \<Longrightarrow> unat (of_nat k :: u32) = k"
  by (simp add: unat_of_nat take_bit_nat_eq_self)

text \<open>
  The server does not look at the length that was announced: it can take as many bytes as there is
  room, which receiving states for the announced length. So the invariant is receiving for the
  same announcement with another length.
\<close>

definition with_length :: "u32 \<Rightarrow> server \<Rightarrow> server" where
  "with_length L s = s\<lparr>Filemsg := (Filemsg s)\<lparr>file_length := L\<rparr>\<rparr>"

lemma with_length_simps [simp]:
  "disk (with_length L s) = disk s" "sent (with_length L s) = sent s" "cleared (with_length L s) = cleared s"
  by (simp_all add: with_length_def cleared_def)

lemma cmd_revfile_with_length:
  "cmd_revfile m (with_length L s) = map_option (with_length L) (cmd_revfile m s)"
  by (cases "mem_get (m_buf m) 0 (unat (m_buf_len m))")
    (simp_all add: cmd_revfile_def with_length_def reply_def udpsend_def Let_def split: prod.split)

definition taking :: "fs \<Rightarrow> FileBlock_t \<Rightarrow> u32 \<Rightarrow> bytes \<Rightarrow> server \<Rightarrow> bool" where
  "taking d0 fb L data s \<longleftrightarrow> Filemsg s = fb \<and>
     receiving d0 (name_of fb) (fb\<lparr>file_length := L\<rparr>) data (with_length L s)"

lemma taking_block:
  assumes "taking d0 fb L data s" "unat (m_buf_len m) \<le> length (m_buf m)"
    and "length data + unat (m_buf_len m) \<le> unat L"
  shows "\<exists>s'. cmd_revfile m s = Some s' \<and> taking d0 fb L (data @ take (unat (m_buf_len m)) (m_buf m)) s' \<and>
    sent s' = sent s @ [header (m\<lparr>m_type := of_nat (type_code ACK_OK), m_buf_len := 0\<rparr>)]"
proof -
  have "receiving d0 (name_of fb) (fb\<lparr>file_length := L\<rparr>) data (with_length L s)" "Filemsg s = fb"
    using assms(1) by (simp_all add: taking_def)
  from cmd_revfile_ok [OF this(1) assms(2)] assms(3) obtain t where
    t: "cmd_revfile m (with_length L s) = Some t"
    "receiving d0 (name_of fb) (fb\<lparr>file_length := L\<rparr>) (data @ take (unat (m_buf_len m)) (m_buf m)) t"
    "sent t = sent s @ [header (m\<lparr>m_type := of_nat (type_code ACK_OK), m_buf_len := 0\<rparr>)]"
    by auto
  then obtain s' where s': "cmd_revfile m s = Some s'" "t = with_length L s'"
    by (auto simp: cmd_revfile_with_length)
  have "Filemsg s' = Filemsg s"
    using s'(1) by (auto simp: cmd_revfile_def Let_def elim!: bind_SomeE split: prod.splits if_splits)
  with t s' \<open>Filemsg s = fb\<close> show ?thesis by (auto simp: taking_def)
qed

text \<open>
  What the receive loop makes of blocks, for a state Q that cmd_revfile carries from the bytes it has to
  the bytes it has and the block, as long as they fit.
\<close>

locale block_receiver =
  fixes Q :: "bytes \<Rightarrow> server \<Rightarrow> bool" and N :: nat
  assumes block: "Q data s \<Longrightarrow> is_kind CMD_SEND_FILE REQ_NORE m \<Longrightarrow> unat (m_buf_len m) \<le> length (m_buf m) \<Longrightarrow> length data + unat (m_buf_len m) \<le> N \<Longrightarrow>
    \<exists>s'. cmd_revfile m s = Some s' \<and> Q (data @ take (unat (m_buf_len m)) (m_buf m)) s'"
begin

lemma turn:
  assumes "Q data s" "transfer_event e" "length data + length (block_bytes e) \<le> N"
  shows "\<exists>s'. socketrev_turn ossl sh e s = Some (True, s') \<and> Q (data @ block_bytes e) s'"
proof (cases "message_in e")
  case None
  then show ?thesis using assms by (simp add: turn_received transfer_event_def block_bytes_def)
next
  case (Some m)
  note l = message_in_length [OF Some]
  show ?thesis
  proof (cases "is_kind CMD_SEND_FILE REQ_NORE m")
    case True
    then have n: "unat (m_buf_len m) \<le> length (m_buf m)" "block_bytes e = take (unat (m_buf_len m)) (m_buf m)"
      using assms(2) Some l by (simp_all add: transfer_event_def block_bytes_def)
    from block [OF assms(1) True n(1)] assms(3) n obtain s' where
      "cmd_revfile m s = Some s'" "Q (data @ block_bytes e) s'" by auto
    moreover from True have "dispatch (cmd_repose ossl sh) m s = cmd_revfile m s"
      unfolding is_kind_def by (intro dispatch_block) simp_all
    ultimately show ?thesis using assms(2) Some by (auto simp: turn_received transfer_event_def)
  next
    case False
    then have "dispatch (cmd_repose ossl sh) m s = Some s"
      using assms(2) Some by (intro dispatch_other) (simp_all add: transfer_event_def)
    then show ?thesis
      using assms False Some by (simp add: turn_received transfer_event_def block_bytes_def)
  qed
qed

lemma events:
  assumes "Q data s" "\<forall>e \<in> set es. transfer_event e"
    and "length data + length (concat (map block_bytes es)) \<le> N"
  shows "\<exists>s'. socketrev ossl sh es s = Some s' \<and> Q (data @ concat (map block_bytes es)) s'"
  using assms
proof (induction es arbitrary: data s)
  case (Cons e es)
  from turn [OF Cons.prems(1)] Cons.prems(2,3) obtain s1 where
    s1: "socketrev_turn ossl sh e s = Some (True, s1)" "Q (data @ block_bytes e) s1" by fastforce
  from Cons.IH [OF s1(2)] Cons.prems(2,3) s1(1) show ?case by simp
qed simp

end

interpretation taking: block_receiver "taking d0 fb L" "unat L" for d0 fb L
proof
  show "\<exists>s'. cmd_revfile m s = Some s' \<and> taking d0 fb L (data @ take (unat (m_buf_len m)) (m_buf m)) s'"
    if "taking d0 fb L data s" "unat (m_buf_len m) \<le> length (m_buf m)" "length data + unat (m_buf_len m) \<le> unat L" for data s m
    using taking_block [OF that] by blast
qed

section \<open>Announcement and end\<close>

lemma message_in_request:
  assumes "wf_fileblock fb"
  shows "message_in (Select_ready (Some (request_datagram fb))) = Some (request_message fb)"
proof -
  note r = request_datagram_padded [OF assms]
  have "request_datagram fb \<noteq> []" using r(1) by force
  moreover have "recv_buffer (request_datagram fb) = bytes_of_message (request_message fb)"
    using r by (simp add: recv_buffer_def)
  ultimately show ?thesis by (simp add: message_of_bytes)
qed

lemma announce_taking:
  assumes wf: "wf_fileblock fb" and n: "nameable fb" and c: "cleared s"
    and ready: "disk_ready (name_of fb) (unat (file_length fb)) (disk s)" and L: "unat L \<le> room (disk s)"
  shows "\<exists>s1. socketrev_turn ossl sh (Select_ready (Some (request_datagram fb))) s = Some (True, s1) \<and>
    taking (disk s) fb L [] s1 \<and> sent s1 = sent s @ [ack CMD_SEND_FILEMSG_REQ ACK_OK]"
proof -
  let ?m = "request_message fb"
  have m: "m_cmd ?m = of_nat (cmd_code CMD_SEND_FILEMSG_REQ)" "m_type ?m = of_nat (type_code REQ_NOR)"
    "fileblock_of (m_buf ?m) = Some fb"
    by (simp_all add: request_message_def fileblock_of_bytes [OF wf])
  from cmd_reqsend_deel_ok [OF c _ ready m(3) _ name_of_def [symmetric]] n obtain s1 where
    s1: "cmd_reqsend_deel ?m s = Some s1" "receiving (disk s) (name_of fb) fb [] s1"
    "sent s1 = sent s @ [ack CMD_SEND_FILEMSG_REQ ACK_OK]"
    unfolding ack_header [OF m(1)] nameable_def by blast
  from s1(2) have "room (disk s) \<le> room (disk s1)" by (auto simp: receiving_def resources_def Let_def)
  with s1(2) L have "taking (disk s) fb L [] s1" by (auto simp: taking_def receiving_def with_length_def)
  then show ?thesis
    using s1 message_in_request [OF wf] dispatch_request [OF m(1,2), of ossl sh s]
    by (simp add: turn_received del: message_in.simps socketrev_turn.simps)
qed

lemma message_in_finish:
  obtains m where "message_in (Select_ready (Some finish_datagram)) = Some m" "is_kind CMD_SEND_FINISH REQ_NOR m"
proof
  let ?m = "\<lparr>m_cmd = of_nat (cmd_code CMD_SEND_FINISH), m_type = of_nat (type_code REQ_NOR),
      m_buf_len = 0, m_buf = bzero BUF_MAX_LEN\<rparr>"
  have "recv_buffer finish_datagram = bytes_of_message ?m"
    by (simp add: recv_buffer_def finish_datagram_def header_eq bytes_of_message_def)
  then show "message_in (Select_ready (Some finish_datagram)) = Some ?m"
    by (simp add: message_of_bytes finish_datagram_def header_eq le16_def)
qed (simp add: is_kind_def)

lemma finsh_with_length:
  "cmd_revfilefinsh ossl sh m (with_length L s) = map_option (with_length L) (cmd_revfilefinsh ossl sh m s)"
  by (simp add: cmd_revfilefinsh_def with_length_def reply_def udpsend_def Let_def map_option_case
      split: Option.bind_splits option.splits)

lemma message_of_block:
  assumes "length c \<le> BUF_MAX_LEN"
  shows "message_in (Select_ready (Some (block_datagram c))) = Some \<lparr>m_cmd = of_nat (cmd_code CMD_SEND_FILE),
    m_type = of_nat (type_code REQ_NORE), m_buf_len = of_nat (length c), m_buf = c @ bzero (BUF_MAX_LEN - length c)\<rparr>"
    (is "_ = Some ?m")
proof -
  have "recv_buffer (block_datagram c) = bytes_of_message ?m"
    using assms by (simp add: recv_buffer_def block_datagram_def bytes_of_message_def)
  moreover have "block_datagram c \<noteq> []" by (simp add: block_datagram_def bytes_of_message_def le16_def)
  ultimately show ?thesis by (simp add: message_of_bytes)
qed

lemma message_in_block:
  assumes "c \<noteq> []" "length c \<le> BUF_MAX_LEN"
  shows "transfer_event (Select_ready (Some (block_datagram c)))"
    "block_bytes (Select_ready (Some (block_datagram c))) = c"
  using assms message_of_block [OF assms(2)]
  by (simp_all add: transfer_event_def block_bytes_def is_kind_def unat_of_nat del: message_in.simps)

text \<open>A transfer that the digest refuses: everything is as before, except for the temporary file.\<close>

definition refused :: "fs \<Rightarrow> bytes \<Rightarrow> bytes \<Rightarrow> server \<Rightarrow> bool" where
  "refused d0 n data s \<longleftrightarrow> cleared s \<and> file_at (disk s) (resolve (part_path n)) = Some data \<and>
     (\<forall>p. p \<noteq> resolve (part_path n) \<longrightarrow> file_at (disk s) p = file_at d0 p)"

lemma file_at_None: "names d p = None \<Longrightarrow> file_at d p = None"
  by (simp add: file_at_def)

declare socketrev_turn.simps [simp del]

context udp_environment
begin

lemma finsh_refused:
  assumes r: "receiving d0 n fb data s" and wf: "wf_fs d0" and n: "good_name n" and m5: "md5 fb \<noteq> digest data"
  shows "\<exists>s'. cmd_revfilefinsh ossl sh m s = Some s' \<and> refused d0 n data s' \<and>
    sent s' = sent s @ [header (m\<lparr>m_type := of_nat (type_code ACK_FAIL), m_buf_len := 0\<rparr>)]"
proof -
  note pg = paths_of_good_name [OF n]
  let ?part = "resolve (part_path n)"
  from r obtain ino where R: "Filemsg s = fb" "terminated (file_path s)" "terminated (file_path_back s)"
    "cstr (file_path_back s) = part_path n" "names (disk s) ?part = Some ino" "inode (disk s) ino = data"
    "1 \<le> free_fds (disk s)" "\<not> dirs (disk s) ?part"
    "\<forall>p. p \<noteq> ?part \<longrightarrow> names (disk s) p = names d0 p" "\<forall>i < fresh d0. inode (disk s) i = inode d0 i"
    unfolding receiving_def by blast
  have md: "MD5_file_ossl ossl (part_path n) (bzero 16) (disk s) = Some (0, digest data, disk s)"
    using MD5_file_ossl_ok [of "part_path n" "disk s" ino "bzero 16"] pg(6) R by simp
  have other: "map_option (inode (disk s)) (names d0 p) = map_option (inode d0) (names d0 p)" for p
    using R(10) wf by (cases "names d0 p") (auto simp: wf_fs_def)
  let ?s = "(reply m ACK_FAIL s)\<lparr>file_path_back := bzero 128, file_path := bzero 128\<rparr>"
  have "cmd_revfilefinsh ossl sh m s = Some ?s"
    using md m5 R by (simp add: cmd_revfilefinsh_def Let_def)
  moreover have "refused d0 n data ?s"
    using R other by (simp add: refused_def cleared_def file_at_def)
  ultimately show ?thesis by auto
qed

lemma finish_decides:
  assumes t: "taking d0 fb L data s" and wf: "wf_fs d0" and n: "nameable fb"
  shows "\<exists>s'. socketrev_turn ossl sh (Select_ready (Some finish_datagram)) s = Some (True, s') \<and>
    (if digest data = md5 fb
     then stored d0 (name_of fb) (fb\<lparr>file_length := L\<rparr>) data s' \<and> sent s' = sent s @ [ack CMD_SEND_FINISH ACK_OK]
     else refused d0 (name_of fb) data s' \<and> sent s' = sent s @ [ack CMD_SEND_FINISH ACK_FAIL])"
proof -
  obtain m where m: "message_in (Select_ready (Some finish_datagram)) = Some m" "is_kind CMD_SEND_FINISH REQ_NOR m"
    by (rule message_in_finish)
  have k: "m_cmd m = of_nat (cmd_code CMD_SEND_FINISH)" "m_type m = of_nat (type_code REQ_NOR)"
    using m(2) by (simp_all add: is_kind_def)
  have r: "receiving d0 (name_of fb) (fb\<lparr>file_length := L\<rparr>) data (with_length L s)"
    using t by (simp add: taking_def)
  have gn: "good_name (name_of fb)" "\<forall>c \<in> set (name_of fb). safe_char c" using n by (simp_all add: nameable_def)
  have "\<exists>t'. cmd_revfilefinsh ossl sh m (with_length L s) = Some t' \<and>
    (if digest data = md5 fb
     then stored d0 (name_of fb) (fb\<lparr>file_length := L\<rparr>) data t' \<and> sent t' = sent s @ [ack CMD_SEND_FINISH ACK_OK]
     else refused d0 (name_of fb) data t' \<and> sent t' = sent s @ [ack CMD_SEND_FINISH ACK_FAIL])"
  proof (cases "digest data = md5 fb")
    case True
    then show ?thesis using cmd_revfilefinsh_ok [OF r wf gn, of m] ack_header [OF k(1), of ACK_OK] by auto
  next
    case False
    then have "md5 (fb\<lparr>file_length := L\<rparr>) \<noteq> digest data" by simp
    from finsh_refused [OF r wf gn(1) this, of m] False show ?thesis using ack_header [OF k(1), of ACK_FAIL] by auto
  qed
  then obtain s' where "cmd_revfilefinsh ossl sh m s = Some s'"
    "if digest data = md5 fb
     then stored d0 (name_of fb) (fb\<lparr>file_length := L\<rparr>) data (with_length L s') \<and> sent s' = sent s @ [ack CMD_SEND_FINISH ACK_OK]
     else refused d0 (name_of fb) data (with_length L s') \<and> sent s' = sent s @ [ack CMD_SEND_FINISH ACK_FAIL]"
    by (auto simp: finsh_with_length split: if_splits)
  moreover from this have "dispatch (cmd_repose ossl sh) m s = Some s'" by (simp add: dispatch_finish [OF k])
  ultimately show ?thesis
    using m(1) by (simp add: turn_received stored_def refused_def split: if_splits)
qed

lemma transfer_decided:
  assumes wf: "wf_fileblock fb" and n: "nameable fb" and c: "cleared s"
    and ready: "disk_ready (name_of fb) (max (unat (file_length fb)) (length data)) (disk s)"
    and es: "\<forall>e \<in> set es. transfer_event e" "concat (map block_bytes es) = data" "length data < 2 ^ 32"
  shows "\<exists>s'. socketrev ossl sh (Select_ready (Some (request_datagram fb)) # es @ [Select_ready (Some finish_datagram)]) s = Some s' \<and>
    (if digest data = md5 fb
     then stored (disk s) (name_of fb) (fb\<lparr>file_length := of_nat (length data)\<rparr>) data s' \<and> last (sent s') = ack CMD_SEND_FINISH ACK_OK
     else refused (disk s) (name_of fb) data s' \<and> last (sent s') = ack CMD_SEND_FINISH ACK_FAIL)"
proof -
  let ?L = "of_nat (length data) :: u32"
  have L: "unat ?L = length data" using es(3) by (simp add: unat_of_nat take_bit_nat_eq_self)
  have rd: "disk_ready (name_of fb) (unat (file_length fb)) (disk s)" "length data \<le> room (disk s)" "wf_fs (disk s)"
    using ready by (simp_all add: disk_ready_def Let_def)
  from announce_taking [OF wf n c rd(1), of ?L] L rd(2) obtain s1 where
    s1: "socketrev_turn ossl sh (Select_ready (Some (request_datagram fb))) s = Some (True, s1)"
    "taking (disk s) fb ?L [] s1" by auto
  from taking.events [OF s1(2) es(1)] es(2) L obtain s2 where
    s2: "socketrev ossl sh es s1 = Some s2" "taking (disk s) fb ?L data s2" by auto
  have "Select_error \<notin> set es" using es(1) by (auto simp: transfer_event_def)
  from socketrev_append [OF s2(1) this] finish_decides [OF s2(2) rd(3) n] s1(1) show ?thesis by auto
qed

end

section \<open>Properties\<close>

text \<open>C4. The integrity of a transfer. After an announcement the network may deliver any blocks, in any
  order, lost or repeated, mixed with unknown datagrams, timeouts and failing calls of recvfrom; data
  are the bytes of the blocks as they arrived. When their digest is the announced one, the end of the
  transfer puts exactly them in place and acknowledges it; otherwise it answers with ACK_FAIL, and
  every file of the server, an older one of the same name included, is as it was. No datagram is
  needed from the client in between, and none makes the server leave its buffers.\<close>

theorem udp_integrity:
  assumes env: "udp_environment ossl okctx repr digest limit sh"
    and fb: "wf_fileblock fb" "nameable fb" and s: "cleared s"
    and disk: "disk_ready (name_of fb) (max (unat (file_length fb)) (length data)) (disk s)"
    and es: "\<forall>e \<in> set es. transfer_event e" "concat (map block_bytes es) = data" "length data < 2 ^ 32"
  shows "\<exists>s'. socketrev ossl sh (Select_ready (Some (request_datagram fb)) # es @ [Select_ready (Some finish_datagram)]) s = Some s' \<and>
    (let final = resolve (final_path (name_of fb)); part = resolve (part_path (name_of fb)) in
     (if digest data = md5 fb
      then file_at (disk s') final = Some data \<and> file_at (disk s') part = None \<and>
        last (sent s') = ack CMD_SEND_FINISH ACK_OK
      else file_at (disk s') final = file_at (disk s) final \<and> file_at (disk s') part = Some data \<and>
        last (sent s') = ack CMD_SEND_FINISH ACK_FAIL) \<and>
     (\<forall>p. p \<noteq> final \<longrightarrow> p \<noteq> part \<longrightarrow> file_at (disk s') p = file_at (disk s) p) \<and> cleared s')"
proof -
  have "good_name (name_of fb)" using fb(2) by (simp add: nameable_def)
  then have "resolve (final_path (name_of fb)) \<noteq> resolve (part_path (name_of fb))"
    using paths_of_good_name(5) by metis
  then show ?thesis
    using udp_environment.transfer_decided [OF env fb s disk es]
    by (auto simp: stored_def refused_def Let_def file_at_None split: if_splits)
qed

definition file_a :: "bytes \<Rightarrow> FileBlock_t" where
  "file_a digest = \<lparr>file_name = cs ''a'' @ bzero (128 - length (cs ''a'')), md5 = digest, file_length = 3, timestamp = 0\<rparr>"

lemma good_a: "good_name (cs ''a'')" "\<forall>c \<in> set (cs ''a''). safe_char c"
  by (simp add: good_name_def name_a plain_def) (simp_all add: cs_def of_char_def safe_char_def)

lemma file_a_ok:
  assumes "length dg = 16"
  shows "wf_fileblock (file_a dg)" "nameable (file_a dg)" "name_of (file_a dg) = cs ''a''"
proof -
  note f = request_for_fileblock [of "cs ''a''"]
  show n: "name_of (file_a dg) = cs ''a''" using f name_a by (simp add: name_of_def file_a_def)
  show "wf_fileblock (file_a dg)" using assms name_a by (simp add: wf_fileblock_def file_a_def)
  show "nameable (file_a dg)" unfolding nameable_def n using good_a f name_a by (simp add: file_a_def)
qed

lemma disk_a: "disk_ready (cs ''a'') 3 empty_disk" "resolve (final_path (cs ''a'')) = [cs ''mnt'', cs ''a'']"
proof -
  note r = resolve_good [OF good_a(1), folded final_path_def part_path_def]
  show "resolve (final_path (cs ''a'')) = [cs ''mnt'', cs ''a'']" by (simp add: r name_a)
  show "disk_ready (cs ''a'') 3 empty_disk"
    by (simp add: disk_ready_def r name_a empty_disk_def wf_fs_def free_fds_def Let_def)
qed

text \<open>One block arrives twice: the digest refuses the file; in the second run it is the announced one.\<close>

theorem udp_integrity_witness:
  "\<exists>s1 s2.
     socketrev md5c_openssl mv_shell (Select_ready (Some (request_datagram (file_a (map ((+) 1) (md5_digest [1, 1, 2]))))) #
       [Select_timeout, Select_ready (Some (block_datagram [1])), Select_ready (Some (block_datagram [1])), Select_ready None,
        Select_ready (Some (block_datagram [2]))] @ [Select_ready (Some finish_datagram)]) (init_server empty_disk) = Some s1 \<and>
     file_at (disk s1) [cs ''mnt'', cs ''a''] = None \<and> last (sent s1) = ack CMD_SEND_FINISH ACK_FAIL \<and>
     socketrev md5c_openssl mv_shell (Select_ready (Some (request_datagram (file_a (md5_digest [1, 2])))) #
       [Select_ready (Some (block_datagram [1])), Select_ready (Some (block_datagram [2]))] @
       [Select_ready (Some finish_datagram)]) (init_server empty_disk) = Some s2 \<and>
     file_at (disk s2) [cs ''mnt'', cs ''a''] = Some [1, 2]"
proof -
  have len: "length (md5_digest x) = 16" for x by (rule md5o.digest_length)
  note ok = file_a_ok [of "map ((+) 1) (md5_digest [1, 1, 2])", unfolded length_map, OF len] file_a_ok [OF len, of "[1, 2]"]
  have ne: "md5_digest [1, 1, 2] \<noteq> map ((+) 1) (md5_digest [1, 1, 2])"
  proof
    assume "md5_digest [1, 1, 2] = map ((+) 1) (md5_digest [1, 1, 2])"
    then have "md5_digest [1, 1, 2] ! 0 = map ((+) 1) (md5_digest [1, 1, 2]) ! 0" by simp
    then show False using len [of "[1, 1, 2]"] by simp
  qed
  have i: "cleared (init_server empty_disk)" "disk (init_server empty_disk) = empty_disk"
    by (simp_all add: init_server_ok(2)) (simp add: init_server_def)
  have e: "file_at empty_disk p = None" for p by (simp add: file_at_def empty_disk_def)
  note disk_a' = disk_a disk_a(1) [unfolded numeral_3_eq_3]
  note b = message_in_block [of "[1]"] message_in_block [of "[2]"]
  have t: "transfer_event Select_timeout" "block_bytes Select_timeout = []" "transfer_event (Select_ready None)"
    "block_bytes (Select_ready None) = []"
    by (simp_all add: transfer_event_def block_bytes_def)
  have m: "unat (file_length (file_a dg)) = 3" "md5 (file_a dg) = dg" for dg by (simp_all add: file_a_def)
  have "\<exists>s1. socketrev md5c_openssl mv_shell (Select_ready (Some (request_datagram (file_a (map ((+) 1) (md5_digest [1, 1, 2]))))) #
       [Select_timeout, Select_ready (Some (block_datagram [1])), Select_ready (Some (block_datagram [1])), Select_ready None,
        Select_ready (Some (block_datagram [2]))] @ [Select_ready (Some finish_datagram)]) (init_server empty_disk) = Some s1 \<and>
     file_at (disk s1) [cs ''mnt'', cs ''a''] = None \<and> last (sent s1) = ack CMD_SEND_FINISH ACK_FAIL"
    using udp_integrity [OF md5_udp.udp_environment_axioms ok(1,2) i(1), of "[1, 1, 2]"
        "[Select_timeout, Select_ready (Some (block_datagram [1])), Select_ready (Some (block_datagram [1])), Select_ready None,
        Select_ready (Some (block_datagram [2]))]"] ok(3) disk_a' ne
    by (auto simp: i m e b t Let_def)
  moreover have "\<exists>s2. socketrev md5c_openssl mv_shell (Select_ready (Some (request_datagram (file_a (md5_digest [1, 2])))) #
       [Select_ready (Some (block_datagram [1])), Select_ready (Some (block_datagram [2]))] @
       [Select_ready (Some finish_datagram)]) (init_server empty_disk) = Some s2 \<and>
     file_at (disk s2) [cs ''mnt'', cs ''a''] = Some [1, 2]"
    using udp_integrity [OF md5_udp.udp_environment_axioms ok(4,5) i(1), of "[1, 2]"
        "[Select_ready (Some (block_datagram [1])), Select_ready (Some (block_datagram [2]))]"] ok(6) disk_a'
    by (auto simp: i m e b t Let_def)
  ultimately show ?thesis by blast
qed

lemma recv_calls_closed: "recv_calls ossl sh False es s = Some s"
  by (induction es) (simp_all add: socketrev_turn.simps)

text \<open>C11. The thread ends the program when it gets no socket. Otherwise it does what socketrev does up to the
  first error of select; after that error nothing that a client sends has any effect, although the
  thread goes on for ever.\<close>

theorem server_deaf_after_error:
  "usb_net_recvthread ossl sh socket_ret bind_ret (es @ Select_error # es') s =
    (if socket_ret < 0 \<or> bind_ret < 0 then Inl 1 else Inr (socketrev ossl sh es s))"
proof -
  have "recv_calls ossl sh True (es @ Select_error # es') s = socketrev ossl sh es s"
  proof (induction es arbitrary: s)
    case Nil
    show ?case by (simp add: socketrev_turn.simps recv_calls_closed)
  next
    case (Cons e es)
    show ?case
      by (cases "socketrev_turn ossl sh e s") (auto simp: Cons.IH recv_calls_closed split: prod.split)
  qed
  then show ?thesis by (simp add: usb_net_recvthread_def udpsocketinit_def)
qed

end
