(* ===== verification/UdpAnnounce.thy ===== *)
theory UdpAnnounce
  imports UdpIntegrity
begin

text \<open>
  Announcements to the udp server that no end of a transfer follows: each is appended to the path
  buffers, until it overflows one. When exactly this happens.
\<close>

section \<open>The directories of a name\<close>

lemma tokens_elems: "\<forall>t \<in> set (tokens d s). t \<noteq> [] \<and> set t \<subseteq> set s"
proof (induction d s rule: tokens.induct)
  case (1 d s)
  let ?t = "dropWhile (\<lambda>c. c \<in> set d) s"
  let ?w = "takeWhile (\<lambda>c. c \<notin> set d) ?t"
  show ?case
  proof (cases "?t = []")
    case False
    have "hd ?t \<notin> set d" by (rule hd_dropWhile [OF False])
    then have "?w \<noteq> []" using False by (cases ?t) auto
    moreover have "set ?w \<subseteq> set s" by (meson set_dropWhileD set_takeWhileD subsetI)
    moreover have "set (drop (Suc (length ?w)) ?t) \<subseteq> set s" by (meson in_set_dropD set_dropWhileD subsetI)
    ultimately show ?thesis using "1.IH" [OF refl refl False] False by (subst tokens.simps) (auto simp: Let_def)
  qed (subst tokens.simps, simp)
qed

lemma tokens_few: "2 * length (tokens d s) \<le> Suc (length s)"
proof -
  have "\<forall>t \<in> set ts. t \<noteq> [] \<Longrightarrow> 2 * length ts \<le> sum_list (map (\<lambda>t. Suc (length t)) ts)" for ts :: "bytes list"
  proof (induction ts)
    case (Cons t ts)
    then show ?case by (cases t) auto
  qed simp
  from this [of "tokens d s"] tokens_elems [of d s] tokens_sum [of d s] show ?thesis by auto
qed

lemma length_cstr_less: "terminated b \<Longrightarrow> length (cstr b) < length b"
proof -
  assume "terminated b"
  then obtain r where "b = cstr b @ 0 # r" by (rule terminatedE)
  from arg_cong [OF this, of length] show ?thesis by simp
qed

text \<open>
  The bytes that access_dir puts into its buffer of 80: the directory of the server, and a slash and the
  name of every directory of the path. A name without a directory does not need the buffer.
\<close>

definition dir_space :: "bytes \<Rightarrow> nat" where
  "dir_space n = (if length (tokens [slash] n) < 2 then 0
     else length PICTUREPATH + (\<Sum>t \<leftarrow> butlast (tokens [slash] n). Suc (length t)))"

lemma access_dir_loop_None_iff:
  assumes "terminated dp" "\<forall>t \<in> set ts. 0 \<notin> set t"
  shows "access_dir_loop ts dp d = None \<longleftrightarrow> length dp \<le> length (cstr dp) + (\<Sum>t \<leftarrow> ts. Suc (length t))"
  using assms
proof (induction ts arbitrary: dp d)
  case Nil
  then show ?case using length_cstr_less [of dp] by simp
next
  case (Cons t ts)
  have s: "0 \<notin> set (cs ''/'')" "length (cs ''/'') = 1" by (simp_all add: cs_def of_char_def)
  show ?case
  proof (cases "length (cstr dp) + Suc (length t) < length dp")
    case True
    obtain dp1 where d1: "strcat dp (cs ''/'') = Some dp1" "cstr dp1 = cstr dp @ cs ''/''" "terminated dp1" "length dp1 = length dp"
      by (rule strcat_Some [of dp "cs ''/''"]) (use True Cons.prems(1) s in simp_all)
    obtain dp2 where d2: "strcat dp1 t = Some dp2" "cstr dp2 = cstr dp1 @ t" "terminated dp2" "length dp2 = length dp1"
      by (rule strcat_Some [of dp1 t]) (use True Cons.prems(2) d1 s in simp_all)
    then show ?thesis using Cons.IH [OF d2(3)] Cons.prems(2) d1 s by (simp add: add.assoc)
  next
    case False
    have "Option.bind (strcat dp (cs ''/'')) (\<lambda>dp. strcat dp t) = None"
    proof (cases "strcat dp (cs ''/'')")
      case (Some dp1)
      then show ?thesis using strcat_SomeD [OF Some s(1)] False s(2) by (auto simp: strcat_None_iff)
    qed simp
    then have "access_dir_loop (t # ts) dp d = None" by (auto split: Option.bind_splits)
    then show ?thesis using False by simp
  qed
qed

lemma access_dir_None_iff:
  assumes nm: "terminated nm" and few: "length (tokens [slash] (cstr nm)) \<le> 64"
  shows "access_dir nm d = None \<longleftrightarrow> 80 \<le> dir_space (cstr nm)"
proof -
  let ?ts = "tokens [slash] (cstr nm)"
  have "length ?ts \<le> length (replicate 64 (0 :: nat))" using few by simp
  with nm obtain str' out where s: "stringtoarray_udp nm [slash] (replicate 64 0) = Some (length ?ts, str', out)"
    "map (\<lambda>i. cstr (drop i str')) (take (length ?ts) out) = ?ts" by (rule stringtoarray_udp_spec)
  have "map (\<lambda>i. cstr (drop i str')) (take (length ?ts - 1) out) =
      take (length ?ts - 1) (map (\<lambda>i. cstr (drop i str')) (take (length ?ts) out))"
    by (simp add: take_map min_def)
  also have "\<dots> = butlast ?ts" unfolding s(2) by (simp add: butlast_conv_take)
  finally have toks: "map (\<lambda>i. cstr (drop i str')) (take (length ?ts - 1) out) = butlast ?ts" .
  obtain dp where dp: "strcat (bzero 80) PICTUREPATH = Some dp" "cstr dp = PICTUREPATH" "terminated dp" "length dp = 80"
    by (rule strcat_Some [of "bzero 80" PICTUREPATH]) (simp_all add: filepart_facts)
  have z: "\<forall>t \<in> set (butlast ?ts). 0 \<notin> set t"
  proof
    fix t
    assume "t \<in> set (butlast ?ts)"
    then have "set t \<subseteq> set (cstr nm)" using tokens_elems [of "[slash]" "cstr nm"] by (blast dest: in_set_butlastD)
    then show "0 \<notin> set t" using cstr_no_zero [of nm] by blast
  qed
  show ?thesis
    using access_dir_loop_None_iff [OF dp(3) z, of d] dp
    by (auto simp: access_dir_def s(1) toks [unfolded One_nat_def] dir_space_def not_less split: Option.bind_splits)
qed

section \<open>One announcement\<close>

abbreviation announcement :: "FileBlock_t \<Rightarrow> select_result" where
  "announcement fb \<equiv> Select_ready (Some (request_datagram fb))"

lemma length_paths: "length (final_path n) = length n + 5" "length (part_path n) = length n + 14"
  by (simp_all add: final_path_def part_path_def filepart_facts)

lemma reqsend_None_iff:
  assumes fb: "wf_fileblock fb" "terminated (file_name fb)" and ok: "path_buffers_ok s"
    and le: "length (cstr (file_path s)) \<le> length (cstr (file_path_back s))"
  shows "cmd_reqsend_deel (request_message fb) s = None \<longleftrightarrow>
    128 \<le> length (cstr (file_path_back s)) + length (part_path (name_of fb)) \<or> 80 \<le> dir_space (name_of fb)"
proof -
  let ?n = "name_of fb" and ?m = "request_message fb"
  have f: "fileblock_of (m_buf ?m) = Some fb" by (simp add: request_message_def fileblock_of_bytes [OF fb(1)])
  have n: "cstr (file_name fb) = ?n" "0 \<notin> set ?n" by (simp_all add: name_of_def cstr_no_zero)
  from ok have b: "terminated (file_path s)" "length (file_path s) = 128"
    "terminated (file_path_back s)" "length (file_path_back s) = 128" by (simp_all add: path_buffers_ok_def)
  show ?thesis
  proof (cases "length (cstr (file_path_back s)) + length (part_path ?n) < 128")
    case False
    have "cmd_reqsend_deel ?m s = None"
    proof (rule ccontr)
      assume "cmd_reqsend_deel ?m s \<noteq> None"
      then obtain s' where s': "cmd_reqsend_deel ?m s = Some s'" by blast
      from request_paths [OF s' f] n(1) b(4) have "terminated (file_path_back s')" "length (file_path_back s') = 128"
        "cstr (file_path_back s') = cstr (file_path_back s) @ part_path ?n" by (simp_all add: part_path_def)
      then show False using False length_cstr_less [of "file_path_back s'"] by simp
    qed
    then show ?thesis using False by simp
  next
    case True
    then have room: "length (cstr (file_path_back s)) + length ?n + 14 < 128" "length (cstr (file_path s)) + length ?n + 5 < 128"
      using le by (simp_all add: length_paths)
    obtain p1 where p1: "strcat (file_path s) PICTUREPATH = Some p1" "cstr p1 = cstr (file_path s) @ PICTUREPATH"
      "terminated p1" "length p1 = 128"
      by (rule strcat_Some [of "file_path s" PICTUREPATH]) (use b room filepart_facts in simp_all)
    obtain p2 where p2: "strcat p1 ?n = Some p2"
      by (rule strcat_Some [of p1 ?n]) (use p1 n room filepart_facts in simp_all)
    obtain q1 where q1: "strcat (file_path_back s) PICTUREPATH = Some q1" "cstr q1 = cstr (file_path_back s) @ PICTUREPATH"
      "terminated q1" "length q1 = 128"
      by (rule strcat_Some [of "file_path_back s" PICTUREPATH]) (use b room filepart_facts in simp_all)
    obtain q2 where q2: "strcat q1 ?n = Some q2" "cstr q2 = (cstr (file_path_back s) @ PICTUREPATH) @ ?n" "terminated q2" "length q2 = 128"
      by (rule strcat_Some [of q1 ?n]) (use q1 n room filepart_facts in simp_all)
    obtain q3 where q3: "strcat q2 (cs ''.filepart'') = Some q3"
      by (rule strcat_Some [of q2 "cs ''.filepart''"]) (use q2 room filepart_facts in simp_all)
    have few: "length (tokens [slash] ?n) \<le> 64" using tokens_few [of "[slash]" ?n] room(1) by simp
    have "cmd_reqsend_deel ?m s = None \<longleftrightarrow> access_dir (file_name fb) (disk s) = None"
      using f fb(2) p1(1) p2 q1(1) q2(1) q3 n(1)
      by (auto simp: cmd_reqsend_deel_def Let_def split: Option.bind_splits prod.splits)
    then show ?thesis using access_dir_None_iff [OF fb(2), of "disk s"] few True by (simp add: n(1))
  qed
qed

lemma announcement_turn:
  assumes "wf_fileblock fb"
  shows "socketrev ossl sh (announcement fb # es) s =
    Option.bind (cmd_reqsend_deel (request_message fb) s) (socketrev ossl sh es)"
proof -
  have m: "m_cmd (request_message fb) = of_nat (cmd_code CMD_SEND_FILEMSG_REQ)" "m_type (request_message fb) = of_nat (type_code REQ_NOR)"
    by (simp_all add: request_message_def)
  show ?thesis
    using message_in_request [OF assms] dispatch_request [OF m, of ossl sh s]
    by (cases "cmd_reqsend_deel (request_message fb) s") (simp_all add: turn_received del: message_in.simps)
qed

section \<open>The property\<close>

lemma announcements:
  assumes "\<forall>fb \<in> set fbs. wf_fileblock fb \<and> terminated (file_name fb)" "path_buffers_ok s"
    and "length (cstr (file_path s)) \<le> length (cstr (file_path_back s))"
  shows "(socketrev ossl sh (map announcement fbs) s = None \<longleftrightarrow>
      128 \<le> length (cstr (file_path_back s)) + (\<Sum>fb \<leftarrow> fbs. length (part_path (name_of fb))) \<or>
      (\<exists>fb \<in> set fbs. 80 \<le> dir_space (name_of fb))) \<and>
    (\<forall>s'. socketrev ossl sh (map announcement fbs) s = Some s' \<longrightarrow>
      cstr (file_path s') = cstr (file_path s) @ concat (map (final_path \<circ> name_of) fbs) \<and>
      cstr (file_path_back s') = cstr (file_path_back s) @ concat (map (part_path \<circ> name_of) fbs))"
  using assms
proof (induction fbs arbitrary: s)
  case Nil
  then show ?case using length_cstr_less [of "file_path_back s"] by (simp add: path_buffers_ok_def)
next
  case (Cons fb fbs)
  from Cons.prems(1) have fb: "wf_fileblock fb" "terminated (file_name fb)" by simp_all
  note one = reqsend_None_iff [OF fb Cons.prems(2,3)]
  show ?case
  proof (cases "cmd_reqsend_deel (request_message fb) s")
    case None
    then show ?thesis using one announcement_turn [OF fb(1), of ossl sh "map announcement fbs" s] by auto
  next
    case (Some s1)
    have f: "fileblock_of (m_buf (request_message fb)) = Some fb" by (simp add: request_message_def fileblock_of_bytes [OF fb(1)])
    note p = request_paths [OF Some f]
    have p1: "cstr (file_path s1) = cstr (file_path s) @ final_path (name_of fb)"
      "cstr (file_path_back s1) = cstr (file_path_back s) @ part_path (name_of fb)" "path_buffers_ok s1"
      using p Cons.prems(2) by (simp_all add: final_path_def part_path_def name_of_def path_buffers_ok_def)
    have "length (cstr (file_path s1)) \<le> length (cstr (file_path_back s1))"
      using Cons.prems(3) by (simp add: p1 length_paths)
    note IH = Cons.IH [OF _ p1(3) this]
    have run: "socketrev ossl sh (map announcement (fb # fbs)) s = socketrev ossl sh (map announcement fbs) s1"
      using announcement_turn [OF fb(1), of ossl sh "map announcement fbs" s] Some by simp
    have "\<not> 80 \<le> dir_space (name_of fb)" using one Some by simp
    then show ?thesis using IH Cons.prems(1) unfolding run by (simp add: p1 add.assoc)
  qed
qed

text \<open>C8. How many announcements the server survives. An announcement is appended to the paths of the one
  before, and only the end of a transfer or a failed write clears them: on a sequence of announcements
  the server leaves its buffers (of 128 bytes for the paths, of 80 for the directories of a name) exactly
  when the temporary paths together have 128 characters or more, or one name has directories of that
  length; otherwise the buffers hold all the paths, one after the other. So a client that is started
  again because its announcement was not answered ends the server after a few attempts.\<close>

theorem announcements_limit:
  assumes "\<forall>fb \<in> set fbs. wf_fileblock fb \<and> terminated (file_name fb)" "cleared s"
  shows "(socketrev ossl sh (map announcement fbs) s = None \<longleftrightarrow>
      128 \<le> (\<Sum>fb \<leftarrow> fbs. length (PICTUREPATH @ name_of fb @ cs ''.filepart'')) \<or>
      (\<exists>fb \<in> set fbs. 80 \<le> dir_space (name_of fb))) \<and>
    (\<forall>s'. socketrev ossl sh (map announcement fbs) s = Some s' \<longrightarrow>
      cstr (file_path s') = concat (map (\<lambda>fb. PICTUREPATH @ name_of fb) fbs) \<and>
      cstr (file_path_back s') = concat (map (\<lambda>fb. PICTUREPATH @ name_of fb @ cs ''.filepart'') fbs))"
proof -
  have "path_buffers_ok s" "cstr (file_path s) = []" "cstr (file_path_back s) = []"
    using assms(2) by (simp_all add: cleared_def path_buffers_ok_def)
  then show ?thesis using announcements [OF assms(1), of s ossl sh]
    by (simp add: comp_def final_path_def part_path_def)
qed

theorem announcements_limit_witness:
  "\<exists>s. socketrev md5c_openssl mv_shell (map announcement (replicate 8 (file_a (bzero 16)))) (init_server empty_disk) = Some s \<and>
     cstr (file_path s) = concat (replicate 8 (cs ''/mnt/a'')) \<and>
     socketrev md5c_openssl mv_shell (map announcement (replicate 9 (file_a (bzero 16)))) (init_server empty_disk) = None"
proof -
  note a = file_a_ok [of "bzero 16"]
  have len: "length (bzero 16) = 16" by simp
  have h: "\<forall>fb \<in> set (replicate k (file_a (bzero 16))). wf_fileblock fb \<and> terminated (file_name fb)" for k
    using a [OF len] by (simp add: nameable_def)
  have d: "dir_space (cs ''a'') = 0" by (simp add: dir_space_def name_a)
  have n: "length (PICTUREPATH @ name_of (file_a (bzero 16)) @ cs ''.filepart'') = 15"
    using a(3) [OF len] by (simp add: filepart_facts name_a)
  have p: "PICTUREPATH @ cs ''a'' = cs ''/mnt/a''" by (simp add: PICTUREPATH_def cs_def)
  note lim = announcements_limit [OF h init_server_ok(2) [of empty_disk], of md5c_openssl mv_shell]
  have "socketrev md5c_openssl mv_shell (map announcement (replicate 9 (file_a (bzero 16)))) (init_server empty_disk) = None"
    using lim [of 9] n by (simp add: sum_list_replicate)
  moreover have "socketrev md5c_openssl mv_shell (map announcement (replicate 8 (file_a (bzero 16)))) (init_server empty_disk) \<noteq> None"
    using lim [of 8] n a(3) [OF len] d by (simp add: sum_list_replicate)
  ultimately show ?thesis using lim [of 8] a(3) [OF len] p by (auto simp: map_replicate_const)
qed

end
