(* ===== verification/UdpLate.thy ===== *)
theory UdpLate
  imports UdpIntegrity
begin

text \<open>
  The udp server after the end of a transfer: the descriptor of the file stays open, so that a datagram
  that the network delivers late still changes the file.
\<close>

section \<open>A block that comes late\<close>

text \<open>Writing through a descriptor does not depend on the names of the files.\<close>

lemma write_fd_moved:
  "write_fd f b (moved n ino t d) = (case write_fd f b d of (r, d') \<Rightarrow> (r, moved n ino t d'))"
proof -
  have "fd_of (moved n ino t d) f = fd_of d f" by (simp add: fd_of_def moved_def)
  then show ?thesis by (cases "fd_of d f") (auto simp: write_fd_def moved_def Let_def)
qed

lemma write_fd_names: "write_fd f b d = (r, d') \<Longrightarrow> names d' = names d"
  by (auto simp: write_fd_def Let_def split: fd_entry.splits if_splits)

text \<open>
  The state after the file was moved: the descriptor still belongs to it, so that the server is what it
  would be in the middle of the transfer, but for the names of the file.
\<close>

definition placed :: "fs \<Rightarrow> FileBlock_t \<Rightarrow> u32 \<Rightarrow> bytes \<Rightarrow> server \<Rightarrow> bool" where
  "placed d0 fb L data s \<longleftrightarrow> (\<exists>t ino. taking d0 fb L data t \<and> fd s = fd t \<and>
     names (disk t) (resolve (part_path (name_of fb))) = Some ino \<and>
     disk s = moved (name_of fb) ino (timestamp fb) (disk t))"

lemma placed_file:
  assumes "placed d0 fb L data s"
  shows "file_at (disk s) (resolve (final_path (name_of fb))) = Some data"
  using assms by (auto simp: placed_def taking_def receiving_def with_length_def file_at_def moved_def)

lemma placed_block:
  assumes p: "placed d0 fb L data s" and len: "unat (m_buf_len m) \<le> length (m_buf m)"
    "length data + unat (m_buf_len m) \<le> unat L"
  shows "\<exists>s'. cmd_revfile m s = Some s' \<and> placed d0 fb L (data @ take (unat (m_buf_len m)) (m_buf m)) s'"
proof -
  let ?src = "take (unat (m_buf_len m)) (m_buf m)"
  from p obtain t ino where t: "taking d0 fb L data t" "fd s = fd t"
    "names (disk t) (resolve (part_path (name_of fb))) = Some ino"
    "disk s = moved (name_of fb) ino (timestamp fb) (disk t)"
    by (auto simp: placed_def)
  from taking_block [OF t(1) len] obtain t' where t': "cmd_revfile m t = Some t'" "taking d0 fb L (data @ ?src) t'" by blast
  obtain k d where w: "write_fd (fd t) ?src (disk t) = (k, d)" by force
  have run: "cmd_revfile m u = Some (if k = - 1 then reply m ACK_NOSP (u\<lparr>file_path_back := bzero 128,
      file_path := bzero 128, disk := close_fd (fd u) d'\<rparr>) else reply m ACK_OK (u\<lparr>disk := d'\<rparr>))"
    if "write_fd (fd u) ?src (disk u) = (k, d')" for u d'
    using that len(1) by (simp add: cmd_revfile_def mem_get_def Let_def)
  have k: "k \<noteq> - 1"
  proof
    assume "k = - 1"
    then have "cstr (file_path t') = []" using t'(1) run [OF w] by auto
    moreover have "cstr (file_path t') = final_path (name_of fb)"
      using t'(2) by (auto simp: taking_def receiving_def with_length_def)
    ultimately show False by (simp add: final_path_def PICTUREPATH_eq)
  qed
  then have d: "disk t' = d" "fd t' = fd t" using t'(1) run [OF w] by auto
  have "cmd_revfile m s = Some (reply m ACK_OK (s\<lparr>disk := moved (name_of fb) ino (timestamp fb) d\<rparr>))"
    using run [of s "moved (name_of fb) ino (timestamp fb) d"] w k t(2,4) by (simp add: write_fd_moved)
  moreover have "names (disk t') (resolve (part_path (name_of fb))) = Some ino"
    using t(3) write_fd_names [OF w] d by simp
  ultimately show ?thesis using t'(2) t(2) d unfolding placed_def
    by (intro exI [of _ "reply m ACK_OK (s\<lparr>disk := moved (name_of fb) ino (timestamp fb) d\<rparr>)"]) auto
qed

interpretation placed: block_receiver "placed d0 fb L" "unat L" for d0 fb L
  by unfold_locales (rule placed_block)

context udp_environment
begin

lemma finish_places:
  assumes t: "taking d0 fb L data s" and n: "nameable fb" and m5: "md5 fb = digest data"
  shows "\<exists>s'. socketrev_turn ossl sh (Select_ready (Some finish_datagram)) s = Some (True, s') \<and> placed d0 fb L data s'"
proof -
  obtain m where m: "message_in (Select_ready (Some finish_datagram)) = Some m" "is_kind CMD_SEND_FINISH REQ_NOR m"
    by (rule message_in_finish)
  have k: "m_cmd m = of_nat (cmd_code CMD_SEND_FINISH)" "m_type m = of_nat (type_code REQ_NOR)"
    using m(2) by (simp_all add: is_kind_def)
  have r: "receiving d0 (name_of fb) (fb\<lparr>file_length := L\<rparr>) data (with_length L s)"
    using t by (simp add: taking_def)
  have gn: "good_name (name_of fb)" "\<forall>c \<in> set (name_of fb). safe_char c" using n by (simp_all add: nameable_def)
  have "md5 (fb\<lparr>file_length := L\<rparr>) = digest data" using m5 by simp
  from cmd_revfilefinsh_moves [OF r gn this, of m] obtain ino s' where
    s': "names (disk s) (resolve (part_path (name_of fb))) = Some ino" "cmd_revfilefinsh ossl sh m s = Some s'"
    "with_length L s' = (reply m ACK_OK (with_length L s))\<lparr>disk := moved (name_of fb) ino (timestamp fb) (disk s),
       file_path_back := bzero 128, file_path := bzero 128\<rparr>"
    by (auto simp: finsh_with_length)
  have "disk s' = disk (with_length L s')" "fd s' = fd (with_length L s')" by (simp_all add: with_length_def)
  then have "disk s' = moved (name_of fb) ino (timestamp fb) (disk s)" "fd s' = fd s"
    unfolding s'(3) by (simp_all add: with_length_def)
  then have "placed d0 fb L data s'" using t s'(1) unfolding placed_def by blast
  then show ?thesis using m(1) dispatch_finish [OF k, of ossl sh s] s'(2) by (simp add: turn_received)
qed

lemma late_blocks:
  assumes fb: "wf_fileblock fb" "nameable fb" and c: "cleared s"
    and ready: "disk_ready (name_of fb) (max (unat (file_length fb)) (length (data @ late))) (disk s)"
    and es: "\<forall>e \<in> set es. transfer_event e" "concat (map block_bytes es) = data" "digest data = md5 fb"
    and fs: "\<forall>e \<in> set fs. transfer_event e" "concat (map block_bytes fs) = late" "length (data @ late) < 2 ^ 32"
  shows "\<exists>s'. socketrev ossl sh (Select_ready (Some (request_datagram fb)) # es @ Select_ready (Some finish_datagram) # fs) s = Some s' \<and>
    file_at (disk s') (resolve (final_path (name_of fb))) = Some (data @ late)"
proof -
  let ?L = "of_nat (length (data @ late)) :: u32"
  have "unat ?L = length (data @ late)" using fs(3) by (intro unat_of_nat_len) simp
  then have L: "unat ?L = length data + length late" by simp
  have rd: "disk_ready (name_of fb) (unat (file_length fb)) (disk s)" "length data + length late \<le> room (disk s)"
    using ready by (simp_all add: disk_ready_def Let_def)
  from announce_taking [OF fb c rd(1), of ?L] L rd(2) obtain s1 where
    s1: "socketrev_turn ossl sh (Select_ready (Some (request_datagram fb))) s = Some (True, s1)"
    "taking (disk s) fb ?L [] s1" by auto
  from taking.events [OF s1(2) es(1)] es(2) L obtain s2 where
    s2: "socketrev ossl sh es s1 = Some s2" "taking (disk s) fb ?L data s2" by auto
  from finish_places [OF s2(2) fb(2)] es(3) obtain s3 where
    s3: "socketrev_turn ossl sh (Select_ready (Some finish_datagram)) s2 = Some (True, s3)" "placed (disk s) fb ?L data s3"
    by auto
  from placed.events [OF s3(2) fs(1)] fs(2) L obtain s4 where
    s4: "socketrev ossl sh fs s3 = Some s4" "placed (disk s) fb ?L (data @ late) s4" by auto
  have "Select_error \<notin> set es" using es(1) by (auto simp: transfer_event_def)
  from socketrev_append [OF s2(1) this] s1(1) s3(1) s4(1) placed_file [OF s4(2)] show ?thesis by auto
qed

end

section \<open>The property\<close>

text \<open>C10. What a late datagram does. The descriptor of the file is not closed at the end of the transfer: every
  block that the network delivers after that, a repeated one for instance, is appended to the file that
  is already in place, which then does not have the digest any more that was checked.\<close>

theorem late_blocks_appended:
  assumes env: "udp_environment ossl okctx repr digest limit sh"
    and fb: "wf_fileblock fb" "nameable fb" and s: "cleared s"
    and disk: "disk_ready (name_of fb) (max (unat (file_length fb)) (length (data @ late))) (disk s)"
    and es: "\<forall>e \<in> set es. transfer_event e" "concat (map block_bytes es) = data" "digest data = md5 fb"
    and fs: "\<forall>e \<in> set fs. transfer_event e" "concat (map block_bytes fs) = late" "length (data @ late) < 2 ^ 32"
  shows "\<exists>s'. socketrev ossl sh (Select_ready (Some (request_datagram fb)) # es @ Select_ready (Some finish_datagram) # fs) s = Some s' \<and>
    file_at (disk s') (resolve (final_path (name_of fb))) = Some (data @ late)"
  by (rule udp_environment.late_blocks [OF assms])

theorem late_blocks_appended_witness:
  "\<exists>s. socketrev md5c_openssl mv_shell (Select_ready (Some (request_datagram (file_a (md5_digest [1])))) #
       [Select_ready (Some (block_datagram [1]))] @ Select_ready (Some finish_datagram) #
       [Select_timeout, Select_ready (Some (block_datagram [1]))]) (init_server empty_disk) = Some s \<and>
     file_at (disk s) [cs ''mnt'', cs ''a''] = Some [1, 1]"
proof -
  have len: "length (md5_digest [1]) = 16" by (rule md5o.digest_length)
  note ok = file_a_ok [OF len]
  have i: "cleared (init_server empty_disk)" "disk (init_server empty_disk) = empty_disk"
    by (simp_all add: init_server_ok(2)) (simp add: init_server_def)
  have m: "unat (file_length (file_a dg)) = 3" "md5 (file_a dg) = dg" for dg by (simp_all add: file_a_def)
  have t: "transfer_event Select_timeout" "block_bytes Select_timeout = []"
    by (simp_all add: transfer_event_def block_bytes_def)
  have ready: "disk_ready (name_of (file_a (md5_digest [1]))) (max (unat (file_length (file_a (md5_digest [1]))))
      (length ([1] @ [1 :: u8]))) (disk (init_server empty_disk))"
    using disk_a(1) [unfolded numeral_3_eq_3] by (simp add: ok(3) i m)
  note b = message_in_block [of "[1]"]
  show ?thesis
    using late_blocks_appended [OF md5_udp.udp_environment_axioms ok(1,2) i(1) ready, of
        "[Select_ready (Some (block_datagram [1]))]" "[Select_timeout, Select_ready (Some (block_datagram [1]))]"]
    by (simp add: m b t ok(3) disk_a(2))
qed

end
