(* ===== verification/UdpLossy.thy ===== *)
theory UdpLossy
  imports UdpLate UdpClientProps
begin


section \<open>The network\<close>









section \<open>What the client reads out of an answer\<close>



section \<open>The transfer\<close>















section \<open>The loop over the blocks\<close>





section \<open>Announcement and end\<close>















section \<open>The property\<close>










end
