(* ===== verification/UdpLost.thy ===== *)
theory UdpLost
  imports UdpIntegrity UdpClientProps MD5_Eval
begin

text \<open>
  The udp file transfer when the answer to the first block is lost and everything else arrives in order:
  the blocks carry no numbers, so that the server takes the repeated block for new ones.
\<close>

declare socketrev_turn.simps [simp del] message_in.simps [simp del]

section \<open>Answers that get lost\<close>

text \<open>
  The client receives the answers of the server in their order, without those whose index is in
  lost; when there is none it waits until the timeout.
\<close>

definition fifo_recv :: "nat set \<Rightarrow> server \<times> nat \<Rightarrow> bytes option \<times> server \<times> nat" where
  "fifo_recv lost = (\<lambda>(s, k). case filter (\<lambda>j. j \<notin> lost) [k..<length (sent s)] of
     [] \<Rightarrow> (None, s, length (sent s))
   | j # js \<Rightarrow> (Some (sent s ! j), s, Suc j))"

lemma fifo_recv_next:
  assumes "k < length (sent s)" "k \<notin> lost"
  shows "fifo_recv lost (s, k) = (Some (sent s ! k), s, Suc k)"
  using assms by (simp add: fifo_recv_def upt_conv_Cons)

lemma fifo_recv_lost:
  assumes "length (sent s) = Suc k" "k \<in> lost"
  shows "fifo_recv lost (s, k) = (None, s, Suc k)"
  using assms by (simp add: fifo_recv_def upt_conv_Cons)

text \<open>With nothing lost it is the network of UdpTransfer.\<close>

lemma fifo_recv_all: "k \<le> length (sent s) \<Longrightarrow> fifo_recv {} (s, k) = srv_recv (s, k)"
  by (cases "k < length (sent s)") (auto simp: fifo_recv_def srv_recv_def upt_conv_Cons)

section \<open>One answer behind\<close>

lemma block_arrives:
  assumes t: "taking d0 fb L data s" and c: "length c \<le> BUF_MAX_LEN" "length data + length c \<le> unat L"
  shows "\<exists>s'. srv_send ossl sh (block_datagram c) (s, k) = Some (s', k) \<and> taking d0 fb L (data @ c) s' \<and>
    sent s' = sent s @ [ack CMD_SEND_FILE ACK_OK]"
proof -
  define m where "m = \<lparr>m_cmd = of_nat (cmd_code CMD_SEND_FILE), m_type = of_nat (type_code REQ_NORE),
      m_buf_len = of_nat (length c) :: u32, m_buf = c @ bzero (BUF_MAX_LEN - length c)\<rparr>"
  have m: "m_cmd m = of_nat (cmd_code CMD_SEND_FILE)" "m_type m = of_nat (type_code REQ_NORE)"
    "unat (m_buf_len m) = length c" "length c \<le> length (m_buf m)" "take (length c) (m_buf m) = c"
    using c(1) by (simp_all add: m_def unat_of_nat)
  from taking_block [OF t, of m] m(4) c(2) obtain s' where s': "cmd_revfile m s = Some s'"
    "taking d0 fb L (data @ c) s'" "sent s' = sent s @ [ack CMD_SEND_FILE ACK_OK]"
    unfolding m(3,5) ack_header [OF m(1)] by blast
  have "dispatch (cmd_repose ossl sh) m s = Some s'" unfolding dispatch_block [OF m(1,2)] by (rule s'(1))
  then have "srv_send ossl sh (block_datagram c) (s, k) = Some (s', k)"
    using message_of_block [OF c(1), folded m_def] by (simp add: srv_send_def turn_received)
  then show ?thesis using s'(2,3) by blast
qed

text \<open>
  The state of client and server once the client has lost an answer: the answer that it receives next is
  the one to the block before. pre is what the server has got too much.
\<close>

definition behind :: "fs \<Rightarrow> u32 \<Rightarrow> bytes \<Rightarrow> nat set \<Rightarrow> FileBlock_t \<Rightarrow> bytes \<Rightarrow> server \<times> nat \<Rightarrow> bool" where
  "behind d0 L pre lost fb data = (\<lambda>(s, k). taking d0 fb L (pre @ data) s \<and> length (sent s) = Suc k \<and>
     sent s ! k = ack CMD_SEND_FILE ACK_OK \<and> (\<forall>j \<in> lost. j < k) \<and> length pre + unat (file_length fb) \<le> unat L)"

lemma behind_block:
  assumes b: "behind d0 L pre lost fb data (s, k)" and c: "length c \<le> BUF_MAX_LEN"
    "length data + length c \<le> unat (file_length fb)"
  shows "\<exists>s1 s2. srv_send ossl sh (block_datagram c) (s, k) = Some s1 \<and>
    fifo_recv lost s1 = (Some (ack CMD_SEND_FILE ACK_OK), s2) \<and> behind d0 L pre lost fb (data @ c) s2"
proof -
  from b have B: "taking d0 fb L (pre @ data) s" "length (sent s) = Suc k" "sent s ! k = ack CMD_SEND_FILE ACK_OK"
    "\<forall>j \<in> lost. j < k" "length pre + unat (file_length fb) \<le> unat L" by (simp_all add: behind_def)
  have "length (pre @ data) + length c \<le> unat L" using c(2) B(5) by simp
  from block_arrives [OF B(1) c(1) this, of ossl sh k] obtain s' where
    s': "srv_send ossl sh (block_datagram c) (s, k) = Some (s', k)" "taking d0 fb L (pre @ data @ c) s'"
    "sent s' = sent s @ [ack CMD_SEND_FILE ACK_OK]" unfolding append_assoc by blast
  have r: "fifo_recv lost (s', k) = (Some (ack CMD_SEND_FILE ACK_OK), s', Suc k)"
    using fifo_recv_next [of k s' lost] B s'(3) by (auto simp: nth_append)
  have n: "length (sent s') = Suc (Suc k)" "sent s' ! Suc k = ack CMD_SEND_FILE ACK_OK"
    using s'(3) B(2) by (simp_all add: nth_append)
  have "behind d0 L pre lost fb (data @ c) (s', Suc k)"
    using s'(2) B(4,5) n by (auto simp: behind_def)
  with s'(1) r show ?thesis by blast
qed

interpretation behind: block_taker "srv_send ossl sh" "fifo_recv lost" "behind d0 L pre lost"
  for ossl :: "'c openssl" and sh d0 L pre lost
proof
  show "\<exists>s1 s2. srv_send ossl sh (block_datagram c) s = Some s1 \<and>
      fifo_recv lost s1 = (Some (ack CMD_SEND_FILE ACK_OK), s2) \<and> behind d0 L pre lost fb (data @ c) s2"
    if "behind d0 L pre lost fb data s" "c \<noteq> []" "length c \<le> BUF_MAX_LEN"
      "length data + length c \<le> unat (file_length fb)" for fb data s c
    using behind_block [of d0 L pre lost fb data "fst s" "snd s" c ossl sh, unfolded prod.collapse, OF that(1,3,4)] .
qed

text \<open>The first block and its repetition bring the client behind, and from there the loop goes on to the end of the file.\<close>

lemma first_answer_lost:
  assumes t: "taking d0 fb L [] s1" "length (sent s1) = Suc k" and c: "c \<noteq> []" "length c \<le> BUF_MAX_LEN"
    and mbuf: "length mbuf = BUF_MAX_LEN" "take (length c) mbuf = c"
    and L: "2 * length c + unat (file_length fb) \<le> unat L" "length c + length rest \<le> unat (file_length fb)"
  shows "\<exists>s'. send_loop (srv_send ossl sh) (fifo_recv {Suc k}) mbuf (length c) (file_reads BUF_MAX_LEN rest)
      (bzero MAXLINE) (s1, Suc k) = Some (None, s') \<and> behind d0 L (c @ c) {Suc k} fb (c @ rest) s'"
proof -
  have fits: "length ([] :: bytes) + length c \<le> unat L" "length c + length c \<le> unat L" using L(1) by simp_all
  from block_arrives [OF t(1) c(2) fits(1), of ossl sh "Suc k"] obtain s2 where
    s2: "srv_send ossl sh (block_datagram c) (s1, Suc k) = Some (s2, Suc k)" "taking d0 fb L c s2"
    "sent s2 = sent s1 @ [ack CMD_SEND_FILE ACK_OK]" unfolding append_Nil by blast
  have none: "udprev (fifo_recv {Suc k}) buf (s2, Suc k) = (- 1, buf, s2, Suc (Suc k))" for buf
    using fifo_recv_lost [of s2 "Suc k" "{Suc k}"] t(2) s2(3) by (simp add: udprev_def)
  from block_arrives [OF s2(2) c(2) fits(2), of ossl sh "Suc (Suc k)"] obtain s3 where
    s3: "srv_send ossl sh (block_datagram c) (s2, Suc (Suc k)) = Some (s3, Suc (Suc k))" "taking d0 fb L (c @ c) s3"
    "sent s3 = sent s2 @ [ack CMD_SEND_FILE ACK_OK]" by blast
  have b: "behind d0 L (c @ c) {Suc k} fb [] (s3, Suc (Suc k))"
    using s3(2,3) s2(3) t(2) L(1) by (simp add: behind_def nth_append)
  have "length ([] :: bytes) + length c + length rest \<le> unat (file_length fb)" using L(2) by simp
  from behind.send_loop_ok [OF b c _ mbuf this, of "bzero MAXLINE" ossl sh] obtain s' where
    l: "send_loop (srv_send ossl sh) (fifo_recv {Suc k}) mbuf (length c) (file_reads BUF_MAX_LEN rest)
        (bzero MAXLINE) (s3, Suc (Suc k)) = Some (None, s')" "behind d0 L (c @ c) {Suc k} fb (c @ rest) s'"
    by auto
  have "send_loop (srv_send ossl sh) (fifo_recv {Suc k}) mbuf (length c) (file_reads BUF_MAX_LEN rest)
      (bzero MAXLINE) (s1, Suc k) = Some (None, s')"
    by (subst send_loop_eq [of _ _ mbuf "length c", unfolded Let_def send_loop_datagram [OF c(2) mbuf]])
      (simp add: s2(1) none s3(1) l(1) message_of_zero is_ack_def del: net_sizes)
  with l(2) show ?thesis by blast
qed

context udp_environment
begin

text \<open>At the end the client receives the answer to the last block.\<close>

lemma finish_behind:
  assumes b: "behind d0 L pre lost fb data (s, k)" and wf: "wf_fs d0" and n: "nameable fb"
  shows "\<exists>s'. srv_send ossl sh finish_datagram (s, k) = Some (s', k) \<and>
    fifo_recv lost (s', k) = (Some (ack CMD_SEND_FILE ACK_OK), s', Suc k) \<and>
    (if digest (pre @ data) = md5 fb then stored d0 (name_of fb) (fb\<lparr>file_length := L\<rparr>) (pre @ data) s'
     else refused d0 (name_of fb) (pre @ data) s')"
proof -
  from b have B: "taking d0 fb L (pre @ data) s" "length (sent s) = Suc k" "sent s ! k = ack CMD_SEND_FILE ACK_OK" "k \<notin> lost"
    by (auto simp: behind_def)
  from finish_decides [OF B(1) wf n] obtain s' a where
    s': "socketrev_turn ossl sh (Select_ready (Some finish_datagram)) s = Some (True, s')" "sent s' = sent s @ [a]"
    "if digest (pre @ data) = md5 fb then stored d0 (name_of fb) (fb\<lparr>file_length := L\<rparr>) (pre @ data) s'
     else refused d0 (name_of fb) (pre @ data) s'"
    by (auto split: if_splits)
  have "srv_send ossl sh finish_datagram (s, k) = Some (s', k)"
    "fifo_recv lost (s', k) = (Some (ack CMD_SEND_FILE ACK_OK), s', Suc k)"
    using s'(1,2) B(2-4) fifo_recv_next [of k s' lost] by (simp_all add: srv_send_def nth_append)
  then show ?thesis using s'(3) by blast
qed

lemma lost_answer:
  assumes name: "good_name n" "\<forall>c \<in> set n. safe_char c"
    and src: "names c (resolve n) = Some i" "\<not> dirs c (resolve n)" "1 \<le> free_fds c" "inode c i = data" "data \<noteq> []"
    and server: "cleared s0" "disk_ready n (length data + 2 * BUF_MAX_LEN) (disk s0)"
    and small: "length data + 2 * BUF_MAX_LEN < 2 ^ 32"
    and got: "got = take BUF_MAX_LEN data @ take BUF_MAX_LEN data @ data"
  shows "\<exists>s k fb. sendfile ossl (srv_send ossl sh) (fifo_recv {Suc (length (sent s0))}) n c (s0, length (sent s0)) =
      Some (0, Some Send_fail, s, k) \<and>
    (if digest got = digest data then stored (disk s0) n fb got s else refused (disk s0) n got s)"
proof -
  let ?k = "length (sent s0)"
  let ?c = "take BUF_MAX_LEN data" and ?rest = "drop BUF_MAX_LEN data" and ?recv = "fifo_recv {Suc (length (sent s0))}"
  have "length (inode c i) < 2 ^ 32" using small src(4) by simp
  then obtain fb where "fill_fileblock ossl n c = Some (fb, c)" "wf_fileblock fb" "nameable fb" "name_of fb = n"
    "md5 fb = digest (inode c i)" "unat (file_length fb) = length (inode c i)" "timestamp fb = mtime c i"
    by (rule fill_fileblock_ok [OF openssl_md5_axioms name src(1-3)])
  note fb = this [unfolded src(4)]
  have "n \<noteq> []" using name(1) by (simp add: good_name_def)
  then obtain j c' where "open_rdonly n c = (int j, c')" "fd_of c' (int j) = File i 0" "inode c' = inode c"
    using src(1-3) by (rule open_rdonly_ok)
  note op = this(1,2) fun_cong [OF this(3), of i, unfolded src(4)]
  obtain L :: u32 where L: "unat L = length data + 2 * BUF_MAX_LEN" using unat_of_nat_len [OF small] by blast
  have rd: "disk_ready (name_of fb) (unat (file_length fb)) (disk s0)" "unat L \<le> room (disk s0)" "wf_fs (disk s0)"
    using server(2) unfolding L fb(4,6) by (simp_all add: disk_ready_def Let_def)
  from announce_taking [OF fb(2,3) server(1) rd(1,2), of ossl sh] obtain s1 where
    s1: "socketrev_turn ossl sh (Select_ready (Some (request_datagram fb))) s0 = Some (True, s1)"
    "taking (disk s0) fb L [] s1" "sent s1 = sent s0 @ [ack CMD_SEND_FILEMSG_REQ ACK_OK]" by blast
  have q: "srv_send ossl sh (request_datagram fb) (s0, ?k) = Some (s1, ?k)"
    "?recv (s1, ?k) = (Some (ack CMD_SEND_FILEMSG_REQ ACK_OK), s1, Suc ?k)"
    using s1(1,3) fifo_recv_next [of ?k s1 "{Suc ?k}"] by (simp_all add: srv_send_def nth_append)
  have "length (sent s1) = Suc ?k" using s1(3) by simp
  note first = first_answer_lost [OF s1(2) this, of ?c "?c @ drop (length ?c) (bzero BUF_MAX_LEN)" ?rest ossl sh]
  have "?c \<noteq> []" "2 * length ?c + unat (file_length fb) \<le> unat L" "length ?c + length ?rest \<le> unat (file_length fb)"
    using src(5) fb(6) L by simp_all
  moreover have "length ?c \<le> BUF_MAX_LEN" "length (?c @ drop (length ?c) (bzero BUF_MAX_LEN)) = BUF_MAX_LEN" by simp_all
  moreover have "take (length ?c) (?c @ drop (length ?c) (bzero BUF_MAX_LEN)) = ?c"
    by (simp only: take_append take_all order_refl diff_self_eq_0 take_0 append_Nil2)
  ultimately obtain s4 k4 where l: "send_loop (srv_send ossl sh) ?recv (?c @ drop (length ?c) (bzero BUF_MAX_LEN)) (length ?c)
      (file_reads BUF_MAX_LEN ?rest) (bzero MAXLINE) (s1, Suc ?k) = Some (None, s4, k4)"
    "behind (disk s0) L (?c @ ?c) {Suc ?k} fb data (s4, k4)"
    using first unfolding append_take_drop_id by fast
  from finish_behind [OF l(2) rd(3) fb(3)] obtain s5 where f: "srv_send ossl sh finish_datagram (s4, k4) = Some (s5, k4)"
    "?recv (s5, k4) = (Some (ack CMD_SEND_FILE ACK_OK), s5, Suc k4)"
    "if digest got = digest data then stored (disk s0) n (fb\<lparr>file_length := L\<rparr>) got s5 else refused (disk s0) n got s5"
    unfolding got fb(4,5) append_assoc by blast
  from sendfile_run [OF fb(1) op src(5) q l(1) f(1,2)] f(3) show ?thesis by auto
qed

end

section \<open>The property\<close>

text \<open>C9. A lost answer spoils a transfer. When the answer to the first block is lost the client sends this
  block again, twice, and the server, which cannot tell a repetition from a new block, has it three
  times. From then on the client takes each answer for the one after it, so that it reports a failure
  in any case, and unless the digests collide the file is not put in place and the earlier one of
  that name stays. It holds for every file that is not empty, although everything but this one answer
  arrived in order.\<close>

theorem lost_answer_spoils:
  assumes env: "udp_environment ossl okctx repr digest limit sh"
    and name: "good_name n" "\<forall>c \<in> set n. safe_char c"
    and src: "names c (resolve n) = Some i" "\<not> dirs c (resolve n)" "1 \<le> free_fds c" "inode c i = data" "data \<noteq> []"
    and server: "cleared s0" "disk_ready n (length data + 2 * BUF_MAX_LEN) (disk s0)"
    and small: "length data + 2 * BUF_MAX_LEN < 2 ^ 32"
    and got: "got = take BUF_MAX_LEN data @ take BUF_MAX_LEN data @ data" "digest got \<noteq> digest data"
  shows "\<exists>s k. sendfile ossl (srv_send ossl sh) (fifo_recv {Suc (length (sent s0))}) n c (s0, length (sent s0)) =
      Some (0, Some Send_fail, s, k) \<and> file_at (disk s) (resolve (part_path n)) = Some got \<and>
    (\<forall>p. p \<noteq> resolve (part_path n) \<longrightarrow> file_at (disk s) p = file_at (disk s0) p)"
  using udp_environment.lost_answer [OF env name src server small got(1)] got(2)
  by (auto simp: refused_def)

definition abc_disk :: fs where
  "abc_disk = client_disk\<lparr>inode := (\<lambda>i. cs ''abc'')\<rparr>"

definition wide_disk :: fs where
  "wide_disk = empty_disk\<lparr>room := 10000\<rparr>"

theorem lost_answer_spoils_witness:
  "\<exists>s k. sendfile md5c_openssl (srv_send md5c_openssl mv_shell) (fifo_recv {1}) (cs ''p/a'') abc_disk (init_server wide_disk, 0) =
      Some (0, Some Send_fail, s, k) \<and> file_at (disk s) [cs ''mnt'', cs ''p'', cs ''a.filepart''] = Some (cs ''abcabcabc'') \<and>
    file_at (disk s) [cs ''mnt'', cs ''p'', cs ''a''] = None"
proof -
  have safe: "\<forall>c \<in> set (cs ''p/a''). safe_char c" by (simp add: cs_def of_char_def safe_char_def)
  note r = resolve_good [OF small_name(2), folded final_path_def part_path_def]
  have f: "names abc_disk (resolve (cs ''p/a'')) = Some 0" "\<not> dirs abc_disk (resolve (cs ''p/a''))"
    "1 \<le> free_fds abc_disk" "inode abc_disk 0 = cs ''abc''"
    by (simp_all add: abc_disk_def client_disk_def empty_disk_def small_name free_fds_def)
  have ne: "cs ''abc'' \<noteq> []" "md5_digest (cs ''abcabcabc'') \<noteq> md5_digest (cs ''abc'')"
    by (simp add: cs_def) (simp add: md5_digest_abc md5_digest_abc3)
  have len: "length (cs ''abc'') = 3" by (simp add: cs_def)
  have i: "cleared (init_server wide_disk)" "disk (init_server wide_disk) = wide_disk" "sent (init_server wide_disk) = []"
    by (simp_all add: init_server_ok(2)) (simp_all add: init_server_def)
  have ready: "disk_ready (cs ''p/a'') (length (cs ''abc'') + 2 * BUF_MAX_LEN) (disk (init_server wide_disk))"
    unfolding i(2) len
    by (simp add: disk_ready_def small_name r wide_disk_def empty_disk_def wf_fs_def free_fds_def Let_def)
  have got: "cs ''abcabcabc'' = take BUF_MAX_LEN (cs ''abc'') @ take BUF_MAX_LEN (cs ''abc'') @ cs ''abc''"
    by (simp add: cs_def)
  have small: "length (cs ''abc'') + 2 * BUF_MAX_LEN < 2 ^ 32" by (simp add: len)
  have e: "file_at wide_disk p = None" for p by (simp add: file_at_def wide_disk_def empty_disk_def)
  have part: "cs ''a'' @ cs ''.filepart'' = cs ''a.filepart''" "cs ''a'' \<noteq> cs ''a.filepart''" by (simp_all add: cs_def)
  from lost_answer_spoils [OF md5_udp.udp_environment_axioms small_name(2) safe f ne(1) i(1) ready small got ne(2)] show ?thesis
    by (auto simp: i e r small_name part)
qed

end
