(* ===== verification/Speed.thy ===== *)
theory Speed
  imports Complex_Main Timer Stdio
begin

text \<open>
  The speed that the servers report for a transfer: setstart and getspeed of
  filesend/udpfilesend/udp-server.c. The speed is an exact fraction, in bytes per microsecond; what
  printf rounds is left out.
\<close>

datatype speed_report = Speed rat | Too_small

text \<open>setstart stores the time in a global variable, tm_begin. %d prints the length as an int.\<close>

definition setstart :: "timeval \<Rightarrow> timeval" where
  "setstart now = now"

definition getspeed :: "timeval \<Rightarrow> timeval \<Rightarrow> u32 \<Rightarrow> bytes \<times> speed_report" where
  "getspeed tm_begin tm_end file_length =
     (let run_time = to_int ((tv_sec tm_end - tv_sec tm_begin) * 1000000 + (tv_usec tm_end - tv_usec tm_begin))
      in (cs ''send done, total size = '' @ printf_d (sint file_length) @ [0x0D, 0x0A],
          if 0 < run_time then Speed (of_nat (unat file_length) / of_int run_time) else Too_small))"

text \<open>
  The number of microseconds is kept in 32 bits: the speed is right for transfers shorter than
  2147 seconds; from there to 4294 seconds the transfer is called too small, and later the speed of
  another time is printed.
\<close>

lemma to_int_mod:
  "to_int x = (if x mod 2 ^ 32 < 2 ^ 31 then x mod 2 ^ 32 else x mod 2 ^ 32 - 2 ^ 32)"
proof -
  let ?m = "x mod 2 ^ 32"
  have m: "0 \<le> ?m" "?m < 2 ^ 32" by simp_all
  have "(x + 2 ^ 31) mod 2 ^ 32 = (?m + 2 ^ 31) mod 2 ^ 32" by (rule mod_add_left_eq [symmetric])
  also have "\<dots> = (if ?m < 2 ^ 31 then ?m + 2 ^ 31 else ?m + 2 ^ 31 - 2 ^ 32)"
  proof (cases "?m < 2 ^ 31")
    case True
    then show ?thesis using m by (simp add: mod_pos_pos_trivial)
  next
    case False
    have "(?m + 2 ^ 31) mod 2 ^ 32 = (?m + 2 ^ 31 - 2 ^ 32) mod 2 ^ 32" by (rule minus_mod_self2 [symmetric])
    also have "\<dots> = ?m + 2 ^ 31 - 2 ^ 32" using False m by (intro mod_pos_pos_trivial) simp_all
    finally show ?thesis using False by simp
  qed
  finally show ?thesis by (simp add: to_int_def signed_take_bit_eq_take_bit_shift take_bit_eq_mod)
qed

theorem getspeed_spec:
  "getspeed (setstart t) t' len = (cs ''send done, total size = '' @ printf_d (sint len) @ [0x0D, 0x0A],
     let e = (usecs t' - usecs t) mod 2 ^ 32
     in if 0 < e \<and> e < 2 ^ 31 then Speed (of_nat (unat len) / of_int e) else Too_small)"
proof -
  let ?e = "usecs t' - usecs t"
  have r: "(tv_sec t' - tv_sec t) * 1000000 + (tv_usec t' - tv_usec t) = ?e" by (simp add: usecs_def algebra_simps)
  have "\<not> 4294967296 < ?e mod 4294967296" by (simp add: not_less less_imp_le)
  then show ?thesis unfolding getspeed_def setstart_def r Let_def to_int_mod [of ?e] by simp
qed

end
