(* ===== verification/Led_Module.thy ===== *)
theory Led_Module
  imports Led
begin

text \<open>
  The LED drivers as kernel modules (led_drv_init, led_drv_exit, timer_init and timer_function of
  ingenic_drv/led/led_drv.c, and the same functions of ingenic_drv/second/second_drv.c): what they
  register, the lines they hold and the timer that runs LED_CORL. The timer function is the
  parameter corl, so that both drivers are instances.

  The kernel counts jiffies in 32 bits; a timer that is pending runs when the counter reaches its
  expiry, in the same jiffy. class_create and device_create succeed.
\<close>

definition LED_SYS :: nat where "LED_SYS = 0"
definition LED_NET :: nat where "LED_NET = 2"
definition LED_UART :: nat where "LED_UART = 4"

lemmas led_lines [simp] = LED_SYS_def LED_NET_def LED_UART_def

record led_kernel =
  k_jiffies :: u32
  k_lines :: "nat \<Rightarrow> bytes option"
  k_chrdev :: "int option"
  k_class :: bool
  k_device :: bool
  k_pending :: bool
  k_timer :: led_timer

text \<open>gpio_request_one fails for a line that is held; the drivers do not look at the result.\<close>

definition gpio_request_one :: "nat \<Rightarrow> bytes \<Rightarrow> led_kernel \<Rightarrow> int \<times> led_kernel" where
  "gpio_request_one n label k =
     (if k_lines k n \<noteq> None then (- 16, k) else (0, k\<lparr>k_lines := (k_lines k)(n \<mapsto> label)\<rparr>))"

definition gpio_free :: "nat \<Rightarrow> led_kernel \<Rightarrow> led_kernel" where
  "gpio_free n k = k\<lparr>k_lines := (k_lines k)(n := None)\<rparr>"

text \<open>
  Loading the module. s are the globals of the driver before; major is what register_chrdev returns, a
  negative number when it fails, which is not checked either.
\<close>

definition led_module_init :: "leds \<Rightarrow> int \<Rightarrow> led_kernel \<Rightarrow> int \<times> led_kernel" where
  "led_module_init s major k =
     (let k = (if 0 \<le> major then k\<lparr>k_chrdev := Some major\<rparr> else k);
          k = k\<lparr>k_class := True\<rparr>;
          k = k\<lparr>k_device := True\<rparr>;
          (_, k) = gpio_request_one LED_SYS (cs ''led0'') k;
          (_, k) = gpio_request_one LED_NET (cs ''led1'') k;
          (_, k) = gpio_request_one LED_UART (cs ''led2'') k
      in (0, k\<lparr>k_timer := timer_init (k_jiffies k) 20 s, k_pending := True\<rparr>))"

definition led_module_exit :: "led_kernel \<Rightarrow> led_kernel" where
  "led_module_exit k =
     (let k = k\<lparr>k_chrdev := None\<rparr>;
          k = k\<lparr>k_device := False\<rparr>;
          k = k\<lparr>k_class := False\<rparr>;
          k = gpio_free 4 k;
          k = gpio_free 2 k;
          k = gpio_free 0 k
      in k\<lparr>k_pending := False\<rparr>)"

text \<open>timer_function with the timer function corl; mod_timer makes the timer pending again.\<close>

definition led_timer_function :: "(leds \<Rightarrow> leds) \<Rightarrow> led_kernel \<Rightarrow> led_kernel" where
  "led_timer_function corl k =
     k\<lparr>k_timer := (k_timer k)\<lparr>leds_of := corl (leds_of (k_timer k)), expires := k_jiffies k + t_10ms (k_timer k)\<rparr>,
       k_pending := True\<rparr>"

lemma led_timer_function_LED_CORL:
  "led_timer_function LED_CORL k = k\<lparr>k_timer := timer_function (k_jiffies k) (k_timer k), k_pending := True\<rparr>"
  by (simp add: led_timer_function_def timer_function_def)

text \<open>
  The same functions of ingenic_drv/second/second_drv.c, whose LEDs start in another state, and the
  program second/seconddrvtest.c, which writes three commands to the device; it goes on with the
  descriptor -1 when the device cannot be opened.
\<close>

definition second_timer_function :: "led_kernel \<Rightarrow> led_kernel" where
  "second_timer_function = led_timer_function second_LED_CORL"

definition second_module_init :: "int \<Rightarrow> led_kernel \<Rightarrow> int \<times> led_kernel" where
  "second_module_init = led_module_init second_init"

definition seconddrvtest :: "bool \<Rightarrow> int \<Rightarrow> leds \<Rightarrow> (bytes \<times> leds) option" where
  "seconddrvtest opened junk s =
     (if \<not> opened then Some (cs ''can't open!'' @ [0x0A], s)
      else do {
        (_, s) \<leftarrow> led_drv_write junk (Some (cs ''11'')) 2 s;
        (_, s) \<leftarrow> led_drv_write junk (Some (cs ''22'')) 2 s;
        (_, s) \<leftarrow> led_drv_write junk (Some (cs ''32'')) 2 s;
        Some ([], s)
      })"

section \<open>The module in the running kernel\<close>

definition next_jiffy :: "(leds \<Rightarrow> leds) \<Rightarrow> led_kernel \<Rightarrow> led_kernel" where
  "next_jiffy corl k =
     (let k = k\<lparr>k_jiffies := k_jiffies k + 1\<rparr> in
      if k_pending k \<and> expires (k_timer k) = k_jiffies k then led_timer_function corl (k\<lparr>k_pending := False\<rparr>) else k)"

text \<open>What happens to the module: a jiffy passes, or a program writes to the device.\<close>

datatype led_input = Jiffy | Dev_write "bytes option" nat

fun led_run :: "(leds \<Rightarrow> leds) \<Rightarrow> int \<Rightarrow> led_input list \<Rightarrow> led_kernel \<Rightarrow> led_kernel option" where
  "led_run corl junk [] k = Some k"
| "led_run corl junk (Jiffy # is) k = led_run corl junk is (next_jiffy corl k)"
| "led_run corl junk (Dev_write buf len # is) k = do {
     (_, s) \<leftarrow> led_drv_write junk buf len (leds_of (k_timer k));
     led_run corl junk is (k\<lparr>k_timer := (k_timer k)\<lparr>leds_of := s\<rparr>\<rparr>)
   }"

abbreviation led_count :: "led_kernel \<Rightarrow> u16" where
  "led_count k \<equiv> COUNT (leds_of (k_timer k))"

fun is_jiffy :: "led_input \<Rightarrow> bool" where
  "is_jiffy Jiffy = True"
| "is_jiffy (Dev_write _ _) = False"

text \<open>n jiffies after the module was loaded at j0 with the counter c.\<close>

definition led_clock :: "u32 \<Rightarrow> u16 \<Rightarrow> nat \<Rightarrow> led_kernel \<Rightarrow> bool" where
  "led_clock j0 c n k \<longleftrightarrow> k_pending k \<and> t_10ms (k_timer k) = 20 \<and> k_jiffies k = j0 + of_nat n \<and>
     expires (k_timer k) = j0 + of_nat (20 * Suc (n div 20)) \<and> led_count k = c + of_nat (n div 20)"

lemma led_clock_jiffy:
  assumes "led_clock j0 c n k" "\<And>s. COUNT (corl s) = COUNT s + 1"
  shows "led_clock j0 c (Suc n) (next_jiffy corl k)"
proof -
  let ?e = "20 * Suc (n div 20)"
  have le: "Suc n \<le> ?e" "?e - Suc n < 20"
    using mult_div_mod_eq [of 20 n] mod_less_divisor [of 20 n] by simp_all
  have small: "unat (of_nat m :: u32) = m" if "m < 20" for m
    using that by (simp add: unat_of_nat take_bit_nat_eq_self)
  have d: "(of_nat ?e :: u32) = of_nat (Suc n) \<longleftrightarrow> ?e = Suc n"
  proof
    assume "(of_nat ?e :: u32) = of_nat (Suc n)"
    then have "of_nat (?e - Suc n) = (0 :: u32)" using le(1) by (simp only: of_nat_diff) simp
    then have "unat (of_nat (?e - Suc n) :: u32) = 0" by (simp only: unat_0)
    moreover have "unat (of_nat (?e - Suc n) :: u32) = ?e - Suc n"
      by (rule small [OF le(2)])
    ultimately show "?e = Suc n" using le(1) by simp
  next
    assume "?e = Suc n"
    then show "(of_nat ?e :: u32) = of_nat (Suc n)" by (rule arg_cong)
  qed
  have cl: "k_pending k" "t_10ms (k_timer k) = 20" "k_jiffies k = j0 + of_nat n"
    "expires (k_timer k) = j0 + of_nat ?e" "led_count k = c + of_nat (n div 20)"
    using assms(1) unfolding led_clock_def by blast+
  have j: "k_jiffies k + 1 = j0 + of_nat (Suc n)" unfolding cl(3) by simp
  have fire: "expires (k_timer k) = k_jiffies k + 1 \<longleftrightarrow> ?e = Suc n"
    unfolding j cl(4) add_left_cancel by (rule d)
  show ?thesis
  proof (cases "?e = Suc n")
    case True
    have q: "Suc n div 20 = Suc (n div 20)" unfolding True [symmetric] by (rule nonzero_mult_div_cancel_left) simp
    have "j0 + of_nat (Suc n) + 20 = (j0 + of_nat (20 * Suc (Suc (n div 20))) :: u32)"
      unfolding True [symmetric] by simp
    moreover have "c + of_nat (n div 20) + 1 = (c + of_nat (Suc (n div 20)) :: u16)" by simp
    moreover have "next_jiffy corl k = led_timer_function corl (k\<lparr>k_jiffies := k_jiffies k + 1, k_pending := False\<rparr>)"
      using cl(1) fire True by (simp add: next_jiffy_def Let_def)
    ultimately show ?thesis
      unfolding led_clock_def q using cl(2,5) j by (simp add: led_timer_function_def assms(2))
  next
    case False
    have q: "Suc n div 20 = n div 20"
    proof -
      have "Suc (n mod 20) \<noteq> 20" using False by presburger
      then show ?thesis by (simp add: div_Suc mod_Suc)
    qed
    have "next_jiffy corl k = k\<lparr>k_jiffies := k_jiffies k + 1\<rparr>" using fire False by (simp add: next_jiffy_def Let_def)
    then show ?thesis unfolding led_clock_def q using cl j by simp
  qed
qed

lemma led_clock_run:
  assumes "\<And>s. COUNT (corl s) = COUNT s + 1"
  shows "led_clock j0 c n k \<Longrightarrow> led_run corl junk is k = Some k' \<Longrightarrow>
    led_clock j0 c (n + length (filter is_jiffy is)) k' \<and> k_lines k' = k_lines k \<and> k_chrdev k' = k_chrdev k"
proof (induction "is" arbitrary: n k)
  case (Cons i "is")
  show ?case
  proof (cases i)
    case Jiffy
    have "led_run corl junk is (next_jiffy corl k) = Some k'" using Cons.prems(2) Jiffy by simp
    from Cons.IH [OF led_clock_jiffy [where corl = corl, OF Cons.prems(1) assms] this] show ?thesis
      by (simp add: Jiffy next_jiffy_def led_timer_function_def Let_def)
  next
    case (Dev_write buf len)
    with Cons.prems(2) obtain r s where w: "led_drv_write junk buf len (leds_of (k_timer k)) = Some (r, s)"
      "led_run corl junk is (k\<lparr>k_timer := (k_timer k)\<lparr>leds_of := s\<rparr>\<rparr>) = Some k'"
      by (auto elim!: bind_SomeE)
    have "COUNT s = COUNT (leds_of (k_timer k))" by (rule led_drv_write_cases [OF w(1)]) simp_all
    then have "led_clock j0 c n (k\<lparr>k_timer := (k_timer k)\<lparr>leds_of := s\<rparr>\<rparr>)"
      using Cons.prems(1) by (simp add: led_clock_def)
    from Cons.IH [OF this w(2)] show ?thesis by (simp add: Dev_write)
  qed
qed simp


section \<open>Properties\<close>

lemma corl_counts: "COUNT (LED_CORL s) = COUNT s + 1" "COUNT (second_LED_CORL s) = COUNT s + 1"
  by (simp_all add: LED_CORL_simps second_LED_CORL_def second_uart_def second_gprs_def corl_sys_def Let_def)


definition idle_kernel :: led_kernel where
  "idle_kernel = \<lparr>k_jiffies = 0xFFFFFFF0, k_lines = (\<lambda>n. None), k_chrdev = None, k_class = False, k_device = False,
     k_pending = False, k_timer = timer_init 0 0 led_drv_init\<rparr>"


text \<open>C23. Loading, running and unloading a module gives back what it took: the lines, the timer and the device
  are free, and no jiffy changes the LEDs any more. A line that another driver held when the
  module was loaded is freed too, although the module never got it.\<close>

theorem led_module_unload:
  assumes "led_module_init s major k0 = (r, k)" "led_run corl junk is k = Some k1"
    and "corl = LED_CORL \<or> corl = second_LED_CORL"
  shows "k_lines (led_module_exit k1) = (k_lines k0)(LED_SYS := None, LED_NET := None, LED_UART := None) \<and>
    k_chrdev (led_module_exit k1) = None \<and> \<not> k_device (led_module_exit k1) \<and> \<not> k_class (led_module_exit k1) \<and>
    k_timer ((next_jiffy corl ^^ n) (led_module_exit k1)) = k_timer k1"
proof -
  have c: "\<And>s. COUNT (corl s) = COUNT s + 1" using assms(3) corl_counts by auto
  have "led_clock (k_jiffies k0) (COUNT s) 0 k" and l: "\<forall>n. n \<notin> {0, 2, 4} \<longrightarrow> k_lines k n = k_lines k0 n"
    using assms(1) by (auto simp: led_module_init_def led_clock_def timer_init_def gpio_request_one_def Let_def
      split: prod.splits if_splits)
  from led_clock_run [OF c this(1) assms(2)] have "k_lines k1 = k_lines k" by simp
  then have "k_lines (led_module_exit k1) = (k_lines k0)(LED_SYS := None, LED_NET := None, LED_UART := None)"
    using l by (auto simp: led_module_exit_def gpio_free_def Let_def fun_eq_iff)
  moreover have "k_timer ((next_jiffy corl ^^ n) (led_module_exit k1)) = k_timer k1 \<and>
      \<not> k_pending ((next_jiffy corl ^^ n) (led_module_exit k1))"
    by (induction n) (simp_all add: next_jiffy_def led_module_exit_def gpio_free_def Let_def)
  ultimately show ?thesis by (simp add: led_module_exit_def gpio_free_def Let_def)
qed

theorem led_module_unload_witness:
  "k_lines (led_module_exit (snd (led_module_init led_drv_init 250 (idle_kernel\<lparr>k_lines := [2 \<mapsto> cs ''modem'', 7 \<mapsto> cs ''key'']\<rparr>)))) =
    [7 \<mapsto> cs ''key'']"
proof -
  let ?k0 = "idle_kernel\<lparr>k_lines := [2 \<mapsto> cs ''modem'', 7 \<mapsto> cs ''key'']\<rparr>"
  have i: "led_module_init led_drv_init 250 ?k0 = (0, snd (led_module_init led_drv_init 250 ?k0))"
    by (simp add: led_module_init_def gpio_request_one_def Let_def split_beta)
  have "led_run LED_CORL 0 [] (snd (led_module_init led_drv_init 250 ?k0)) = Some (snd (led_module_init led_drv_init 250 ?k0))"
    by simp
  from led_module_unload [OF i this] show ?thesis by (auto simp: fun_eq_iff)
qed

text \<open>What the test program sets, and that the driver stays inside its buffer.\<close>

theorem seconddrvtest_sets:
  "seconddrvtest True junk s = Some ([], s\<lparr>LED_GPRS_STATE := 1, LED_SYS_STATE := 2, LED_UART_STATE := 2\<rparr>)"
proof -
  have w: "mem_put (bzero 4) 0 [a, b] = Some [a, b, 0, 0]" for a b
    by (simp add: mem_put_def bzero_def numeral_eq_Suc)
  show ?thesis by (simp add: seconddrvtest_def led_drv_write_def cs_def of_char_def w)
qed

end
