(* ===== verification/Processes.thy ===== *)
theory Processes
  imports Stdio
begin

text \<open>
  Programs about descriptors, streams and processes: pipe/dup.c, pipe/dup2.cpp, file-io/demo.cpp,
  file-io/fdopen.cpp and fork/exec.c.

  Descriptors are names of open files: two descriptors made by dup share one offset. So the model
  has a table of descriptors that holds the numbers of open files, and a store of open files with
  their offsets. A number that was used is not used again.
\<close>

section \<open>Descriptors that share an open file\<close>

datatype open_file = Terminal | Regular bytes nat

record system =
  fd_table :: "nat option list"
  open_files :: "open_file list"
  file_contents :: "bytes \<Rightarrow> bytes option"
  screen :: bytes

fun free_slot :: "nat option list \<Rightarrow> nat option" where
  "free_slot [] = None"
| "free_slot (None # t) = Some 0"
| "free_slot (Some f # t) = map_option Suc (free_slot t)"

definition target :: "int \<Rightarrow> system \<Rightarrow> nat option" where
  "target fd s = (if 0 \<le> fd \<and> nat fd < length (fd_table s) then fd_table s ! nat fd else None)"

text \<open>open with O_RDWR and O_CREAT; None for a name that cannot be opened is the argument may.\<close>

definition open_rw_creat :: "bool \<Rightarrow> bytes \<Rightarrow> system \<Rightarrow> int \<times> system" where
  "open_rw_creat may path s =
     (case free_slot (fd_table s) of
        Some k \<Rightarrow>
          if may then
            (int k, s\<lparr>fd_table := (fd_table s)[k := Some (length (open_files s))],
               open_files := open_files s @ [Regular path 0],
               file_contents := (file_contents s)(path := Some (case file_contents s path of None \<Rightarrow> [] | Some c \<Rightarrow> c))\<rparr>)
          else (- 1, s)
      | None \<Rightarrow> (- 1, s))"

definition dup_fd :: "int \<Rightarrow> system \<Rightarrow> int \<times> system" where
  "dup_fd fd s = (case (target fd s, free_slot (fd_table s)) of
     (Some f, Some k) \<Rightarrow> (int k, s\<lparr>fd_table := (fd_table s)[k := Some f]\<rparr>)
   | _ \<Rightarrow> (- 1, s))"

definition dup2_fd :: "int \<Rightarrow> int \<Rightarrow> system \<Rightarrow> int \<times> system" where
  "dup2_fd fd newfd s = (case target fd s of
     Some f \<Rightarrow>
       if 0 \<le> newfd \<and> nat newfd < length (fd_table s)
       then (newfd, s\<lparr>fd_table := (fd_table s)[nat newfd := Some f]\<rparr>) else (- 1, s)
   | None \<Rightarrow> (- 1, s))"

text \<open>The bytes b over the contents c from the offset on.\<close>

definition overwrite :: "bytes \<Rightarrow> nat \<Rightarrow> bytes \<Rightarrow> bytes" where
  "overwrite c off b = take off c @ bzero (off - length c) @ b @ drop (off + length b) c"

definition write_sys :: "int \<Rightarrow> bytes \<Rightarrow> system \<Rightarrow> int \<times> system" where
  "write_sys fd b s = (case target fd s of
     None \<Rightarrow> (- 1, s)
   | Some f \<Rightarrow> (case open_files s ! f of
       Terminal \<Rightarrow> (int (length b), s\<lparr>screen := screen s @ b\<rparr>)
     | Regular path off \<Rightarrow>
         (int (length b), s\<lparr>open_files := (open_files s)[f := Regular path (off + length b)],
            file_contents := (file_contents s)(path := map_option (\<lambda>c. overwrite c off b) (file_contents s path))\<rparr>)))"

definition close_sys :: "int \<Rightarrow> system \<Rightarrow> int \<times> system" where
  "close_sys fd s = (case target fd s of
     None \<Rightarrow> (- 1, s)
   | Some f \<Rightarrow> (0, s\<lparr>fd_table := (fd_table s)[nat fd := None]\<rparr>))"

section \<open>dup.c\<close>

definition bufFD :: bytes where "bufFD = cs ''Advanced Programming! write by fd'' @ [0x0A]"
definition bufNewFD :: bytes where "bufNewFD = cs ''Advanced Programming! write by NewFD'' @ [0x0A]"

text \<open>may: whether test.txt can be opened; message: what %m prints.\<close>

definition dup_main :: "bool \<Rightarrow> bytes \<Rightarrow> system \<Rightarrow> int \<times> system" where
  "dup_main may message s =
     (let (fd, s) = open_rw_creat may (cs ''test.txt'') s in
      if fd = - 1 then (- 1, snd (write_sys 1 (cs ''open file error'' @ message @ [0x0A]) s))
      else
        let (newfd, s) = dup_fd fd s;
            (_, s) = write_sys fd bufFD s;
            (_, s) = close_sys fd s;
            (_, s) = write_sys newfd bufNewFD s;
            (r, s) = close_sys newfd s
        in (0, if r = - 1 then snd (write_sys 1 (cs ''close error'' @ [0x0A]) s) else s))"

section \<open>dup2.cpp\<close>

text \<open>The text of the messages is UTF-8. Nothing is printed before the descriptor is replaced, so that all
  output goes where it points to afterwards.\<close>

definition return_value_text :: bytes where
  "return_value_text = cs ''dup2'' @ [0xE7, 0x9A, 0x84, 0xE8, 0xBF, 0x94, 0xE5, 0x9B, 0x9E, 0xE5, 0x80, 0xBC]"

definition stdout_to_file :: "bool \<Rightarrow> bytes \<Rightarrow> bytes \<Rightarrow> system \<Rightarrow> int \<times> system" where
  "stdout_to_file may message file_name s =
     (let (fd, s) = open_rw_creat may file_name s in
      if fd = - 1 then (- 1, snd (write_sys 1 (cs ''open file error:'' @ message @ [0x0A]) s))
      else
        let (refd, s) = dup2_fd fd 1 s in
        if refd = - 1 then (- 1, snd (write_sys 1 (cs ''redirect standard out error:'' @ message @ [0x0A]) s))
        else (0, snd (write_sys 1 (return_value_text @ [0x0A]) s)))"

definition dup2_main :: "bool \<Rightarrow> bytes \<Rightarrow> system \<Rightarrow> int \<times> system" where
  "dup2_main may message s =
     (let (fd, s) = stdout_to_file may message (cs ''stdoutlog'') s;
          (_, s) = write_sys 1 (cs ''dup2 stdout test'' @ [0x0A]) s;
          (_, s) = write_sys 1 (return_value_text @ [0xEF, 0xBC, 0x9A] @ printf_d fd @ [0x0A]) s
      in (0, s))"

section \<open>demo.cpp and fdopen.cpp of file-io\<close>

text \<open>The stream is at the beginning after fopen with r+ and after fseek; all 100 bytes of the array are written.\<close>

definition demo_msg :: bytes where
  "demo_msg = cs ''Hello!I have read this file.'' @ [0x0A]"

definition demo_main :: "system \<Rightarrow> int \<times> system" where
  "demo_main s = (case file_contents s (cs ''test.txt'') of
     None \<Rightarrow> (1, snd (write_sys 1 (cs ''open file test.txt failed!'' @ [0x0A]) s))
   | Some c \<Rightarrow>
       let s = snd (write_sys 1 (cs ''open file test.txt succeed!'' @ [0x0A]) s);
           msg = demo_msg @ bzero (100 - length demo_msg);
           c = overwrite c 0 msg;
           s = s\<lparr>file_contents := (file_contents s)(cs ''test.txt'' \<mapsto> c)\<rparr>;
           read = take 100 c
       in (0, snd (write_sys 1 (cs ''read = '' @ cstr read @ [0x0D, 0x0A]) s)))"

definition fdopen_main :: "system \<Rightarrow> system" where
  "fdopen_main s = snd (close_sys 0 (snd (write_sys 0 (cs ''hello!'' @ [0x0A]) s)))"

section \<open>fork/exec.c\<close>

text \<open>
  A process with what fork copies: the output that stdio has buffered is copied too. fork1 and fork2
  are the numbers of the new processes, None when fork fails; tty tells whether stdout is a
  terminal, which is written line by line. out is what was printed by all processes.
\<close>

record process =
  pid :: nat
  pgid :: nat
  sid :: nat
  sighup_ignored :: bool
  cwd :: bytes
  umask :: nat
  fds_open :: "bool list"
  log_ident :: "bytes option"
  outbuf :: bytes

definition print_to :: "bool \<Rightarrow> bytes \<Rightarrow> process \<Rightarrow> bytes \<Rightarrow> process \<times> bytes" where
  "print_to tty s p out = (if tty then (p, out @ s) else (p\<lparr>outbuf := outbuf p @ s\<rparr>, out))"

text \<open>exit writes what is buffered, as long as the descriptor is open.\<close>

definition exit_flush :: "process \<Rightarrow> bytes \<Rightarrow> bytes" where
  "exit_flush p out = (if 1 < length (fds_open p) \<and> fds_open p ! 1 then out @ outbuf p else out)"

definition setsid :: "process \<Rightarrow> process" where
  "setsid p = (if pgid p = pid p then p else p\<lparr>sid := pid p, pgid := pid p\<rparr>)"

definition MAXFD :: nat where "MAXFD = 64"

function close_loop :: "nat \<Rightarrow> process \<Rightarrow> process" where
  "close_loop i p = (if i < MAXFD then close_loop (Suc i) (p\<lparr>fds_open := (fds_open p)[i := False]\<rparr>) else p)"
  by auto
termination by (relation "measure (\<lambda>(i, _). MAXFD - i)") auto

text \<open>The processes that have ended with their status, the daemon, and the output.\<close>

definition daemon_init ::
  "bytes \<Rightarrow> nat option \<Rightarrow> nat option \<Rightarrow> bool \<Rightarrow> process \<Rightarrow> bytes \<Rightarrow> (nat \<times> int) list \<times> process option \<times> bytes" where
  "daemon_init pname fork1 fork2 tty p out =
     (case fork1 of
        None \<Rightarrow> ([(pid p, 0)], None, exit_flush p out)
      | Some c1 \<Rightarrow>
          let out = exit_flush p out;
              q = p\<lparr>pid := c1\<rparr>;
              (q, out) = print_to tty (cs ''pid = 0'' @ [0x0D, 0x0A]) q out;
              q = setsid q;
              q = q\<lparr>sighup_ignored := True\<rparr>
          in case fork2 of
               None \<Rightarrow> ([(pid p, 0), (pid q, 0)], None, exit_flush q out)
             | Some c2 \<Rightarrow>
                 let out = exit_flush q out;
                     d = q\<lparr>pid := c2\<rparr>;
                     d = d\<lparr>cwd := cs ''/''\<rparr>;
                     d = d\<lparr>umask := 0\<rparr>;
                     d = close_loop 0 d;
                     d = d\<lparr>log_ident := Some pname\<rparr>
                 in ([(pid p, 0), (pid q, 0)], Some d, out))"

text \<open>main: the daemon returns from main at once.\<close>

definition exec_main ::
  "nat option \<Rightarrow> nat option \<Rightarrow> bool \<Rightarrow> process \<Rightarrow> (nat \<times> int) list \<times> process option \<times> bytes" where
  "exec_main fork1 fork2 tty p =
     (case daemon_init (cs ''hello world'' @ [0x0D, 0x0A]) fork1 fork2 tty p [] of
        (ended, None, out) \<Rightarrow> (ended, None, out)
      | (ended, Some d, out) \<Rightarrow> (ended, Some d, exit_flush d out))"

section \<open>Lemmas\<close>

lemma free_slot_SomeD: "free_slot t = Some k \<Longrightarrow> k < length t \<and> t ! k = None"
  by (induction t arbitrary: k rule: free_slot.induct) (auto simp: less_Suc_eq_0_disj)

lemma overwrite_twice: "overwrite (overwrite c 0 a) (length a) b = overwrite c 0 (a @ b)"
  by (simp add: overwrite_def bzero_def add.commute)

lemma length_close_loop [simp]: "length (fds_open (close_loop i p)) = length (fds_open p)"
  by (induction i p rule: close_loop.induct) (subst close_loop.simps, simp)

declare close_loop.simps [simp del]

lemma close_loop_nth:
  "i \<le> MAXFD \<Longrightarrow> j < length (fds_open p) \<Longrightarrow>
   fds_open (close_loop i p) ! j = (if i \<le> j \<and> j < MAXFD then False else fds_open p ! j)"
proof (induction i p rule: close_loop.induct)
  case (1 i p)
  show ?case
  proof (cases "i < MAXFD")
    case True
    then show ?thesis using 1 by (subst close_loop.simps) (auto simp: nth_list_update)
  next
    case False
    then show ?thesis using 1 by (subst close_loop.simps) auto
  qed
qed

lemma close_loop_others [simp]:
  "pid (close_loop i p) = pid p" "sid (close_loop i p) = sid p" "pgid (close_loop i p) = pgid p"
  "cwd (close_loop i p) = cwd p" "umask (close_loop i p) = umask p"
  "sighup_ignored (close_loop i p) = sighup_ignored p" "outbuf (close_loop i p) = outbuf p"
  by (induction i p rule: close_loop.induct; subst close_loop.simps; simp)+

section \<open>Properties\<close>

text \<open>dup.c: the two descriptors share one offset, so that the second text follows the first, over the old
  contents of the file, whose rest stays. With a single free descriptor dup fails: only the first
  text is written, and closing the descriptor that does not exist is reported. With none the
  program ends with status -1 (255 for the shell). The table of descriptors ends as it was.\<close>

theorem dup_shares_offset:
  assumes s: "file_contents s (cs ''test.txt'') = Some c" "fd_table s ! 1 = Some t" "1 < length (fd_table s)"
    "t < length (open_files s)" "open_files s ! t = Terminal" and k: "free_slot (fd_table s) = Some k"
  shows "\<exists>s'. dup_main True m s = (0, s') \<and> fd_table s' = fd_table s \<and>
    (if free_slot ((fd_table s)[k := Some (length (open_files s))]) = None
     then file_contents s' = (file_contents s)(cs ''test.txt'' \<mapsto> overwrite c 0 bufFD) \<and>
       screen s' = screen s @ cs ''close error'' @ [0x0A]
     else file_contents s' = (file_contents s)(cs ''test.txt'' \<mapsto> overwrite c 0 (bufFD @ bufNewFD)) \<and>
       screen s' = screen s)"
proof -
  let ?n = "length (open_files s)" and ?f = "cs ''test.txt''"
  note k' = free_slot_SomeD [OF k]
  have k1: "k \<noteq> 1" using k' s(2) by auto
  let ?s1 = "s\<lparr>fd_table := (fd_table s)[k := Some ?n], open_files := open_files s @ [Regular ?f 0],
      file_contents := (file_contents s)(?f := Some c)\<rparr>"
  have op: "open_rw_creat True ?f s = (int k, ?s1)" using k s(1) by (simp add: open_rw_creat_def)
  have rest1: "(fd_table s)[k := None] = fd_table s" using k' by (metis list_update_id)
  show ?thesis
  proof (cases "free_slot ((fd_table s)[k := Some ?n])")
    case None
    then show ?thesis
      using op k' k1 s rest1
      by (simp add: dup_main_def Let_def dup_fd_def target_def write_sys_def close_sys_def nth_append)
  next
    case (Some j)
    note j = free_slot_SomeD [OF Some]
    have jk: "j \<noteq> k" using j k' by auto
    have j0: "fd_table s ! j = None" "j < length (fd_table s)" using j jk by auto
    have rest2: "(fd_table s)[k := None, j := None] = fd_table s" using j0 by (metis rest1 list_update_id)
    show ?thesis
      using op Some k' k1 j0 jk s rest1 rest2 overwrite_twice [of c bufFD bufNewFD, symmetric]
      by (simp add: dup_main_def Let_def dup_fd_def target_def write_sys_def close_sys_def
          list_update_swap [of j k])
  qed
qed

definition small_system :: system where
  "small_system = \<lparr>fd_table = [Some 0, Some 0, Some 0, None, None], open_files = [Terminal],
     file_contents = [cs ''test.txt'' \<mapsto> replicate 72 0x2E], screen = []\<rparr>"

theorem dup_shares_offset_witness:
  "\<exists>s'. dup_main True [] small_system = (0, s') \<and>
    file_contents s' (cs ''test.txt'') = Some (bufFD @ bufNewFD @ [0x2E])"
proof -
  have "length bufFD = 34" "length bufNewFD = 37" by (simp_all add: bufFD_def bufNewFD_def cs_def)
  then have e: "overwrite (replicate 72 0x2E) 0 (bufFD @ bufNewFD) = bufFD @ bufNewFD @ [0x2E]"
    by (simp add: overwrite_def bzero_def)
  show ?thesis
    using dup_shares_offset [of small_system "replicate 72 0x2E" 0 3 "[]"] e
    by (auto simp: small_system_def numeral_eq_Suc)
qed

text \<open>dup2.cpp: after the redirection every line goes to the file and none to the screen, the
  value printed is 0, and the first descriptor stays open.\<close>

theorem dup2_redirects:
  assumes k: "free_slot (fd_table s) = Some k" "1 < length (fd_table s)" "k \<noteq> 1"
    and c: "file_contents s (cs ''stdoutlog'') = Some c"
  shows "\<exists>s'. dup2_main True m s = (0, s') \<and> screen s' = screen s \<and>
    file_contents s' = (file_contents s)(cs ''stdoutlog'' \<mapsto> overwrite c 0 (return_value_text @ [0x0A] @
      cs ''dup2 stdout test'' @ [0x0A] @ return_value_text @ [0xEF, 0xBC, 0x9A, 0x30, 0x0A])) \<and>
    fd_table s' = (fd_table s)[k := Some (length (open_files s)), 1 := Some (length (open_files s))]"
proof -
  note k' = free_slot_SomeD [OF k(1)]
  have twice: "overwrite (overwrite c 0 a) (length a) b = overwrite c 0 (a @ b)" for a b
    by (rule overwrite_twice)
  have z: "printf_d 0 = [0x30]" by (simp add: printf_d_def digits.simps)
  let ?a = "return_value_text @ [0x0A]" and ?b = "cs ''dup2 stdout test'' @ [0x0A]"
  let ?d = "return_value_text @ [0xEF, 0xBC, 0x9A, 0x30, 0x0A]"
  have ow: "overwrite (overwrite c 0 ?a) (length ?a) ?b = overwrite c 0 (?a @ ?b)"
    "overwrite (overwrite c 0 (?a @ ?b)) (length (?a @ ?b)) ?d = overwrite c 0 ((?a @ ?b) @ ?d)"
    by (rule twice)+
  show ?thesis
    using k k' c ow z
    by (simp add: dup2_main_def stdout_to_file_def Let_def open_rw_creat_def dup2_fd_def target_def write_sys_def
        nth_append)
qed

text \<open>demo.cpp: what was written is read back up to the zeros behind the text; the rest of a longer
  file stays.\<close>

theorem demo_reads_back:
  assumes "file_contents s (cs ''test.txt'') = Some c" "fd_table s ! 1 = Some t" "1 < length (fd_table s)"
    and "open_files s ! t = Terminal"
  shows "\<exists>s'. demo_main s = (0, s') \<and>
    screen s' = screen s @ cs ''open file test.txt succeed!'' @ [0x0A] @ cs ''read = '' @ demo_msg @ [0x0D, 0x0A] \<and>
    file_contents s' = (file_contents s)(cs ''test.txt'' \<mapsto> demo_msg @ bzero 71 @ drop 100 c)"
proof -
  have m: "length demo_msg = 29" "0 \<notin> set demo_msg" by (simp_all add: demo_msg_def cs_def of_char_def)
  have "bzero 71 = 0 # bzero 70" by (simp add: bzero_def numeral_eq_Suc)
  then have r: "cstr (take 100 (demo_msg @ bzero 71 @ drop 100 c)) = demo_msg"
    using m by (simp add: cstr_append_zero)
  show ?thesis
    using assms m r by (simp add: demo_main_def Let_def write_sys_def target_def overwrite_def bzero_def)
qed

text \<open>C32. daemon_init. When both forks succeed, the daemon runs in the session of the middle process without
  being its leader, so that it never gets a controlling terminal; it ignores SIGHUP, works in / with
  an empty mask, has none of the first 64 descriptors open, and logs under its name; the other two
  have exited with 0. The line with the number is printed once, by the middle process, also when
  stdout is buffered and the buffer was copied to the daemon. When a fork fails there is no
  daemon, and the exit status is 0 all the same.\<close>

theorem daemon_detached:
  assumes p: "outbuf p = []" "1 < length (fds_open p)" "fds_open p ! 1" "pgid p \<noteq> c1" "c2 \<noteq> c1"
  defines "line \<equiv> cs ''pid = 0'' @ [0x0D, 0x0A]"
  shows "daemon_init pname None fork2 tty p out = ([(pid p, 0)], None, out) \<and>
    daemon_init pname (Some c1) None tty p out = ([(pid p, 0), (c1, 0)], None, out @ line) \<and>
    (\<exists>q. daemon_init pname (Some c1) (Some c2) tty p out = ([(pid p, 0), (c1, 0)], Some q, out @ line) \<and>
       pid q = c2 \<and> sid q = c1 \<and> pgid q = c1 \<and> sighup_ignored q \<and> cwd q = cs ''/'' \<and> umask q = 0 \<and>
       log_ident q = Some pname \<and> length (fds_open q) = length (fds_open p) \<and>
       (\<forall>i < length (fds_open q). i < MAXFD \<longrightarrow> \<not> fds_open q ! i) \<and> exit_flush q (out @ line) = out @ line)"
proof (intro conjI)
  show "daemon_init pname None fork2 tty p out = ([(pid p, 0)], None, out)"
    using p by (simp add: daemon_init_def exit_flush_def)
  show "daemon_init pname (Some c1) None tty p out = ([(pid p, 0), (c1, 0)], None, out @ line)"
    using p by (simp add: daemon_init_def exit_flush_def print_to_def setsid_def Let_def line_def)
  have *: "fds_open (close_loop 0 r) ! i = False" if "i < length (fds_open r)" "i < 64" for r i
    using close_loop_nth [of 0 i r] that by (simp add: MAXFD_def)
  show "\<exists>q. daemon_init pname (Some c1) (Some c2) tty p out = ([(pid p, 0), (c1, 0)], Some q, out @ line) \<and>
       pid q = c2 \<and> sid q = c1 \<and> pgid q = c1 \<and> sighup_ignored q \<and> cwd q = cs ''/'' \<and> umask q = 0 \<and>
       log_ident q = Some pname \<and> length (fds_open q) = length (fds_open p) \<and>
       (\<forall>i < length (fds_open q). i < MAXFD \<longrightarrow> \<not> fds_open q ! i) \<and> exit_flush q (out @ line) = out @ line"
    using p by (simp add: daemon_init_def exit_flush_def print_to_def setsid_def Let_def line_def * MAXFD_def)
qed

theorem daemon_detached_witness:
  "\<exists>q. daemon_init (cs ''d'') (Some 11) (Some 12) False \<lparr>pid = 10, pgid = 10, sid = 5, sighup_ignored = False,
      cwd = cs ''/tmp'', umask = 18, fds_open = [True, True, True], log_ident = None, outbuf = []\<rparr> [] =
     ([(10, 0), (11, 0)], Some q, cs ''pid = 0'' @ [0x0D, 0x0A]) \<and> sid q = 11 \<and> pid q = 12 \<and> \<not> fds_open q ! 1"
  using daemon_detached [of "\<lparr>pid = 10, pgid = 10, sid = 5, sighup_ignored = False,
      cwd = cs ''/tmp'', umask = 18, fds_open = [True, True, True], log_ident = None, outbuf = []\<rparr>" 11 12 "cs ''d''" None False "[]"]
  by (auto simp: MAXFD_def)

end
