(* ===== verification/ConnTests.thy ===== *)
theory ConnTests
  imports Stdio
begin

text \<open>
  The connection tests of filesend/tcpudptestcode and filesend/udpfilesend/back: programs that send
  blocks as fast as they can, and programs that count what arrives. What the calls of the system
  return is an argument; the result None is an overflow of the counter. Programs whose loop has no
  end are given the results of the calls that are made.
\<close>

section \<open>The udp tests\<close>

text \<open>One line for every call that delivers something; the buffer is not looked at.\<close>

definition next_num :: "int \<Rightarrow> int option" where
  "next_num n = (if n = 2147483647 then None else Some (n + 1))"

fun udp_count :: "int \<Rightarrow> int list \<Rightarrow> bytes option" where
  "udp_count num [] = Some []"
| "udp_count num (n # ns) =
     (if 0 < n then do {
        num' \<leftarrow> next_num num;
        out \<leftarrow> udp_count num' ns;
        Some (cs ''num='' @ printf_d num @ cs '' len='' @ printf_d n @ [0x0D, 0x0A] @ out)
      }
      else udp_count num ns)"

definition udp_test_server :: "int list \<Rightarrow> bytes option" where
  "udp_test_server received = do {
     out \<leftarrow> udp_count 0 received;
     Some (cs ''client is connect'' @ [0x0D, 0x0A] @ out)
   }"

text \<open>The version under back looks at the socket; the error message goes to stderr.\<close>

definition back_udp_server :: "int \<Rightarrow> int list \<Rightarrow> (int + bytes) option" where
  "back_udp_server sockfd received =
     (if sockfd < 0 then Some (Inl (- 1))
      else do {
        out \<leftarrow> udp_count 0 received;
        Some (Inr (cs ''client is connect'' @ [0x0D, 0x0A] @ out))
      })"

text \<open>The clients: the result is the exit status and what was printed.\<close>

definition udp_test_client :: "bytes list \<Rightarrow> int list \<Rightarrow> (int option \<times> bytes) option" where
  "udp_test_client argv sent =
     (if length argv \<noteq> 2
      then Some (Some 1, cs ''Usage: '' @ hd argv @ cs '' server_ip'' @ [0x0A])
      else do {
        out \<leftarrow> udp_count 0 sent;
        Some (None, out)
      })"

section \<open>The tcp server\<close>

text \<open>
  One connection, for the results of recv: the number of the next block when the connection has
  ended, None while recv still waits.
\<close>

fun recv_conn :: "int \<Rightarrow> int list \<Rightarrow> (bytes \<times> int option) option" where
  "recv_conn num [] = Some ([], None)"
| "recv_conn num (recv_len # rs) =
     (if recv_len = 0 then Some ([], Some num)
      else if recv_len < 0
      then Some (cs ''Recieve Data From Server Failed!'' @ [0x0A], Some num)
      else do {
        num' \<leftarrow> next_num num;
        (out, r) \<leftarrow> recv_conn num' rs;
        Some (cs ''num = '' @ printf_d num @ cs '' recv = '' @ printf_d recv_len @ [0x0A] @ out, r)
      })"

datatype srv_state = Waiting | Exited int

text \<open>
  The loop over the connections: whether the file can be opened, and the results of recv when
  accept succeeds. Opening with a+ makes the file; nothing is written to it.
\<close>

fun serve_conns :: "int \<Rightarrow> bytes option \<Rightarrow> (bool \<times> int list option) list \<Rightarrow>
    (bytes \<times> bytes option \<times> srv_state) option" where
  "serve_conns num file [] = Some ([], file, Waiting)"
| "serve_conns num file ((opened, conn) # conns) =
     (if \<not> opened then Some ([], file, Exited 0)
      else
        let file = Some (case file of None \<Rightarrow> [] | Some c \<Rightarrow> c) in
        case conn of
          None \<Rightarrow> Some ([], file, Exited 0)
        | Some rs \<Rightarrow> do {
            (out, r) \<leftarrow> recv_conn num rs;
            case r of
              None \<Rightarrow> Some (out, file, Waiting)
            | Some num \<Rightarrow> do {
                (out', file, st) \<leftarrow> serve_conns num file conns;
                Some (out @ [0x0A] @ cs ''Finish Recieve'' @ [0x0A] @ out', file, st)
              }
          })"

definition tcp_test_server ::
  "bytes list \<Rightarrow> bool \<Rightarrow> bool \<Rightarrow> bool \<Rightarrow> bytes option \<Rightarrow> (bool \<times> int list option) list \<Rightarrow>
    (bytes \<times> bytes option \<times> srv_state) option" where
  "tcp_test_server argv sock_ok bind_ok listen_ok file conns =
     (if length argv \<noteq> 3
      then Some (cs ''usage :'' @ hd argv @ cs '' portnum filename'' @ [0x0A], file, Exited 0)
      else if \<not> sock_ok then Some ([], file, Exited 0)
      else if \<not> bind_ok then Some ([], file, Exited 0)
      else if \<not> listen_ok then Some ([], file, Exited 0)
      else serve_conns 0 file conns)"

section \<open>The tcp client\<close>

text \<open>
  The loop after the connection has no end: the array of zeros is sent again and again, results are
  not looked at, and the loop over the file behind it is never reached. The results of send are the
  bytes taken, negative for an error. Result: the exit status, what was printed and what was sent.
\<close>

fun send_zeros :: "bytes \<Rightarrow> int list \<Rightarrow> bytes" where
  "send_zeros buf [] = []"
| "send_zeros buf (send_len # rs) = take (nat send_len) buf @ send_zeros buf rs"

definition tcp_test_client :: "bytes list \<Rightarrow> bytes option \<Rightarrow> bool \<Rightarrow> bool \<Rightarrow> int list \<Rightarrow> int option \<times> bytes \<times> bytes" where
  "tcp_test_client argv file sock_ok connect_ok results =
     (if length argv \<noteq> 4
      then (Some 0, cs ''usage :'' @ hd argv @ cs '' ipaddr portnum filename'' @ [0x0A], [])
      else if file = None then (Some 0, [], [])
      else if \<not> sock_ok then (Some 0, [], [])
      else if \<not> connect_ok then (Some (- 1), cs ''Connect socket failed'' @ [0x0A], [])
      else (None, [], send_zeros (bzero 1024) results))"

section \<open>What the counters show\<close>

definition numbered :: "(int \<Rightarrow> int \<Rightarrow> bytes) \<Rightarrow> nat \<Rightarrow> int list \<Rightarrow> bytes" where
  "numbered line k ns = concat (map (\<lambda>(i, n). line (int i) n) (enumerate k ns))"

lemma numbered_simps [simp]:
  "numbered line k [] = []" "numbered line k (n # ns) = line (int k) n @ numbered line (Suc k) ns"
  by (simp_all add: numbered_def)

definition udp_line :: "int \<Rightarrow> int \<Rightarrow> bytes" where
  "udp_line i n = cs ''num='' @ printf_d i @ cs '' len='' @ printf_d n @ [0x0D, 0x0A]"

definition tcp_line :: "int \<Rightarrow> int \<Rightarrow> bytes" where
  "tcp_line i n = cs ''num = '' @ printf_d i @ cs '' recv = '' @ printf_d n @ [0x0A]"

lemma udp_count_lines:
  "k + length (filter ((<) 0) ns) < 2 ^ 31 \<Longrightarrow>
   udp_count (int k) ns = Some (numbered udp_line k (filter ((<) 0) ns))"
proof (induction ns arbitrary: k)
  case (Cons n ns)
  show ?case
  proof (cases "0 < n")
    case True
    then have "next_num (int k) = Some (int (Suc k))" using Cons.prems by (simp add: next_num_def)
    then show ?thesis using Cons.IH [of "Suc k"] Cons.prems True by (simp add: udp_line_def)
  qed (use Cons in simp)
qed simp

text \<open>Without losses the server prints what the client prints.\<close>

theorem udp_test_agrees:
  assumes "length argv = 2" "length (filter ((<) 0) sent) < 2 ^ 31" "filter ((<) 0) received = filter ((<) 0) sent"
  shows "\<exists>out. udp_test_client argv sent = Some (None, out) \<and>
    udp_test_server received = Some (cs ''client is connect'' @ [0x0D, 0x0A] @ out) \<and>
    out = numbered udp_line 0 (filter ((<) 0) sent)"
  using udp_count_lines [of 0 sent] udp_count_lines [of 0 received] assms
  by (simp add: udp_test_client_def udp_test_server_def)

lemma recv_conn_lines:
  "\<forall>n \<in> set ns. 0 < n \<Longrightarrow> k + length ns < 2 ^ 31 \<Longrightarrow>
   recv_conn (int k) (ns @ [0]) = Some (numbered tcp_line k ns, Some (int (k + length ns)))"
proof (induction ns arbitrary: k)
  case (Cons n ns)
  then have "next_num (int k) = Some (int (Suc k))" by (simp add: next_num_def)
  then show ?case using Cons.IH [of "Suc k"] Cons.prems by (auto simp: tcp_line_def)
qed simp

fun report_conns :: "nat \<Rightarrow> int list list \<Rightarrow> bytes" where
  "report_conns k [] = []"
| "report_conns k (ns # nss) =
     numbered tcp_line k ns @ [0x0A] @ cs ''Finish Recieve'' @ [0x0A] @ report_conns (k + length ns) nss"

text \<open>Every connection of the tcp test is reported piece by piece, under numbers that run on over all
  connections, and closed with a line; the file named on the command line is made but never gets a
  byte.\<close>

theorem tcp_test_reports:
  assumes "length argv = 3" "\<forall>ns \<in> set nss. \<forall>n \<in> set ns. 0 < n" "length (concat nss) < 2 ^ 31" "nss \<noteq> []"
  shows "tcp_test_server argv True True True file (map (\<lambda>ns. (True, Some (ns @ [0]))) nss) =
    Some (report_conns 0 nss, Some (case file of None \<Rightarrow> [] | Some c \<Rightarrow> c), Waiting)"
proof -
  have "serve_conns (int k) f (map (\<lambda>ns. (True, Some (ns @ [0]))) nss) =
      Some (report_conns k nss, if nss = [] then f else Some (case f of None \<Rightarrow> [] | Some c \<Rightarrow> c), Waiting)"
    if "\<forall>ns \<in> set nss. \<forall>n \<in> set ns. 0 < n" "k + length (concat nss) < 2 ^ 31" for k f
    using that
  proof (induction nss arbitrary: k f)
    case (Cons ns nss)
    from recv_conn_lines [of ns k] Cons.prems Cons.IH [of "k + length ns"] show ?case
      by (simp add: Let_def del: of_nat_add)
  qed simp
  from this [of 0] assms show ?thesis by (simp add: tcp_test_server_def)
qed

theorem tcp_test_reports_witness:
  "tcp_test_server [cs ''server'', cs ''1234'', cs ''f''] True True True None
     (map (\<lambda>ns. (True, Some (ns @ [0]))) [[1024, 24], [7]]) =
   Some (tcp_line 0 1024 @ tcp_line 1 24 @ [0x0A] @ cs ''Finish Recieve'' @ [0x0A] @
     tcp_line 2 7 @ [0x0A] @ cs ''Finish Recieve'' @ [0x0A], Some [], Waiting)"
  by (subst tcp_test_reports) simp_all

text \<open>The tcp test client never sends its file: whatever it holds, only zeros go out, and the program does
  not end.\<close>

theorem tcp_test_client_sends_zeros:
  assumes "length argv = 4" "\<forall>n \<in> set results. n \<le> 1024"
  shows "tcp_test_client argv (Some contents) True True results = (None, [], bzero (nat (sum_list (map (max 0) results))))"
proof -
  have "send_zeros (bzero 1024) rs = bzero (nat (sum_list (map (max 0) rs)))" if "\<forall>n \<in> set rs. n \<le> 1024" for rs
    using that
  proof (induction rs)
    case (Cons r rs)
    have "0 \<le> sum_list (map (max 0) rs)" by (rule sum_list_nonneg) auto
    then have "nat (max 0 r + sum_list (map (max 0) rs)) = nat r + nat (sum_list (map (max 0) rs))"
      by (auto simp: nat_add_distrib max_def)
    moreover have "take (nat r) (bzero 1024) = bzero (nat r)" using Cons.prems by (simp add: bzero_def min_def nat_le_iff)
    ultimately show ?case using Cons by (simp add: bzero_def replicate_add)
  qed (simp add: bzero_def)
  then show ?thesis using assms by (simp add: tcp_test_client_def)
qed

end
