(* ===== verification/Sockets.thy ===== *)
theory Sockets
  imports Stdio UdpClient
begin

text \<open>
  How the programs set up their sockets: socketconnect and main of filesend/tcpfilesend (server and
  client), udpsocketinit and the reset of the network card of filesend/udpfilesend/udp-client.c, main
  of socket/tcp_server.c and socket/udp_server.c, daemon_init_hotplug_sock and hotplug_user of
  hotplug/simplehotplug.c (the first is the same function in hotplug/hotplug.c).

  The state holds the sockets that are open, the threads started and what was printed to stdout.
  What the calls of the system return is an argument.
\<close>

record net_state =
  open_socks :: "int list"
  threads :: nat
  printed :: bytes

definition sys_socket :: "int \<Rightarrow> net_state \<Rightarrow> int \<times> net_state" where
  "sys_socket ret n = (ret, if 0 \<le> ret then n\<lparr>open_socks := ret # open_socks n\<rparr> else n)"

definition close_sock :: "int \<Rightarrow> net_state \<Rightarrow> net_state" where
  "close_sock k n = n\<lparr>open_socks := remove1 k (open_socks n)\<rparr>"

definition put :: "bytes \<Rightarrow> net_state \<Rightarrow> net_state" where
  "put s n = n\<lparr>printed := printed n @ s\<rparr>"

lemma net_simps [simp]:
  "open_socks (put s n) = open_socks n" "threads (put s n) = threads n" "printed (put s n) = printed n @ s"
  "open_socks (close_sock k n) = remove1 k (open_socks n)" "threads (close_sock k n) = threads n"
  "printed (close_sock k n) = printed n"
  by (simp_all add: put_def close_sock_def)

section \<open>The tcp file transfer\<close>

text \<open>The server: main goes on in any case and never returns.\<close>

definition tcp_srv_socketconnect :: "int \<Rightarrow> int \<Rightarrow> int \<Rightarrow> net_state \<Rightarrow> int \<times> net_state" where
  "tcp_srv_socketconnect sock_ret bind_ret listen_ret n =
     (let (sock_id, n) = sys_socket sock_ret n in
      if sock_id < 0 then (- 1, n)
      else if bind_ret < 0 then (- 1, n)
      else if listen_ret = - 1 then (- 1, n)
      else (0, n\<lparr>threads := Suc (threads n)\<rparr>))"

definition tcp_srv_main :: "int \<Rightarrow> int \<Rightarrow> int \<Rightarrow> net_state \<Rightarrow> net_state" where
  "tcp_srv_main sock_ret bind_ret listen_ret n =
     (let (ret, n) = tcp_srv_socketconnect sock_ret bind_ret listen_ret n in
      if ret \<noteq> 0 then put (cs ''connect fail'' @ [0x0A]) n else n)"

definition tcp_cli_socketconnect :: "int \<Rightarrow> int \<Rightarrow> net_state \<Rightarrow> int \<times> net_state" where
  "tcp_cli_socketconnect sock_ret connect_ret n =
     (let (sock_id, n) = sys_socket sock_ret n in
      if sock_id < 0 then (- 1, n)
      else if connect_ret = - 1 then (- 1, put (cs ''Connect socket failed'' @ [0x0A]) n)
      else (0, n))"

section \<open>The client of the udp file transfer\<close>

text \<open>A socket that could not be made is used all the same. udprev with the commands it runs: after a receive
  without data the interface is taken down and up.\<close>

definition cli_udpsocketinit :: "int \<Rightarrow> net_state \<Rightarrow> int \<times> net_state" where
  "cli_udpsocketinit sock_ret n = sys_socket sock_ret n"

definition Restempunavail_error_handler :: "bytes list \<Rightarrow> bytes list" where
  "Restempunavail_error_handler cmds =
     (let cmds = cmds @ [cs ''ifconfig usb0 down''] in cmds @ [cs ''ifconfig usb0 up''])"

definition udprev_reset :: "('n \<Rightarrow> bytes option \<times> 'n) \<Rightarrow> bytes \<Rightarrow> 'n \<times> bytes list \<Rightarrow> int \<times> bytes \<times> 'n \<times> bytes list" where
  "udprev_reset urecv buf s =
     (let (net, cmds) = s; (len, buf, net) = udprev urecv buf net in
      if len = - 1 then (- 1, buf, net, Restempunavail_error_handler cmds) else (len, buf, net, cmds))"

section \<open>The echo servers\<close>

text \<open>The status with which main returns before its loop (Inl), or the socket the loop uses.\<close>

definition echo_tcp_setup :: "int \<Rightarrow> int \<Rightarrow> int \<Rightarrow> net_state \<Rightarrow> (int + int) \<times> net_state" where
  "echo_tcp_setup sock_ret bind_ret listen_ret n =
     (let n = put (cs ''Hello,welcome to my server !'' @ [0x0D, 0x0A]) n;
          (sfp, n) = sys_socket sock_ret n in
      if sfp = - 1 then (Inl (- 1), put (cs ''socket fail ! '' @ [0x0D, 0x0A]) n)
      else
        let n = put (cs ''socket ok !'' @ [0x0D, 0x0A]) n in
        if bind_ret = - 1 then (Inl (- 1), put (cs ''bind fail !'' @ [0x0D, 0x0A]) n)
        else
          let n = put (cs ''bind ok !'' @ [0x0D, 0x0A]) n in
          if listen_ret = - 1 then (Inl (- 1), put (cs ''listen fail !'' @ [0x0D, 0x0A]) n)
          else (Inr sfp, put (cs ''listen ok'' @ [0x0D, 0x0A]) n))"

definition echo_udp_setup :: "int \<Rightarrow> int \<Rightarrow> net_state \<Rightarrow> (int + int) \<times> net_state" where
  "echo_udp_setup sock_ret bind_ret n =
     (let (sock, n) = sys_socket sock_ret n in
      if sock < 0 then (Inl 1, n)
      else
        let n = put (printf_d 8887 @ [0x0A]) n in
        if bind_ret < 0 then (Inl 1, n) else (Inr sock, n))"

section \<open>The hot-plug socket and the hot-plug printer\<close>

definition daemon_init_hotplug_sock :: "bytes \<Rightarrow> bytes \<Rightarrow> int \<Rightarrow> int \<Rightarrow> net_state \<Rightarrow> int \<times> net_state" where
  "daemon_init_hotplug_sock where_socket where_bind sock_ret bind_ret n =
     (let (hotplug_sock, n) = sys_socket sock_ret n in
      if hotplug_sock = - 1 then (- 1, put where_socket n)
      else if bind_ret < 0 then (- 1, close_sock hotplug_sock (put where_bind n))
      else (hotplug_sock, n))"

text \<open>
  The loop prints every message up to its first zero; the array has 1024 bytes and is cleared before,
  so that only a message that fills it is read behind its end (None).
\<close>

fun print_uevents :: "bytes list \<Rightarrow> bytes option" where
  "print_uevents [] = Some []"
| "print_uevents (m # ms) = do {
     buf \<leftarrow> mem_put (bzero 1024) 0 (take 1024 m);
     guard (terminated buf);
     out \<leftarrow> print_uevents ms;
     Some (cs ''buf = '' @ cstr buf @ [0x0D, 0x0A] @ out)
   }"

definition hotplug_user :: "bytes \<Rightarrow> bytes \<Rightarrow> bytes \<Rightarrow> int \<Rightarrow> int \<Rightarrow> bytes list \<Rightarrow> net_state \<Rightarrow> net_state option" where
  "hotplug_user started where_socket where_bind sock_ret bind_ret msgs n =
     (let n = put started n;
          (hotplug_sock, n) = daemon_init_hotplug_sock where_socket where_bind sock_ret bind_ret n in
      if hotplug_sock < 0 then Some (put (cs ''hotplug_sock < 0 return'') n)
      else do {
        out \<leftarrow> print_uevents msgs;
        Some (put out n)
      })"

section \<open>Properties\<close>

lemma udprev_None: "udprev urecv buf net = (len, buf', net') \<Longrightarrow> len = - 1 \<longleftrightarrow> fst (urecv net) = None"
  by (auto simp: udprev_def Let_def split: prod.splits option.splits)

text \<open>The reset of the card is the only effect the handler adds: the client gets what udprev delivers, and
  for every receive without data the two commands run in their order.\<close>

theorem udprev_reset_refines:
  assumes "udprev_reset urecv buf (net, cmds) = (len, buf', net', cmds')"
  shows "udprev urecv buf net = (len, buf', net') \<and>
    cmds' = cmds @ (if fst (urecv net) = None then [cs ''ifconfig usb0 down'', cs ''ifconfig usb0 up''] else [])"
  using assms udprev_None [of urecv buf net]
  by (auto simp: udprev_reset_def Restempunavail_error_handler_def Let_def split: prod.splits if_splits)

text \<open>A set-up that fails: the hot-plug programs give back the socket they had made, the servers of the file
  transfer and of the tcp echo leave it open; and the server of the file transfer does not end: it prints
  a line and sleeps for ever without the thread that would serve anybody. When every call succeeds,
  exactly one socket is open and the thread runs.\<close>

theorem setup_outcomes:
  assumes "0 \<le> k" "k \<notin> set (open_socks n)"
  shows "(\<exists>n'. daemon_init_hotplug_sock ws wb k b n = (if b < 0 then - 1 else k, n') \<and>
      open_socks n' = (if b < 0 then open_socks n else k # open_socks n)) \<and>
    open_socks (tcp_srv_main k b l n) = k # open_socks n \<and>
    threads (tcp_srv_main k b l n) = (if b < 0 \<or> l = - 1 then threads n else Suc (threads n)) \<and>
    printed (tcp_srv_main k b l n) =
      (if b < 0 \<or> l = - 1 then printed n @ cs ''connect fail'' @ [0x0A] else printed n) \<and>
    open_socks (snd (echo_tcp_setup k b l n)) = k # open_socks n \<and>
    fst (echo_tcp_setup k b l n) = (if b = - 1 \<or> l = - 1 then Inl (- 1) else Inr k)"
  using assms
  by (simp add: daemon_init_hotplug_sock_def sys_socket_def Let_def tcp_srv_main_def tcp_srv_socketconnect_def
      echo_tcp_setup_def)

theorem setup_outcomes_witness:
  "threads (tcp_srv_main 3 (- 1) 0 \<lparr>open_socks = [], threads = 0, printed = []\<rparr>) = 0 \<and>
   open_socks (tcp_srv_main 3 (- 1) 0 \<lparr>open_socks = [], threads = 0, printed = []\<rparr>) = [3]"
  using setup_outcomes [of 3 "\<lparr>open_socks = [], threads = 0, printed = []\<rparr>" "[]" "[]" "- 1" 0] by simp

text \<open>The hot-plug printer prints the header line of every message and nothing of the fields behind its
  first zero.\<close>

theorem hotplug_user_prints:
  assumes "0 \<le> k" "0 \<le> b" "\<forall>(h, rest) \<in> set ms. 0 \<notin> set h \<and> length h < 1024"
  shows "\<exists>n'. hotplug_user st ws wb k b (map (\<lambda>(h, rest). h @ 0 # rest) ms) n = Some n' \<and>
    printed n' = printed n @ st @ concat (map (\<lambda>(h, rest). cs ''buf = '' @ h @ [0x0D, 0x0A]) ms)"
proof -
  have "print_uevents (map (\<lambda>(h, rest). h @ 0 # rest) ms) = Some (concat (map (\<lambda>(h, rest). cs ''buf = '' @ h @ [0x0D, 0x0A]) ms))"
    using assms(3)
  proof (induction ms)
    case (Cons m ms)
    obtain h rest where m: "m = (h, rest)" by force
    let ?msg = "take 1024 (h @ 0 # rest)"
    have h: "0 \<notin> set h" "length h < 1024" using Cons.prems m by auto
    then have "1024 - length h = Suc (1023 - length h)" by simp
    then have s: "?msg = h @ 0 # take (1023 - length h) rest" using h(2) by simp
    have p: "mem_put (bzero 1024) 0 ?msg = Some (?msg @ drop (length ?msg) (bzero 1024))"
      by (simp add: mem_put_def bzero_def)
    have t: "terminated (?msg @ drop (length ?msg) (bzero 1024))" "cstr (?msg @ drop (length ?msg) (bzero 1024)) = h"
      unfolding s using h by (simp_all add: terminated_def cstr_append_zero)
    show ?case using Cons p t unfolding m by simp
  qed simp
  then show ?thesis using assms(1,2)
    by (simp add: hotplug_user_def daemon_init_hotplug_sock_def sys_socket_def Let_def)
qed

end
