(* ===== verification/Device_Mains.thy ===== *)
theory Device_Mains
  imports Gps Uart
begin

text \<open>
  The programs around the GPS receiver and the serial port: the constructor, OpenGPS, CloseGPS and main
  of gps/gps.cpp, and main of uart/serial.c and of RS485/serial.cpp.
\<close>

section \<open>GPS\<close>

record gps_object =
  flags :: gps
  gps_dev_fd :: int
  uartdev :: bytes
  tty_times :: "(nat \<times> nat) option"
  recv_thread :: bool

text \<open>opened is what open returns. The line waits at most 30 tenths of a second for a byte.\<close>

definition OpenGPS :: "int \<Rightarrow> gps_object \<Rightarrow> bool \<times> gps_object" where
  "OpenGPS opened g =
     (let g = g\<lparr>gps_dev_fd := opened\<rparr> in
      if opened = - 1 then (False, g)
      else (True, g\<lparr>tty_times := Some (30, 0), recv_thread := True\<rparr>))"

text \<open>The constructor ignores the result, and does not set is_positioning_: its value is part of junk.\<close>

definition new_GPS :: "gps_object \<Rightarrow> bytes \<Rightarrow> int \<Rightarrow> gps_object" where
  "new_GPS junk dev_name opened = snd (OpenGPS opened (junk\<lparr>uartdev := dev_name, tty_times := None, recv_thread := False\<rparr>))"

text \<open>CloseGPS joins the thread, whose loop has no end; without a thread the identifier is not initialised (None).\<close>

definition CloseGPS :: "gps_object \<Rightarrow> gps_object outcome option" where
  "CloseGPS g = (if recv_thread g then Some Blocked else None)"

text \<open>
  main: the thread reads rs before the flag is looked at; timedout is what the timed wait reports. The
  result is the exit status and the text printed.
\<close>

definition gps_main :: "(bytes \<Rightarrow> rat) \<Rightarrow> gps_object \<Rightarrow> u8 \<Rightarrow> int \<Rightarrow> read_result list \<Rightarrow> bool \<Rightarrow> (int \<times> bytes) option" where
  "gps_main num junk ch0 opened rs timedout = do {
     let obj = new_GPS junk (cs ''/dev/ttyS0'') opened;
     g \<leftarrow> (if recv_thread obj
          then map_option dev (GPSReceiveThread num rs \<lparr>ch = ch0, line = [], dev = flags obj\<rparr>)
          else Some (flags obj));
     Some (0, if \<not> WaitPositioningComplete timedout g
              then cs ''WaitPositioningComplete timeout'' @ [0x0A] @
                   cs ''DataPointThread WaitPositioningComplete failed'' @ [0x0A]
              else [])
   }"

section \<open>The serial port\<close>

definition fcuart_handle :: uart_handle where
  "fcuart_handle = \<lparr>uart_fd = 0, device_node = Some (cs ''/dev/ttyS3''), i_nSpeed = 1000000, i_nBits = 8,
     i_nEvent = CHR ''N'', i_nStop = 1, has_revdhandle = True\<rparr>"

text \<open>main ignores the result and sleeps while the thread runs.\<close>

definition uart_main :: "int \<Rightarrow> bool \<Rightarrow> bool \<Rightarrow> int \<times> uart_handle option \<times> bool" where
  "uart_main opened get_ok set_ok = UART_init opened get_ok set_ok (Some fcuart_handle)"

text \<open>The program of RS485/serial.cpp, with the other speed and the other set_opt.\<close>

definition rs485_handle :: uart_handle where
  "rs485_handle = \<lparr>uart_fd = 0, device_node = Some (cs ''/dev/ttyS3''), i_nSpeed = 115200, i_nBits = 8,
     i_nEvent = CHR ''N'', i_nStop = 1, has_revdhandle = True\<rparr>"

definition rs485_main :: "int \<Rightarrow> bool \<Rightarrow> bool \<Rightarrow> int \<times> uart_handle option \<times> bool" where
  "rs485_main opened get_ok set_ok = rs485_UART_init opened get_ok set_ok (Some rs485_handle)"

section \<open>Properties\<close>

text \<open>The GPS program: with the port open it fails to report a position exactly when the wait times out and
  the last position status was not valid. When the port cannot be opened nothing is received, and
  the answer is the uninitialised flag: the program can end without any message.\<close>

theorem gps_main_reports:
  assumes "\<forall>f \<in> set sentences. f \<noteq> [] \<and> (\<forall>x \<in> set f. clean x) \<and> join f \<noteq> [] \<and> sentence_ok num f"
  shows "gps_main num junk ch0 opened (byte_reads (concat (map (\<lambda>f. join f @ [0x0D, 0x0A]) sentences))) timedout =
    Some (0, if timedout \<and> \<not> is_positioning (if opened = - 1 then flags junk else fold on_sentence sentences (flags junk))
      then cs ''WaitPositioningComplete timeout'' @ [0x0A] @
        cs ''DataPointThread WaitPositioningComplete failed'' @ [0x0A]
      else [])"
proof -
  obtain r' where "GPSReceiveThread num (byte_reads (concat (map (\<lambda>f. join f @ [0x0D, 0x0A]) sentences)))
      \<lparr>ch = ch0, line = [], dev = flags junk\<rparr> = Some r'" "dev r' = fold on_sentence sentences (flags junk)"
    using receive_sentences [OF assms, of "\<lparr>ch = ch0, line = [], dev = flags junk\<rparr>"] by auto
  then show ?thesis by (simp add: gps_main_def new_GPS_def OpenGPS_def WaitPositioningComplete_def)
qed

theorem gps_main_reports_witness:
  "gps_main (\<lambda>_. 0) \<lparr>flags = \<lparr>is_positioning = True, signals = 0\<rparr>, gps_dev_fd = 0, uartdev = [], tty_times = None,
     recv_thread = False\<rparr> 0 3 (byte_reads (cs ''$GNRMC,,V'' @ [13, 10])) True =
   Some (0, cs ''WaitPositioningComplete timeout'' @ [0x0A] @
     cs ''DataPointThread WaitPositioningComplete failed'' @ [0x0A])"
proof -
  let ?s = "[[cs ''$GNRMC'', [], cs ''V'']]"
  have h: "\<forall>f \<in> set ?s. f \<noteq> [] \<and> (\<forall>x \<in> set f. clean x) \<and> join f \<noteq> [] \<and> sentence_ok (\<lambda>_. 0) f"
    by (simp add: clean_def isspace_def sentence_ok_def cs_def of_char_def)
  have j: "concat (map (\<lambda>f. join f @ [0x0D, 0x0A]) ?s) = cs ''$GNRMC,,V'' @ [13, 10]"
    by (simp add: cs_def of_char_def)
  show ?thesis
    using gps_main_reports [OF h, of "\<lparr>flags = \<lparr>is_positioning = True, signals = 0\<rparr>, gps_dev_fd = 0, uartdev = [],
        tty_times = None, recv_thread = False\<rparr>" 0 3 True] unfolding j
    by (simp add: on_sentence_def cs_def of_char_def)
qed

text \<open>Setting up a line with a known speed.\<close>

lemma UART_init_line:
  assumes run: "UART_init_with (set_opt_with known) opened get_ok set_ok
      (Some \<lparr>uart_fd = 0, device_node = Some name, i_nSpeed = int n, i_nBits = 8, i_nEvent = CHR ''N'', i_nStop = 1,
        has_revdhandle = True\<rparr>) = (r, h, started)" and n: "int n \<in> set known"
  shows "(started \<longleftrightarrow> opened \<noteq> - 1 \<and> get_ok \<and> set_ok) \<and> (started \<longleftrightarrow> r = 0) \<and>
    (started \<longrightarrow> (\<exists>t. set_opt_with known get_ok set_ok (int n) 8 CHR ''N'' 1 = (0, Some t) \<and>
      line_of t = (8, No_parity, 1) \<and> ispeed t = n))"
proof -
  have s: "\<exists>t. set_opt_with known True True (int n) 8 CHR ''N'' 1 = (0, Some t) \<and> line_of t = (8, No_parity, 1) \<and> ispeed t = n"
  proof -
    obtain t where t: "set_opt_with known True True (int n) 8 CHR ''N'' 1 = (0, Some t)"
      by (simp add: set_opt_with_def)
    from set_opt_fields [OF t] line_of_cflag [of t 8 "CHR ''N''" 1] t n show ?thesis
      by (simp add: line_wanted_def)
  qed
  show ?thesis
    using run s by (cases get_ok; cases set_ok)
      (auto simp: UART_init_with_def uart_init_port_def set_opt_with_def Let_def split: if_splits)
qed

text \<open>The serial program starts its thread exactly when the port opens and both calls of the terminal
  interface succeed, and then the line runs with a million baud, 8 data bits, no parity, one stop bit.\<close>

theorem uart_main_line:
  assumes "uart_main opened get_ok set_ok = (r, h, started)"
  shows "(started \<longleftrightarrow> opened \<noteq> - 1 \<and> get_ok \<and> set_ok) \<and> (started \<longleftrightarrow> r = 0) \<and>
    (started \<longrightarrow> (\<exists>t. set_opt get_ok set_ok 1000000 8 CHR ''N'' 1 = (0, Some t) \<and> line_of t = (8, No_parity, 1) \<and>
      ispeed t = 1000000))"
proof -
  have n: "int 1000000 \<in> set [2400, 4800, 9600, 115200, 1000000]" by simp
  have "UART_init_with (set_opt_with [2400, 4800, 9600, 115200, 1000000]) opened get_ok set_ok
      (Some \<lparr>uart_fd = 0, device_node = Some (cs ''/dev/ttyS3''), i_nSpeed = int 1000000, i_nBits = 8, i_nEvent = CHR ''N'',
        i_nStop = 1, has_revdhandle = True\<rparr>) = (r, h, started)"
    using assms by (simp add: uart_main_def UART_init_def set_opt_def fcuart_handle_def)
  from UART_init_line [OF this n] show ?thesis unfolding set_opt_def of_nat_numeral .
qed

text \<open>The same for the program of RS485, with 115200 baud.\<close>

theorem rs485_main_line:
  assumes "rs485_main opened get_ok set_ok = (r, h, started)"
  shows "(started \<longleftrightarrow> opened \<noteq> - 1 \<and> get_ok \<and> set_ok) \<and> (started \<longleftrightarrow> r = 0) \<and>
    (started \<longrightarrow> (\<exists>t. rs485_set_opt get_ok set_ok 115200 8 CHR ''N'' 1 = (0, Some t) \<and> line_of t = (8, No_parity, 1) \<and>
      ispeed t = 115200))"
proof -
  have n: "int 115200 \<in> set [2400, 4800, 9600, 115200]" by simp
  have "UART_init_with (set_opt_with [2400, 4800, 9600, 115200]) opened get_ok set_ok
      (Some \<lparr>uart_fd = 0, device_node = Some (cs ''/dev/ttyS3''), i_nSpeed = int 115200, i_nBits = 8, i_nEvent = CHR ''N'',
        i_nStop = 1, has_revdhandle = True\<rparr>) = (r, h, started)"
    using assms by (simp add: rs485_main_def rs485_UART_init_def rs485_set_opt_def rs485_handle_def)
  from UART_init_line [OF this n] show ?thesis unfolding rs485_set_opt_def of_nat_numeral .
qed

end
