(* ===== verification/Demos.thy ===== *)
theory Demos
  imports Stdio Timer
begin

text \<open>
  Small programs with some logic: the table of initialisation functions of init/init.c, the elapsed time
  of time/apprumtime.c, the variable arguments of va_printf/funtionadd.c and the alarm of
  signal/alarm.c.
\<close>

section \<open>init.c: functions collected by the linker\<close>

text \<open>
  The standard output of a process: what has reached the descriptor, and what stdio holds back. A line
  that is printed goes out at once on a terminal and at the end of the program otherwise; write does
  not wait for the buffer.
\<close>

record stdout_state =
  is_tty :: bool
  reached :: bytes
  held_back :: bytes

definition printf_line :: "bytes \<Rightarrow> stdout_state \<Rightarrow> stdout_state" where
  "printf_line s o1 =
     (if is_tty o1 then o1\<lparr>reached := reached o1 @ held_back o1 @ s, held_back := []\<rparr>
      else o1\<lparr>held_back := held_back o1 @ s\<rparr>)"

definition write_stdout :: "bytes \<Rightarrow> stdout_state \<Rightarrow> stdout_state" where
  "write_stdout s o1 = o1\<lparr>reached := reached o1 @ s\<rparr>"

definition flush_stdout :: "stdout_state \<Rightarrow> stdout_state" where
  "flush_stdout o1 = o1\<lparr>reached := reached o1 @ held_back o1, held_back := []\<rparr>"

text \<open>sizeof counts the zero behind the text.\<close>

definition A_init :: "stdout_state \<Rightarrow> stdout_state" where
  "A_init = write_stdout (cs ''A_init'' @ [0x0A, 0])"

definition B_init :: "stdout_state \<Rightarrow> stdout_state" where
  "B_init = printf_line (cs ''B_init'' @ [0x0A])"

definition C_init :: "stdout_state \<Rightarrow> stdout_state" where
  "C_init = printf_line (cs ''C_init'' @ [0x0A])"

text \<open>The section holds the functions in the order of their declarations; the loop runs over its words.\<close>

definition myinit :: "(stdout_state \<Rightarrow> stdout_state) list" where
  "myinit = [C_init, B_init, A_init]"

function do_initcalls_from :: "(stdout_state \<Rightarrow> stdout_state) list \<Rightarrow> nat \<Rightarrow> stdout_state \<Rightarrow> stdout_state" where
  "do_initcalls_from calls i s =
     (if i < length calls then do_initcalls_from calls (Suc i) ((calls ! i) s) else s)"
  by auto
termination by (relation "measure (\<lambda>(calls, i, _). length calls - i)") auto

declare do_initcalls_from.simps [simp del]

definition do_initcalls :: "(stdout_state \<Rightarrow> stdout_state) list \<Rightarrow> stdout_state \<Rightarrow> stdout_state" where
  "do_initcalls calls = do_initcalls_from calls 0"

definition init_main :: "stdout_state \<Rightarrow> int \<times> stdout_state" where
  "init_main s = (0, flush_stdout (do_initcalls myinit s))"

lemma do_initcalls_from_fold: "do_initcalls_from calls i s = fold (\<lambda>f s. f s) (drop i calls) s"
proof (induction calls i s rule: do_initcalls_from.induct)
  case (1 calls i s)
  then show ?case
    by (subst do_initcalls_from.simps) (auto simp: Cons_nth_drop_Suc [symmetric])
qed

text \<open>The functions are called in the order of the section; but what a terminal shows in this order comes
  out with A_init first when the output is a file or a pipe, because only A_init bypasses stdio. Its
  output holds a zero byte in both cases.\<close>

theorem init_order:
  "init_main \<lparr>is_tty = tty, reached = [], held_back = []\<rparr> = (0, \<lparr>is_tty = tty,
     reached = (if tty then cs ''C_init'' @ [0x0A] @ cs ''B_init'' @ [0x0A] @ cs ''A_init'' @ [0x0A, 0]
                else cs ''A_init'' @ [0x0A, 0] @ cs ''C_init'' @ [0x0A] @ cs ''B_init'' @ [0x0A]),
     held_back = []\<rparr>)"
  by (simp add: init_main_def do_initcalls_def do_initcalls_from_fold myinit_def A_init_def B_init_def C_init_def
      printf_line_def write_stdout_def flush_stdout_def)

section \<open>apprumtime.c\<close>

text \<open>The milliseconds are kept in an unsigned int and printed as a signed one.\<close>

definition run_time :: "timeval \<Rightarrow> timeval \<Rightarrow> u32" where
  "run_time start now =
     (let res = timersub now start in of_int (tv_sec res * 1000 + tv_usec res sdiv 1000))"

definition apprumtime_main :: "timeval \<Rightarrow> timeval \<Rightarrow> bytes" where
  "apprumtime_main start now = cs ''time = '' @ printf_d (sint (run_time start now)) @ [0x0D, 0x0A]"

text \<open>The milliseconds are the difference in microseconds, rounded down once (as long as they fit).\<close>

theorem run_time_exact:
  assumes "normal start" "normal now" "start \<le> now" "usecs now - usecs start < 2147483648000"
  shows "apprumtime_main start now = cs ''time = '' @ printf_d ((usecs now - usecs start) div 1000) @ [0x0D, 0x0A]"
proof -
  let ?r = "timersub now start"
  have r: "usecs ?r = usecs now - usecs start" "0 \<le> tv_usec ?r"
    using assms(1,2) by (auto simp: timersub_def Let_def usecs_def normal_def)
  have "tv_usec ?r sdiv 1000 = tv_usec ?r div 1000" using r(2) by (simp add: sdiv_1000)
  then have d: "tv_sec ?r * 1000 + tv_usec ?r sdiv 1000 = usecs ?r div 1000" by (simp add: usecs_def)
  have le: "usecs start \<le> usecs now"
    using assms(1-3) by (auto simp: timeval_less normal_def usecs_def)
  have "sint (of_int ((usecs now - usecs start) div 1000) :: u32) = (usecs now - usecs start) div 1000"
    using assms(4) le by (simp add: signed_of_int signed_take_bit_int_eq_self)
  then show ?thesis unfolding apprumtime_main_def run_time_def Let_def d r(1) by simp
qed

section \<open>funtionadd.c\<close>

text \<open>The loop over the arguments; taking one that was not passed is undefined.\<close>

fun arg_test1 :: "nat \<Rightarrow> int list \<Rightarrow> bytes option" where
  "arg_test1 0 args = Some []"
| "arg_test1 (Suc n) [] = None"
| "arg_test1 (Suc n) (v # args) = map_option (\<lambda>out. printf_d v @ [0x0A] @ out) (arg_test1 n args)"

lemma arg_test1_iff:
  "arg_test1 n args = (if n \<le> length args then Some (concat (map (\<lambda>v. printf_d v @ [0x0A]) (take n args))) else None)"
  by (induction n args rule: arg_test1.induct) auto

section \<open>alarm.c\<close>

text \<open>The seconds of sleep: whether the alarm, due in a seconds, goes off before they are over.\<close>

fun alarm_during :: "nat \<Rightarrow> nat option \<Rightarrow> bool" where
  "alarm_during sleep None = False"
| "alarm_during sleep (Some 0) = True"
| "alarm_during 0 (Some (Suc a)) = False"
| "alarm_during (Suc sleep) (Some (Suc a)) = alarm_during sleep (Some a)"

text \<open>alarm 0 cancels; the handler ends the program.\<close>

definition alarm_main :: "nat \<Rightarrow> nat \<Rightarrow> int \<times> bytes" where
  "alarm_main a sleep =
     (if alarm_during sleep (if a = 0 then None else Some a) then (0, cs ''SIGALRM is ok'' @ [0x0A])
      else (0, cs ''Hello World!'' @ [0x0A]))"

lemma alarm_during_iff: "alarm_during s (Some a) \<longleftrightarrow> a \<le> s"
  by (induction s "Some a" arbitrary: a rule: alarm_during.induct) auto

lemma alarm_main_prints: "alarm_main 2 3 = (0, cs ''SIGALRM is ok'' @ [0x0A])"
  by (simp add: alarm_main_def alarm_during_iff)

end
