(* ===== verification/Spec2Isabelle.thy ===== *)
theory Spec2Isabelle
  imports Crc MD5_File Strtok_Sub Echo Udp_Echo Readdir UdpProps UdpClientProps UdpTransfer TcpTransfer Led
    Timer Delivery Filelist_Data Gps Hotplug Uart Netspeed Gpio_Quectel Sys_Gpio Sem Storage MsgTool Streams Inotify_Demo
    UdpIntegrity UdpAnnounce UdpLossy UdpLost UdpLate Speed Led_Module Processes ConnTests Sockets Device_Mains Demos
begin

text \<open>
  A verification development for linuxtestcode, a collection of programs and drivers for small
  Linux devices. The repository has no single entry point: its parts are programs of their own,
  or sources meant to be copied into one. What connects them is the device they are written for: a
  file arrives over the network (filesend), its digest is checked (md5) and it is moved into place
  under its final name; lists kept up to date by inotify hand the paths of arriving files to a
  consumer (filelist), while drivers and daemons look after the hardware (ingenic_drv, sys_gpio,
  uart, gps, hotplug, storagemanage). As they are in the repository, the servers and the file list
  use different directories, so that each is taken on its own.

  \<^bold>\<open>The data model\<close> (Prelude). C integers are words of their width; an array is a list of
  exactly its declared size; an access behind it, a string without a terminator or the use of a
  null pointer where C leaves it undefined is the value None. A result Some therefore says that
  the code stays inside its objects, and a theorem that a result is None exhibits an
  overflow. Error codes of the sources remain the numbers they are (0, -1), and outcomes that end
  a program or block for ever are values of sum types. Posix holds the calls on files
  (descriptors, inodes, directories), CString and Prelude the functions of string.h, Stdio numbers as
  text, atoi and fgets. What a call of the system or of the kernel returns is an argument.

  \<^bold>\<open>Theories and sources\<close>

  \<^item> Crc: crc/crc_ccitt.c. The table routine is the bit-serial division; error detection;
    residue.
  \<^item> MD5, MD5_Eval, MD5_Proof, MD5_File: md5/md5.h, md5/md5.c and md5/main.c. MD5Transform as the
    64 macro calls of the source, proved to be the compression function of RFC 1321; the
    streaming interface as an instance of the locale incremental_hash; MD5_file over the results
    of read. MD5_Eval evaluates a digest in the kernel.
  \<^item> Strtok, Strtok_Sub: strtok/strtok.c and strtok_c.c, pointers as indices into the buffer,
    refined by the abstract tokens of a string; the nested splitting ends and prints the tokens of
    the tokens.
  \<^item> NetFile, UdpServer, UdpServer_Proof, UdpProps: filesend/udpfilesend/net_file.h and
    udp-server.c. The globals of the server are a record, each handler (cmd_reqsend_deel,
    cmd_revfile, cmd_revfilefinsh, cmd_repose) a function on it, onrecv their dispatch, socketrev
    the receive loop, usb_net_recvthread the thread. UdpClient, UdpClientProps: udp-client.c.
    UdpTransfer puts both together over a network that loses nothing: the client is proved against
    the locale file_receiver, the server implements it by a sublocale, and the result is the theorem
    on whole transfers. UdpIntegrity takes the server alone on a network that loses, repeats and
    reorders, with the locale block_receiver for the states that take blocks: in the middle of a
    transfer, with only the answers of a transfer sent (UdpLossy), and after its end (UdpLate).
    UdpLossy runs the client against the server over such a network, given by a plan of what arrives
    when, after the end of the transfer too; UdpLost loses one answer, with the loop over the blocks
    proved against block_taker, the part of file_receiver that it needs; UdpLate shows what a block
    does that comes after the end, UdpAnnounce what announcements do that no end follows. Delivery has
    successive transfers, Speed the speed that the server reports.
  \<^item> TcpServer, TcpProps, TcpTransfer: filesend/tcpfilesend (net_file.h, server.c and client.c), the
    variant over a stream that may deliver the bytes in any pieces, or end early (stream_data is what
    the server takes from it); the thread of the server with its loop over accept, and several clients
    one after the other.
  \<^item> Filelist_Data, Filelist_Inotify: filelist/filelist_data.cpp and filelist_inotify.cpp, with
    their headers. Both classes implement the locale handout_queue of Handout. Inotify_Events: the
    bytes of the kernel's buffer and the loop over them, used by Filelist_Inotify and by
    Inotify_Demo (inotify/inotify.c and inotify_creat.c). Readdir: readdir/readdir.cpp, which
    collects the same names. The events of Filelist_Inotify are those of the watch it sets, with the
    names filled up as the kernel does it (kernel_event).
  \<^item> Led: ingenic_drv/led/led_drv.c and the older timer function of ingenic_drv/second; Led_Module: both
    as modules in a kernel that counts jiffies, and second/seconddrvtest.c. Gpio_Quectel:
    ingenic_drv/gpio-quectel.c, against the locale gpio_kernel. Sys_Gpio: sys_gpio. Storage:
    storagemanage. Uart: uart/serial.c, and set_opt and UART_init of RS485/serial.cpp. Gps: gps/gps.cpp.
    Device_Mains: the programs around the last two. Hotplug: hotplug/hotplug.c. Netspeed: netspeed/netspeed.c,
    with the lines of /proc/net/dev (net_line) and doubles as the natural numbers they stand for.
  \<^item> Timer: time/time.c and miscode/gettimeofday.c. Sem: sem/sem.c, two threads whose
    interleavings are a step relation. Echo: socket/tcp_server.c, whose threads share a variable
    with the accept loop, the receiving thread of tcp_client.c, and udp_server.c; Udp_Echo: the
    clients. MsgTool: ipc/msgtool.c on a queue of the kernel. Streams: the programs of pipe that
    read and write line by line. Processes: pipe/dup.c and dup2.cpp on descriptors that share open
    files, file-io, and the daemon of fork/exec.c.
  \<^item> Sockets: how the programs set up their sockets, and hotplug/simplehotplug.c. ConnTests: the
    connection tests of filesend/tcpudptestcode and udpfilesend/back. Demos: init/init.c,
    time/apprumtime.c, va_printf/funtionadd.c and signal/alarm.c.
  \<^item> Transition: reachability and inductive invariants, used by Led, Sem and Echo.

  \<^bold>\<open>What the lemmas show\<close>

  \<^item> Refinement and equivalence: the checksums and digests compute their reference
    definitions; a transfer over udp or tcp is one abstract operation on the file system, and so
    is a sequence of them (below); the byte-level loop over inotify events carries out the events,
    or describes them; the receiver of GPS sentences implements a fold over them; messages sent
    through a queue are printed in order or by type; the two versions of set_opt, of the GPIO
    functions and of the traffic counters agree where they should.
  \<^item> Safety: whatever a network or a stream delivers between announcement and end of a
    transfer, a file is put in place only with the announced digest, and otherwise no file
    changes; a client that reports success over such a network is right, but for blocks that come
    after the end; a module that is unloaded changes nothing any more. Liveness: the timer of a
    module runs once in every 20 jiffies.
  \<^item> Invariants: the counters of the LED driver in every reachable state, the flag and
    buffer of the semaphore program under every interleaving, the connections of the threads of
    the echo server.
  \<^item> Bounds and errors: where buffers overflow, stated as equivalences where possible (file
    names, announcements, hot-plug commands, list records, counters, sentences with too few
    fields), and what happens on silence, lost answers, failed calls and timeouts: after an error
    of select the server is deaf, one lost answer makes a transfer fail, a block that comes late
    changes a finished file, after a reload the modem driver is not bound.
  \<^item> Round trips: encodings of messages and words, records written and read again after a
    restart, fields joined and split, numbers printed and parsed.

  \<^bold>\<open>Loops\<close>. No definition needs fuel. Most loops run over a list that the environment delivers
  (results of read or recv, datagrams, events, directory entries) or over a buffer with an index,
  so that the recursion is structural or has a measure; a daemon that never returns is its behaviour
  on every finite sequence of events. The loops whose end depends on what they compute (send_loop,
  event_loop, report_loop, md5_update_loop, token_loop, receive_loop, the loops of Strtok_Sub) are
  partial_function, where not returning is None; the properties of them state that they return a
  value, and send_loop_silent_server that the client does not. lossy_success speaks of the runs of the
  client that end with success, since over a network that loses everything there are none.

  \<^bold>\<open>Parameters\<close>. OpenSSL (locale openssl_md5, interpreted on md5.c), the shell behind system
    (posix_shell, interpreted on mv), the socket (file_receiver, interpreted on the server), the
    GPIO functions of the kernel (gpio_kernel, interpreted on a table of lines), the number that
    a C++ string stream reads (Gps), the output of popen (Hotplug, Storage), whether a file can be
    opened (Sys_Gpio) and the contents of uninitialised arrays (junk).

  \<^bold>\<open>Not modelled\<close>. Programs without logic of their own: miscode (but
    gettimeofday.c), vector, coredump, mtrance, myprintf, time/utimes.c, inotify/test.c, and the
    descriptions the kernel build generates. Copies of files that are modelled: three files of
    filesend/udpfilesend/back, and RS485/gpio_class.cpp. In the programs modelled: code that is
    switched off or that nothing calls (DataPointThread of gps.cpp, access_netcard, arg_test), the
    write operation of second_drv.c, which does not compile, addresses and ports of sockets, most
    progress output, delays, the rounding of double (Gps), what atof makes of text that is no
    unsigned number (Netspeed), a repeated announcement or end of transfer in UdpLossy, and the
    concurrent access of a second thread to a GPS object or a file list.
\<close>

section \<open>Several files\<close>

text \<open>C1. Successive runs of the udp client against one server. Files with simple names are sent one after the
  other, to a server whose disk has room for them and a descriptor for each (it closes none): then the
  server has every one of them in place with the contents the client has, and no other file is changed.
  It is the same server state that goes through all the transfers.\<close>

theorem sent_files_stored:
  assumes env: "udp_environment ossl okctx repr digest limit sh"
    and client: "1 \<le> free_fds c" "\<forall>n \<in> set ns. simple_name n \<and> has_file c n (f n)"
    and server: "can_take f ns d0"
  shows "\<exists>s k. client_runs ossl (srv_send ossl sh) srv_recv c ns (init_server d0, 0) = Some (s, k) \<and>
    (\<forall>n \<in> set ns. file_at (disk s) (resolve (final_path n)) = Some (f n)) \<and>
    (\<forall>p. (\<forall>n \<in> set ns. p \<noteq> resolve (final_path n) \<and> p \<noteq> resolve (part_path n)) \<longrightarrow>
       file_at (disk s) p = file_at d0 p)"
proof -
  have s0: "cleared (init_server d0)" "length (sent (init_server d0)) = 0" "disk (init_server d0) = d0"
    by (simp_all add: init_server_def cleared_def)
  have r: "\<forall>n \<in> set ns. resolve (final_path n) = [cs ''mnt'', n] \<and> resolve (part_path n) = [cs ''mnt'', n @ cs ''.filepart'']"
    using client(2) by (simp add: simple_resolve)
  from client_runs_ok [OF env client s0(1), unfolded s0(2,3), OF server] r show ?thesis by auto
qed

theorem sent_files_stored_witness:
  "\<exists>s k. client_runs md5c_openssl (srv_send md5c_openssl mv_shell) srv_recv two_files [cs ''a'', cs ''b'']
       (init_server empty_disk, 0) = Some (s, k) \<and>
     file_at (disk s) (resolve (final_path (cs ''a''))) = Some [1, 2, 3] \<and>
     file_at (disk s) (resolve (final_path (cs ''b''))) = Some [1, 2, 3]"
proof -
  let ?ns = "[cs ''a'', cs ''b'']" and ?f = "\<lambda>n :: bytes. [1, 2, 3 :: u8]"
  have h: "\<forall>n \<in> set ?ns. simple_name n \<and> has_file two_files n (?f n)" "1 \<le> free_fds two_files"
    by (rule two_files_ready)+
  have d: "can_take ?f ?ns empty_disk"
    by (simp add: can_take_def empty_disk_def wf_fs_def free_fds_def)
  from sent_files_stored [OF md5_udp.udp_environment_axioms h(2,1) d] show ?thesis by auto
qed

end
